(* ===== verification/Prelude.thy ===== *)
theory Prelude
  imports Main "HOL-Library.Word" "HOL-Library.Monad_Syntax" "HOL-Library.Signed_Division"
begin

text \<open>
  Shared vocabulary of the development: the machine integers of \<^verbatim>\<open>kernel/types.h\<close>, the
  reading of C results as option values, the two loop shapes the C code uses over its
  fixed-size tables, and the generic facts about lists, options and words that the
  component theories rely on.

  Every operation of the kernel is a function on a state record that returns
  \<^term>\<open>None\<close> where the C code does not return (it calls \<^verbatim>\<open>panic\<close>, or spins or sleeps for an
  event that only another thread can produce) and \<^term>\<open>Some (r, s')\<close> where it returns
  \<open>r\<close> in state \<open>s'\<close>.
\<close>

section \<open>Collections of rewrite rules\<close>

named_theorems lock_simps \<open>rules that evaluate the lock operations\<close>
named_theorems frame_intros \<open>which state fields an operation leaves alone\<close>

section \<open>Machine integers\<close>

unbundle bit_operations_syntax

type_synonym u8 = "8 word"
type_synonym u16 = "16 word"
type_synonym u32 = "32 word"
type_synonym u64 = "64 word"

text \<open>
  A C \<^verbatim>\<open>int\<close> is an integer in the 32-bit two's complement range; where the code's arithmetic
  can leave that range, \<open>i32\<close> writes the wrap-around of the RISC-V instruction out.
\<close>

definition i32 :: "int \<Rightarrow> int" where
  "i32 x = (x + 2147483648) mod 4294967296 - 2147483648"

definition is_i32 :: "int \<Rightarrow> bool" where
  "is_i32 x \<longleftrightarrow> - 2147483648 \<le> x \<and> x < 2147483648"

lemma i32_id [simp]: "is_i32 x \<Longrightarrow> i32 x = x"
  by (simp add: is_i32_def i32_def)

lemma is_i32_i32 [simp]: "is_i32 (i32 x)"
  by (simp add: is_i32_def i32_def)

text \<open>Reading a small natural number back from a machine word.\<close>

lemma unat_of_nat64 [simp]: "n < 2 ^ 64 \<Longrightarrow> unat (of_nat n :: u64) = n"
  by (simp add: unat_of_nat)

lemma unat_of_nat32 [simp]: "n < 2 ^ 32 \<Longrightarrow> unat (of_nat n :: u32) = n"
  by (simp add: unat_of_nat)

lemma unat64_bound: "unat (x :: u64) < 2 ^ 64"
  using unsigned_less [of x, where ?'a = nat] by simp

lemma unat32_bound: "unat (x :: u32) < 2 ^ 32"
  using unsigned_less [of x, where ?'a = nat] by simp

section \<open>Loops over tables\<close>

text \<open>
  \<open>for_each\<close> is a loop that always runs to its end, \<open>for_find\<close> one whose body may leave it
  with a value (a C \<^verbatim>\<open>return\<close>, \<^verbatim>\<open>break\<close> or \<^verbatim>\<open>goto\<close> out of the loop).
\<close>

fun for_each :: "'i list \<Rightarrow> ('i \<Rightarrow> 's \<Rightarrow> 's option) \<Rightarrow> 's \<Rightarrow> 's option" where
  "for_each [] f s = Some s"
| "for_each (i # is) f s = do { s \<leftarrow> f i s; for_each is f s }"

fun for_find :: "'i list \<Rightarrow> ('i \<Rightarrow> 's \<Rightarrow> ('a option \<times> 's) option) \<Rightarrow> 's \<Rightarrow> ('a option \<times> 's) option" where
  "for_find [] f s = Some (None, s)"
| "for_find (i # is) f s =
     do { (r, s) \<leftarrow> f i s;
          case r of Some a \<Rightarrow> Some (Some a, s) | None \<Rightarrow> for_find is f s }"

lemma for_each_append:
  "for_each (xs @ ys) f s = do { s \<leftarrow> for_each xs f s; for_each ys f s }"
proof (induction xs arbitrary: s)
  case Nil
  then show ?case by simp
next
  case (Cons x xs)
  then show ?case by (cases "f x s") simp_all
qed

lemma for_find_append:
  "for_find (xs @ ys) f s = do { (r, s) \<leftarrow> for_find xs f s;
     case r of Some a \<Rightarrow> Some (Some a, s) | None \<Rightarrow> for_find ys f s }"
proof (induction xs arbitrary: s)
  case Nil
  then show ?case by simp
next
  case (Cons x xs)
  then show ?case by (cases "f x s") (auto split: option.split)
qed

lemma for_each_inv:
  assumes "\<And>i s. i \<in> set is \<Longrightarrow> I s \<Longrightarrow> \<exists>s'. f i s = Some s' \<and> I s'" and "I s"
  shows "\<exists>s'. for_each is f s = Some s' \<and> I s'"
  using assms
proof (induction "is" arbitrary: s)
  case Nil
  then show ?case by simp
next
  case (Cons i "is")
  from Cons.prems obtain s1 where "f i s = Some s1" and "I s1"
    by force
  with Cons.IH [of s1] Cons.prems show ?case by simp
qed

lemma for_each_partial:
  assumes "for_each is f s = Some s'" and "I s"
    and "\<And>i s s'. i \<in> set is \<Longrightarrow> I s \<Longrightarrow> f i s = Some s' \<Longrightarrow> I s'"
  shows "I s'"
  using assms
proof (induction "is" arbitrary: s)
  case Nil
  then show ?case by simp
next
  case (Cons i "is")
  from Cons.prems(1) obtain s1 where s1: "f i s = Some s1" "for_each is f s1 = Some s'"
    by (auto simp: Option.bind_eq_Some_conv)
  with Cons.prems have "I s1" by force
  with s1(2) show ?case using Cons.IH Cons.prems(3) by auto
qed

lemma for_find_partial:
  assumes "for_find is f s = Some (r, s')" and "I s"
    and "\<And>i s r s'. i \<in> set is \<Longrightarrow> I s \<Longrightarrow> f i s = Some (r, s') \<Longrightarrow> I s'"
  shows "I s'"
  using assms
proof (induction "is" arbitrary: s)
  case Nil
  then show ?case by simp
next
  case (Cons i "is")
  from Cons.prems(1) obtain r1 s1 where s1: "f i s = Some (r1, s1)"
      "(case r1 of Some a \<Rightarrow> Some (Some a, s1) | None \<Rightarrow> for_find is f s1) = Some (r, s')"
    by (auto simp: Option.bind_eq_Some_conv)
  with Cons.prems have I1: "I s1" by force
  show ?case
  proof (cases r1)
    case None
    with s1 have "for_find is f s1 = Some (r, s')" by simp
    then show ?thesis using I1
      by (rule Cons.IH) (rule Cons.prems(3), simp_all)
  next
    case (Some a)
    with s1 I1 show ?thesis by simp
  qed
qed

section \<open>Lists\<close>

lemma find_upt_first:
  "find P [a..<n] = Some i \<longleftrightarrow> a \<le> i \<and> i < n \<and> P i \<and> (\<forall>j. a \<le> j \<and> j < i \<longrightarrow> \<not> P j)"
proof
  assume "find P [a..<n] = Some i"
  then obtain k where k: "k < n - a" "P (a + k)" "i = a + k" "\<forall>j<k. \<not> P (a + j)"
    by (auto simp: find_Some_iff)
  have "\<not> P j" if "a \<le> j" and "j < i" for j
  proof -
    from that k(3) have "j - a < k" by arith
    with k(4) that show ?thesis by fastforce
  qed
  with k show "a \<le> i \<and> i < n \<and> P i \<and> (\<forall>j. a \<le> j \<and> j < i \<longrightarrow> \<not> P j)"
    by simp
next
  assume r: "a \<le> i \<and> i < n \<and> P i \<and> (\<forall>j. a \<le> j \<and> j < i \<longrightarrow> \<not> P j)"
  then have "i - a < length [a..<n] \<and> P ([a..<n] ! (i - a)) \<and> i = [a..<n] ! (i - a) \<and>
      (\<forall>j<i - a. \<not> P ([a..<n] ! j))"
    by auto
  then show "find P [a..<n] = Some i"
    unfolding find_Some_iff by blast
qed

lemma find_upt_None: "find P [a..<n] = None \<longleftrightarrow> (\<forall>i. a \<le> i \<and> i < n \<longrightarrow> \<not> P i)"
  by (auto simp: find_None_iff)

lemma map_update_same: "f y = f (xs ! i) \<Longrightarrow> map f (xs[i := y]) = map f xs"
  by (metis list_update_id map_update)

lemma list_all_update: "list_all P xs \<Longrightarrow> P y \<Longrightarrow> list_all P (xs[i := y])"
  by (cases "i < length xs") (auto simp: list_all_length nth_list_update)

end
