(* ===== verification/Kstring.thy ===== *)
theory Kstring
  imports Prelude
begin

text \<open>
  \<^verbatim>\<open>kernel/string.c\<close>. Physical memory is a function from 64-bit addresses to bytes;
  \<^verbatim>\<open>memset\<close>, \<^verbatim>\<open>memcmp\<close>, \<^verbatim>\<open>memmove\<close> and \<^verbatim>\<open>memcpy\<close> run the loops of the source on it, byte by byte.
  The string routines work on byte arrays (lists); a read or write past the end of an array is
  \<^term>\<open>None\<close>. The first half of the theory gives the little-endian reading of words in
  memory, which the page-table, trapframe and struct accesses of the kernel use.
\<close>

unbundle bit_operations_syntax

type_synonym memory = "u64 \<Rightarrow> u8"

section \<open>Words as bytes\<close>

definition word_of_bytes :: "u8 list \<Rightarrow> 'a::len word" where
  "word_of_bytes bs = foldr (\<lambda>b w. ucast b OR push_bit 8 w) bs 0"

definition bytes_of_word :: "nat \<Rightarrow> 'a::len word \<Rightarrow> u8 list" where
  "bytes_of_word n w = map (\<lambda>i. ucast (drop_bit (8 * i) w)) [0..<n]"

definition read_bytes :: "memory \<Rightarrow> u64 \<Rightarrow> nat \<Rightarrow> u8 list" where
  "read_bytes m a n = map (\<lambda>i. m (a + of_nat i)) [0..<n]"

definition write_bytes :: "memory \<Rightarrow> u64 \<Rightarrow> u8 list \<Rightarrow> memory" where
  "write_bytes m a bs = (\<lambda>x. if unat (x - a) < length bs then bs ! unat (x - a) else m x)"

definition read64 :: "memory \<Rightarrow> u64 \<Rightarrow> u64" where
  "read64 m a = word_of_bytes (read_bytes m a 8)"

definition write64 :: "memory \<Rightarrow> u64 \<Rightarrow> u64 \<Rightarrow> memory" where
  "write64 m a v = write_bytes m a (bytes_of_word 8 v)"

section \<open>The memory routines\<close>

text \<open>\<^verbatim>\<open>for(i = 0; i < n; i++) cdst[i] = c;\<close>\<close>

function memset_from :: "memory \<Rightarrow> u64 \<Rightarrow> u8 \<Rightarrow> nat \<Rightarrow> nat \<Rightarrow> memory" where
  "memset_from m dst c i n =
     (if i < n then memset_from (m(dst + of_nat i := c)) dst c (Suc i) n else m)"
  by pat_completeness auto
termination
  by (relation "measure (\<lambda>(m, dst, c, i, n). n - i)") auto

declare memset_from.simps [simp del]

definition memset :: "memory \<Rightarrow> u64 \<Rightarrow> int \<Rightarrow> u32 \<Rightarrow> memory" where
  "memset m dst c n = memset_from m dst (word_of_int c) 0 (unat n)"

fun memcmp_loop :: "memory \<Rightarrow> u64 \<Rightarrow> u64 \<Rightarrow> nat \<Rightarrow> int" where
  "memcmp_loop m s1 s2 0 = 0"
| "memcmp_loop m s1 s2 (Suc n) =
     (if m s1 \<noteq> m s2 then uint (m s1) - uint (m s2) else memcmp_loop m (s1 + 1) (s2 + 1) n)"

definition memcmp :: "memory \<Rightarrow> u64 \<Rightarrow> u64 \<Rightarrow> u32 \<Rightarrow> int" where
  "memcmp m v1 v2 n = memcmp_loop m v1 v2 (unat n)"

text \<open>The two copy loops: \<^verbatim>\<open>*d++ = *s++\<close> and \<^verbatim>\<open>*--d = *--s\<close>.\<close>

fun copy_up :: "memory \<Rightarrow> u64 \<Rightarrow> u64 \<Rightarrow> nat \<Rightarrow> memory" where
  "copy_up m d s 0 = m"
| "copy_up m d s (Suc n) = copy_up (m(d := m s)) (d + 1) (s + 1) n"

fun copy_down :: "memory \<Rightarrow> u64 \<Rightarrow> u64 \<Rightarrow> nat \<Rightarrow> memory" where
  "copy_down m d s 0 = m"
| "copy_down m d s (Suc n) = copy_down (m(d - 1 := m (s - 1))) (d - 1) (s - 1) n"

definition memmove :: "memory \<Rightarrow> u64 \<Rightarrow> u64 \<Rightarrow> u32 \<Rightarrow> memory" where
  "memmove m dst src n =
     (if n = 0 then m
      else let s = src; d = dst in
        if s < d \<and> s + ucast n > d
        then copy_down m (d + ucast n) (s + ucast n) (unat n)
        else copy_up m d s (unat n))"

definition memcpy :: "memory \<Rightarrow> u64 \<Rightarrow> u64 \<Rightarrow> u32 \<Rightarrow> memory" where
  "memcpy m dst src n = memmove m dst src n"

section \<open>The string routines\<close>

text \<open>
  \<^verbatim>\<open>while(n > 0 && *p && *p == *q) n--, p++, q++;\<close> and the comparison after the loop.
\<close>

fun strncmp :: "u8 list \<Rightarrow> u8 list \<Rightarrow> nat \<Rightarrow> int option" where
  "strncmp p q 0 = Some 0"
| "strncmp (x # p) (y # q) (Suc n) =
     (if x \<noteq> 0 \<and> x = y then strncmp p q n else Some (uint x - uint y))"
| "strncmp p q (Suc n) = None"

text \<open>The second loop of \<^verbatim>\<open>strncpy\<close>, \<^verbatim>\<open>while(n-- > 0) *s++ = 0;\<close>.\<close>

fun strncpy_pad :: "u8 list \<Rightarrow> nat \<Rightarrow> u8 list option" where
  "strncpy_pad s 0 = Some s"
| "strncpy_pad (x # s) (Suc n) = map_option ((#) 0) (strncpy_pad s n)"
| "strncpy_pad [] (Suc n) = None"

text \<open>\<^verbatim>\<open>strncpy\<close> returns the new contents of the array \<open>s\<close>.\<close>

fun strncpy :: "u8 list \<Rightarrow> u8 list \<Rightarrow> nat \<Rightarrow> u8 list option" where
  "strncpy s t 0 = Some s"
| "strncpy (x # s) (c # t) (Suc n) =
     (if c \<noteq> 0 then map_option ((#) c) (strncpy s t n)
      else map_option ((#) 0) (strncpy_pad s n))"
| "strncpy s t (Suc n) = None"

text \<open>
  \<^verbatim>\<open>safestrcpy\<close>: when the loop stops at a NUL, the pointer has moved past it and the final
  \<^verbatim>\<open>*s = 0\<close> clears one more byte.
\<close>

fun safestrcpy :: "u8 list \<Rightarrow> u8 list \<Rightarrow> nat \<Rightarrow> u8 list option" where
  "safestrcpy s t 0 = Some s"
| "safestrcpy (x # s) t (Suc 0) = Some (0 # s)"
| "safestrcpy (x # s) (c # t) (Suc (Suc n)) =
     (if c \<noteq> 0 then map_option ((#) c) (safestrcpy s t (Suc n))
      else (case s of [] \<Rightarrow> None | y # s' \<Rightarrow> Some (0 # 0 # s')))"
| "safestrcpy s t n = None"

fun strlen :: "u8 list \<Rightarrow> nat option" where
  "strlen [] = None"
| "strlen (c # s) = (if c = 0 then Some 0 else map_option Suc (strlen s))"

text \<open>The C string an array holds: the bytes before its first NUL.\<close>

definition cstr :: "u8 list \<Rightarrow> u8 list" where
  "cstr s = takeWhile (\<lambda>c. c \<noteq> 0) s"

section \<open>Words and bytes: round trips\<close>

lemma bit_word_of_bytes:
  "bit (word_of_bytes bs :: 'a::len word) k \<longleftrightarrow>
     k < LENGTH('a) \<and> k div 8 < length bs \<and> bit (bs ! (k div 8)) (k mod 8)"
proof (induction bs arbitrary: k)
  case Nil
  then show ?case by (simp add: word_of_bytes_def)
next
  case (Cons b bs)
  have step: "word_of_bytes (b # bs) = (ucast b OR push_bit 8 (word_of_bytes bs) :: 'a word)"
    by (simp add: word_of_bytes_def)
  show ?case
  proof (cases "k < 8")
    case True
    then show ?thesis by (auto simp: step bit_simps)
  next
    case False
    then have nb: "\<not> bit b k" by (auto dest: bit_imp_le_length)
    have "k div 8 = Suc ((k - 8) div 8)" and "k mod 8 = (k - 8) mod 8"
      using False by (auto simp: le_div_geq le_mod_geq)
    with False nb show ?thesis by (auto simp: step bit_simps Cons.IH)
  qed
qed

lemma length_bytes_of_word [simp]: "length (bytes_of_word n w) = n"
  by (simp add: bytes_of_word_def)

lemma length_read_bytes [simp]: "length (read_bytes m a n) = n"
  by (simp add: read_bytes_def)

lemma word_of_bytes_of_word:
  fixes w :: "'a::len word"
  assumes "LENGTH('a) \<le> 8 * n"
  shows "word_of_bytes (bytes_of_word n w) = w"
proof (rule bit_word_eqI)
  fix k
  assume k: "k < LENGTH('a)"
  with assms have "k div 8 < n" by simp
  with k show "bit (word_of_bytes (bytes_of_word n w) :: 'a word) k \<longleftrightarrow> bit w k"
    by (simp add: bit_word_of_bytes bytes_of_word_def bit_simps)
qed


lemma read_bytes_write_bytes:
  assumes "length bs < 2 ^ 64"
  shows "read_bytes (write_bytes m a bs) a (length bs) = bs"
proof (rule nth_equalityI)
  fix i
  assume "i < length (read_bytes (write_bytes m a bs) a (length bs))"
  then have i: "i < length bs" by simp
  with assms have "unat (of_nat i :: u64) = i"
    by simp
  with i show "read_bytes (write_bytes m a bs) a (length bs) ! i = bs ! i"
    by (simp add: read_bytes_def write_bytes_def)
qed simp

lemma read64_write64 [simp]: "read64 (write64 m a v) a = v"
proof -
  have "read_bytes (write64 m a v) a 8 = bytes_of_word 8 v"
    using read_bytes_write_bytes [of "bytes_of_word 8 v" m a] by (simp add: write64_def)
  then show ?thesis by (simp add: read64_def word_of_bytes_of_word)
qed

lemma read_bytes_cong:
  "(\<And>i. i < n \<Longrightarrow> m (a + of_nat i) = m' (b + of_nat i)) \<Longrightarrow> read_bytes m a n = read_bytes m' b n"
  by (simp add: read_bytes_def)

section \<open>The memory routines against their specification\<close>

text \<open>The reference semantics: all bytes are read before any is written.\<close>

definition copy_spec :: "memory \<Rightarrow> u64 \<Rightarrow> u64 \<Rightarrow> nat \<Rightarrow> memory" where
  "copy_spec m d s n = (\<lambda>a. if unat (a - d) < n then m (s + (a - d)) else m a)"

definition fill_spec :: "memory \<Rightarrow> u64 \<Rightarrow> u8 \<Rightarrow> nat \<Rightarrow> memory" where
  "fill_spec m d c n = (\<lambda>a. if unat (a - d) < n then c else m a)"

lemma memset_from_spec:
  assumes "i \<le> n" and "n \<le> 2 ^ 64"
  shows "memset_from m dst c i n a =
    (if i \<le> unat (a - dst) \<and> unat (a - dst) < n then c else m a)"
  using assms
proof (induction m dst c i n rule: memset_from.induct)
  case (1 m dst c i n)
  show ?case
  proof (cases "i < n")
    case True
    with "1.prems" have u: "unat (of_nat i :: u64) = i"
      by simp
    have "a = dst + of_nat i \<longleftrightarrow> unat (a - dst) = i"
      using u by (metis add_diff_cancel_left' diff_add_cancel add.commute of_nat_unat ucast_id)
    moreover have "memset_from (m(dst + of_nat i := c)) dst c (Suc i) n a =
        (if Suc i \<le> unat (a - dst) \<and> unat (a - dst) < n then c else (m(dst + of_nat i := c)) a)"
      using "1.IH" True "1.prems" by (simp add: fun_upd_def)
    ultimately show ?thesis
      using True by (subst memset_from.simps) (simp, arith?)
  next
    case False
    then show ?thesis by (subst memset_from.simps) auto
  qed
qed

lemma memset_spec: "memset m dst c n = fill_spec m dst (word_of_int c) (unat n)"
proof
  fix a
  have "unat n \<le> 2 ^ 64" using unat32_bound [of n] by simp
  then show "memset m dst c n a = fill_spec m dst (word_of_int c) (unat n) a"
    by (simp add: memset_def fill_spec_def memset_from_spec)
qed

lemma unat_add_small: "unat (s :: u64) + k < 2 ^ 64 \<Longrightarrow> unat (s + of_nat k) = unat s + k"
  by (simp add: unat_word_ariths)

lemma addr_eq_iff:
  fixes s d :: u64
  assumes "unat s + k < 2 ^ 64" and "unat d + j < 2 ^ 64"
  shows "s + of_nat k = d + of_nat j \<longleftrightarrow> unat s + k = unat d + j"
  using assms by (metis unat_add_small word_unat_eq_iff)

lemma of_nat64_inj: "a < 2 ^ 64 \<Longrightarrow> b < 2 ^ 64 \<Longrightarrow> (of_nat a :: u64) = of_nat b \<longleftrightarrow> a = b"
  by (metis unat_of_nat64)

lemma mem_ext:
  assumes "\<And>k. k < 2 ^ 64 \<Longrightarrow> f (d + of_nat k) = g (d + of_nat k)"
  shows "f = (g :: memory)"
proof
  fix a
  have "a = d + of_nat (unat (a - d))" by simp
  then show "f a = g a" using assms [OF unat64_bound [of "a - d"]] by metis
qed

lemma copy_spec_at:
  "k < 2 ^ 64 \<Longrightarrow> copy_spec m d s n (d + of_nat k) = (if k < n then m (s + of_nat k) else m (d + of_nat k))"
  by (simp add: copy_spec_def)

lemma copy_up_spec:
  assumes "unat s + n < 2 ^ 64" and "unat d + n < 2 ^ 64"
    and "\<not> (unat s < unat d \<and> unat d < unat s + n)"
  shows "copy_up m d s n = copy_spec m d s n"
  using assms
proof (induction n arbitrary: m d s)
  case 0
  then show ?case by (simp add: copy_spec_def)
next
  case (Suc n)
  let ?m = "m(d := m s)"
  have us: "unat (s + 1) = unat s + 1" and ud: "unat (d + 1) = unat d + 1"
    using unat_add_small [of s 1] unat_add_small [of d 1] Suc.prems by simp_all
  have IH: "copy_up ?m (d + 1) (s + 1) n = copy_spec ?m (d + 1) (s + 1) n"
    by (rule Suc.IH) (use Suc.prems us ud in auto)
  have "copy_spec ?m (d + 1) (s + 1) n = copy_spec m d s (Suc n)"
  proof (rule mem_ext [where d = d])
    fix k :: nat
    assume kb: "k < 2 ^ 64"
    show "copy_spec ?m (d + 1) (s + 1) n (d + of_nat k) = copy_spec m d s (Suc n) (d + of_nat k)"
    proof (cases k)
      case 0
      have "unat (- 1 :: u64) = 2 ^ 64 - 1"
        by (simp add: unsigned_minus_1_eq_mask mask_eq_exp_minus_1)
      with 0 Suc.prems show ?thesis by (simp add: copy_spec_def)
    next
      case (Suc j)
      have dk: "d + of_nat k = (d + 1) + of_nat j" and sk: "s + 1 + of_nat j = s + of_nat k"
        by (simp_all add: Suc)
      have ne: "s + of_nat k \<noteq> d" if "k < Suc n"
        using addr_eq_iff [of s k d 0] that Suc.prems Suc by auto
      have nd: "d + of_nat k \<noteq> d" using kb Suc of_nat64_inj [of k 0] by simp
      have "copy_spec ?m (d + 1) (s + 1) n (d + of_nat k) =
          (if j < n then ?m (s + 1 + of_nat j) else ?m (d + 1 + of_nat j))"
        unfolding dk by (rule copy_spec_at) (use kb Suc in simp)
      also have "\<dots> = (if k < Suc n then m (s + of_nat k) else m (d + of_nat k))"
        using ne nd Suc unfolding sk dk [symmetric] by simp
      also have "\<dots> = copy_spec m d s (Suc n) (d + of_nat k)"
        using kb by (simp only: copy_spec_at)
      finally show ?thesis .
    qed
  qed
  with IH show ?case by simp
qed

lemma copy_down_spec:
  assumes "unat s + n < 2 ^ 64" and "unat d + n < 2 ^ 64" and "unat s < unat d"
  shows "copy_down m (d + of_nat n) (s + of_nat n) n = copy_spec m d s n"
  using assms
proof (induction n arbitrary: m)
  case 0
  then show ?case by (simp add: copy_spec_def)
next
  case (Suc n)
  let ?m = "m(d + of_nat n := m (s + of_nat n))"
  have step: "copy_down m (d + of_nat (Suc n)) (s + of_nat (Suc n)) (Suc n) =
      copy_down ?m (d + of_nat n) (s + of_nat n) n"
    by (simp add: algebra_simps)
  have "copy_spec ?m d s n = copy_spec m d s (Suc n)"
  proof (rule mem_ext [where d = d])
    fix k :: nat
    assume kb: "k < 2 ^ 64"
    have kn: "d + of_nat k = d + of_nat n \<longleftrightarrow> k = n"
      using of_nat64_inj [of k n] kb Suc.prems by simp
    have ne: "s + of_nat k \<noteq> d + of_nat n" if "k < n"
      using addr_eq_iff [of s k d n] that Suc.prems by auto
    show "copy_spec ?m d s n (d + of_nat k) = copy_spec m d s (Suc n) (d + of_nat k)"
      unfolding copy_spec_at [OF kb] using kn ne by (auto simp: less_Suc_eq)
  qed
  with step Suc show ?case by simp
qed

lemma memmove_spec:
  assumes "unat src + unat n < 2 ^ 64" and "unat dst + unat n < 2 ^ 64"
  shows "memmove m dst src n = copy_spec m dst src (unat n)"
proof (cases "n = 0")
  case True
  then show ?thesis by (simp add: memmove_def copy_spec_def)
next
  case False
  have lt: "src + ucast n > dst \<longleftrightarrow> unat dst < unat src + unat n"
    using assms unat_add_small [of src "unat n"] by (simp add: word_less_nat_alt)
  show ?thesis
  proof (cases "src < dst \<and> src + ucast n > dst")
    case True
    with False show ?thesis
      using copy_down_spec [of src "unat n" dst m] assms
      by (simp add: memmove_def word_less_nat_alt)
  next
    case ov: False
    with lt have "\<not> (unat src < unat dst \<and> unat dst < unat src + unat n)"
      by (auto simp: word_less_nat_alt)
    with False ov show ?thesis
      using copy_up_spec [of src "unat n" dst m] assms by (auto simp: memmove_def)
  qed
qed

section \<open>The string routines against C strings\<close>

lemma cstr_simps [simp]: "cstr [] = []" "cstr (c # s) = (if c = 0 then [] else c # cstr s)"
  by (simp_all add: cstr_def)

lemma safestrcpy_cstr:
  assumes "0 < n" and "n \<le> length s" and "0 \<in> set t \<or> n \<le> length t"
  shows "\<exists>s'. safestrcpy s t n = Some s' \<and> length s' = length s \<and>
    cstr s' = take (n - 1) (cstr t) \<and> drop n s' = drop n s"
  using assms
proof (induction s t n rule: safestrcpy.induct)
  case (3 x s c t n)
  show ?case
  proof (cases "c = 0")
    case True
    from "3.prems" obtain y s' where "s = y # s'" by (cases s) auto
    with True show ?thesis by simp
  next
    case False
    with 3 obtain s' where "safestrcpy s t (Suc n) = Some s'" "length s' = length s"
        "cstr s' = take n (cstr t)" "drop (Suc n) s' = drop (Suc n) s"
      by fastforce
    with False show ?thesis by simp
  qed
qed auto

lemma strncmp_zero_iff:
  assumes "0 \<in> set p \<or> n \<le> length p" and "0 \<in> set q \<or> n \<le> length q"
  shows "\<exists>r. strncmp p q n = Some r \<and> (r = 0 \<longleftrightarrow> take n (cstr p) = take n (cstr q))"
  using assms
proof (induction p q n rule: strncmp.induct)
  case (2 x p y q n)
  show ?case
  proof (cases "x \<noteq> 0 \<and> x = y")
    case True
    with 2 show ?thesis by fastforce
  next
    case False
    then show ?thesis by (auto simp: word_uint_eq_iff [symmetric])
  qed
qed auto

lemma strncpy_pad_replicate: "n \<le> length s \<Longrightarrow> strncpy_pad s n = Some (replicate n 0 @ drop n s)"
  by (induction s n rule: strncpy_pad.induct) auto

lemma strncpy_contents:
  assumes "n \<le> length s" and "0 \<in> set t \<or> n \<le> length t"
  shows "strncpy s t n =
    Some (take n (cstr t) @ replicate (n - length (cstr t)) 0 @ drop n s)"
  using assms
proof (induction s t n rule: strncpy.induct)
  case (2 x s c t n)
  then show ?case by (cases "c = 0") (auto simp: strncpy_pad_replicate)
qed auto

lemma strlen_cstr: "0 \<in> set s \<Longrightarrow> strlen s = Some (length (cstr s))"
  by (induction s) auto

section \<open>Properties\<close>

text \<open>
  C39: \<^verbatim>\<open>memmove\<close> copies as if every source byte were read before any byte is written, whether
  or not the two ranges overlap and in whichever direction, as long as neither range runs
  past the end of the address space; all other memory is unchanged.
\<close>

theorem memmove_copies:
  assumes "unat src + unat n < 2 ^ 64" and "unat dst + unat n < 2 ^ 64"
  shows "memmove m dst src n =
    (\<lambda>a. if unat (a - dst) < unat n then m (src + (a - dst)) else m a)"
  using memmove_spec [OF assms] by (simp add: copy_spec_def)

theorem memmove_copies_witness:
  "memmove (\<lambda>a. ucast a) 101 100 3 =
    (\<lambda>a. if unat (a - 101) < unat (3 :: u32) then ucast (100 + (a - 101)) else ucast a)"
  by (rule memmove_copies) simp_all

text \<open>
  C40: \<^verbatim>\<open>safestrcpy\<close> into a buffer of at least \<open>n\<close> bytes never overruns it: the result is always
  NUL-terminated inside the first \<open>n\<close> bytes, holds the source string cut to \<open>n - 1\<close>
  characters, and every byte from \<open>n\<close> on is unchanged.
\<close>

theorem safestrcpy_terminates_string:
  assumes "0 < n" and "n \<le> length s" and "0 \<in> set t \<or> n \<le> length t"
  shows "\<exists>s'. safestrcpy s t n = Some s' \<and> length s' = length s \<and>
    cstr s' = take (n - 1) (cstr t) \<and> length (cstr s') < n \<and> drop n s' = drop n s"
proof -
  obtain s' where "safestrcpy s t n = Some s'" "length s' = length s"
      "cstr s' = take (n - 1) (cstr t)" "drop n s' = drop n s"
    using safestrcpy_cstr [OF assms] by blast
  then show ?thesis using assms(1) by auto
qed

theorem safestrcpy_terminates_string_witness:
  "\<exists>s'. safestrcpy [7, 7, 7, 7] [104, 105, 106, 0] 3 = Some s' \<and> length s' = length [7, 7, 7, 7 :: u8] \<and>
    cstr s' = take (3 - 1) (cstr [104, 105, 106, 0]) \<and> length (cstr s') < 3 \<and>
    drop 3 s' = drop 3 [7, 7, 7, 7]"
  by (rule safestrcpy_terminates_string) simp_all

end
