(* ===== verification/Physmem.thy ===== *)
theory Physmem
  imports Kstring
begin

text \<open>
  The constants and macros of \<^verbatim>\<open>kernel/riscv.h\<close> and \<^verbatim>\<open>kernel/memlayout.h\<close> that the memory code
  uses, and the arithmetic of pages: which addresses lie in a page, that an aligned 64-bit
  access stays inside one page, and what it leaves unchanged.
\<close>

unbundle bit_operations_syntax

section \<open>Layout constants\<close>

definition PGSIZE :: u64 where "PGSIZE = 4096"
definition KERNBASE :: u64 where "KERNBASE = 0x80000000"
definition PHYSTOP :: u64 where "PHYSTOP = KERNBASE + 128 * 1024 * 1024"
definition MAXVA :: u64 where "MAXVA = push_bit (9 + 9 + 9 + 12 - 1) 1"
definition TRAMPOLINE :: u64 where "TRAMPOLINE = MAXVA - PGSIZE"
definition TRAPFRAME :: u64 where "TRAPFRAME = TRAMPOLINE - PGSIZE"

definition KSTACK :: "nat \<Rightarrow> u64" where
  "KSTACK p = TRAMPOLINE - (of_nat p + 1) * 2 * PGSIZE"

definition PGROUNDUP :: "u64 \<Rightarrow> u64" where
  "PGROUNDUP sz = (sz + PGSIZE - 1) AND NOT (PGSIZE - 1)"

definition PGROUNDDOWN :: "u64 \<Rightarrow> u64" where
  "PGROUNDDOWN a = a AND NOT (PGSIZE - 1)"

definition PTE_V :: u64 where "PTE_V = push_bit 0 1"
definition PTE_R :: u64 where "PTE_R = push_bit 1 1"
definition PTE_W :: u64 where "PTE_W = push_bit 2 1"
definition PTE_X :: u64 where "PTE_X = push_bit 3 1"
definition PTE_U :: u64 where "PTE_U = push_bit 4 1"

definition PA2PTE :: "u64 \<Rightarrow> u64" where
  "PA2PTE pa = push_bit 10 (drop_bit 12 pa)"

definition PTE2PA :: "u64 \<Rightarrow> u64" where
  "PTE2PA pte = push_bit 12 (drop_bit 10 pte)"

definition PTE_FLAGS :: "u64 \<Rightarrow> u64" where
  "PTE_FLAGS pte = pte AND 0x3FF"

definition PX :: "nat \<Rightarrow> u64 \<Rightarrow> u64" where
  "PX level va = drop_bit (12 + 9 * level) va AND 0x1FF"

definition MAKE_SATP :: "u64 \<Rightarrow> u64" where
  "MAKE_SATP pagetable = push_bit 60 8 OR drop_bit 12 pagetable"

lemmas layout_defs = PGSIZE_def KERNBASE_def PHYSTOP_def MAXVA_def TRAMPOLINE_def TRAPFRAME_def

lemma PGSIZE_unat [simp]: "unat PGSIZE = 4096" by (simp add: PGSIZE_def)
lemma PHYSTOP_unat [simp]: "unat PHYSTOP = 2281701376" by (simp add: PHYSTOP_def KERNBASE_def)
lemma MAXVA_val: "MAXVA = 274877906944" by (simp add: MAXVA_def)
lemma TRAPFRAME_val: "TRAPFRAME = 274877898752" by (simp add: TRAPFRAME_def TRAMPOLINE_def MAXVA_val PGSIZE_def)
lemma TRAMPOLINE_val: "TRAMPOLINE = 274877902848" by (simp add: TRAMPOLINE_def MAXVA_val PGSIZE_def)

section \<open>Pages\<close>

text \<open>The page number of an address, and page alignment.\<close>

definition pn :: "u64 \<Rightarrow> nat" where "pn a = unat a div 4096"

definition page_aligned :: "u64 \<Rightarrow> bool" where "page_aligned a \<longleftrightarrow> a mod PGSIZE = 0"

lemma page_aligned_unat: "page_aligned a \<longleftrightarrow> unat a mod 4096 = 0"
  by (simp add: page_aligned_def word_unat_eq_iff unat_mod PGSIZE_def)

lemma unat_PGROUNDDOWN: "unat (PGROUNDDOWN a) = unat a - unat a mod 4096"
proof -
  have m: "PGSIZE - 1 = mask 12" by (simp add: PGSIZE_def mask_eq_exp_minus_1)
  have "a AND NOT (mask 12) = push_bit 12 (drop_bit 12 a)"
    by (rule bit_word_eqI) (auto simp: bit_simps)
  then have "PGROUNDDOWN a = push_bit 12 (drop_bit 12 a)" by (simp add: PGROUNDDOWN_def m)
  moreover have "unat (push_bit 12 (drop_bit 12 a)) = unat a div 4096 * 4096"
  proof -
    have u: "unat (drop_bit 12 a) = unat a div 4096"
      by (simp add: drop_bit_eq_div unat_div)
    have "unat (drop_bit 12 a) * unat (4096 :: u64) < 2 ^ 64"
      using unat64_bound [of a] by (simp add: u)
    then have "unat (drop_bit 12 a * 4096) = unat (drop_bit 12 a) * unat (4096 :: u64)"
      by (simp add: unat_word_ariths(2) u)
    then show ?thesis by (simp add: push_bit_eq_mult u)
  qed
  ultimately show ?thesis by (simp add: minus_mod_eq_div_mult [symmetric])
qed

lemma unat_PGROUNDUP:
  assumes "unat a + 4095 < 2 ^ 64"
  shows "unat (PGROUNDUP a) = (unat a + 4095) div 4096 * 4096"
proof -
  have "PGROUNDUP a = PGROUNDDOWN (a + 4095)"
    by (simp add: PGROUNDUP_def PGROUNDDOWN_def PGSIZE_def add.commute)
  moreover have "unat (a + 4095) = unat a + 4095"
    using assms unat_add_small [of a 4095] by simp
  ultimately show ?thesis by (simp add: unat_PGROUNDDOWN minus_mod_eq_div_mult [symmetric])
qed

lemma round_up_nat:
  "(a :: nat) \<le> (a + 4095) div 4096 * 4096"
  "a \<le> 4096 * k \<Longrightarrow> (a + 4095) div 4096 * 4096 \<le> 4096 * k"
proof -
  show "a \<le> (a + 4095) div 4096 * 4096"
    using div_mult_mod_eq [of "a + 4095" 4096] mod_less_divisor [of 4096 "a + 4095"] by linarith
  assume "a \<le> 4096 * k"
  then have "(a + 4095) div 4096 < Suc k" by (intro less_mult_imp_div_less) simp
  then show "(a + 4095) div 4096 * 4096 \<le> 4096 * k" by simp
qed

lemma page_aligned_rounds [simp]: "page_aligned (PGROUNDDOWN a)"
proof -
  have "(unat a - unat a mod 4096) mod 4096 = 0" by (simp add: minus_mod_eq_div_mult)
  then show ?thesis by (simp add: page_aligned_unat unat_PGROUNDDOWN)
qed

lemma page_aligned_PGROUNDUP [simp]: "page_aligned (PGROUNDUP a)"
  using page_aligned_rounds [of "a + PGSIZE - 1"] by (simp add: PGROUNDUP_def PGROUNDDOWN_def)

lemma pn_PGROUNDDOWN [simp]: "pn (PGROUNDDOWN a) = pn a"
  by (simp add: pn_def unat_PGROUNDDOWN minus_mod_eq_div_mult)

lemma page_eq: "page_aligned p \<Longrightarrow> page_aligned q \<Longrightarrow> p = q \<longleftrightarrow> pn p = pn q"
  by (auto simp: page_aligned_unat pn_def word_unat_eq_iff)

lemma page_alignedE:
  assumes "page_aligned p"
  obtains k where "unat p = 4096 * k" "k < 2 ^ 52"
proof -
  from assms obtain k where k: "unat p = 4096 * k"
    by (auto simp: page_aligned_unat mod_eq_0_iff_dvd dvd_def)
  moreover have "k < 2 ^ 52" using unat64_bound [of p] k by simp
  ultimately show thesis by (rule that)
qed

lemma page_top: "page_aligned p \<Longrightarrow> unat p + 4096 \<le> 2 ^ 64"
  by (erule page_alignedE) simp

lemma pn_offset:
  assumes "page_aligned p" and "k < 4096"
  shows "unat (p + of_nat k) = unat p + k" and "pn (p + of_nat k) = pn p"
proof -
  show u: "unat (p + of_nat k) = unat p + k"
    using page_top [OF assms(1)] assms(2) by (intro unat_add_small) simp
  obtain j where "unat p = 4096 * j" using assms(1) by (rule page_alignedE)
  with u assms(2) show "pn (p + of_nat k) = pn p" by (simp add: pn_def)
qed

lemma in_page_iff:
  assumes "page_aligned p"
  shows "unat (a - p) < 4096 \<longleftrightarrow> pn a = pn p"
proof
  assume "unat (a - p) < 4096"
  from pn_offset(2) [OF assms this] show "pn a = pn p" by simp
next
  assume e: "pn a = pn p"
  with assms have "unat a = unat p + unat a mod 4096"
    using div_mult_mod_eq [of "unat a" 4096] div_mult_mod_eq [of "unat p" 4096]
    by (simp add: pn_def page_aligned_unat)
  moreover have "unat a mod 4096 < 4096" by simp
  ultimately have "unat p \<le> unat a" and "unat a - unat p < 4096" by linarith+
  then show "unat (a - p) < 4096" by (simp add: unat_sub word_le_nat_alt)
qed

section \<open>Aligned accesses\<close>

definition aligned8 :: "u64 \<Rightarrow> bool" where "aligned8 a \<longleftrightarrow> unat a mod 8 = 0"

lemma page_aligned8 [simp]: "page_aligned p \<Longrightarrow> aligned8 p"
  by (erule page_alignedE) (simp add: aligned8_def)

lemma aligned8_offset:
  assumes "aligned8 a" and "i < 8"
  shows "unat (a + of_nat i) = unat a + i" and "pn (a + of_nat i) = pn a"
    and "unat (a + of_nat i) div 8 = unat a div 8"
proof -
  obtain k where k: "unat a = 8 * k"
    using assms(1) by (auto simp: aligned8_def mod_eq_0_iff_dvd dvd_def)
  moreover have "k < 2 ^ 61" using unat64_bound [of a] k by simp
  ultimately show u: "unat (a + of_nat i) = unat a + i"
    using assms(2) by (intro unat_add_small) simp
  show "unat (a + of_nat i) div 8 = unat a div 8" using u k assms(2) by simp
  have e: "x div 4096 = x div 8 div 512" for x :: nat by (simp add: div_mult2_eq [symmetric])
  show "pn (a + of_nat i) = pn a"
    using u k assms(2) by (simp only: pn_def e) simp
qed

lemma in_quad:
  assumes "aligned8 a" and "unat (x - a) < 8"
  shows "pn x = pn a" and "unat x div 8 = unat a div 8"
  using aligned8_offset(2,3) [OF assms] by simp_all

lemma write64_outside:
  "aligned8 a \<Longrightarrow> pn x \<noteq> pn a \<Longrightarrow> write64 m a v x = m x"
  using in_quad(1) [of a x] by (auto simp: write64_def write_bytes_def)

lemma read64_cong:
  assumes "aligned8 a" and "\<And>x. pn x = pn a \<Longrightarrow> m x = m' x"
  shows "read64 m a = read64 m' a"
  unfolding read64_def
  by (rule arg_cong [of _ _ word_of_bytes], rule read_bytes_cong)
    (use aligned8_offset(2) [OF assms(1)] assms(2) in simp)

lemma read64_write64_other:
  assumes "aligned8 a" and "aligned8 b" and "a \<noteq> b"
  shows "read64 (write64 m a v) b = read64 m b"
  unfolding read64_def
proof (rule arg_cong [of _ _ word_of_bytes], rule read_bytes_cong)
  fix i :: nat
  assume i: "i < 8"
  have "unat a div 8 \<noteq> unat b div 8"
    using assms by (auto simp: aligned8_def word_unat_eq_iff)
  with in_quad(2) [OF assms(1)] aligned8_offset(3) [OF assms(2) i]
  have "\<not> unat (b + of_nat i - a) < 8" by metis
  then show "write64 m a v (b + of_nat i) = m (b + of_nat i)"
    by (simp add: write64_def write_bytes_def)
qed

section \<open>Filling a page\<close>

definition fill_page :: "memory \<Rightarrow> u64 \<Rightarrow> u8 \<Rightarrow> memory" where
  "fill_page m p c = (\<lambda>a. if pn a = pn p then c else m a)"

lemma memset_page:
  "page_aligned p \<Longrightarrow> memset m p c 4096 = fill_page m p (word_of_int c)"
  by (auto simp: memset_spec fill_spec_def fill_page_def in_page_iff)

lemma read64_fill_zero:
  assumes "aligned8 a" and "pn a = pn p"
  shows "read64 (fill_page m p 0) a = 0"
proof -
  have "read_bytes (fill_page m p 0) a 8 = replicate 8 0"
    using aligned8_offset(2) [OF assms(1)] assms(2)
    by (auto simp: read_bytes_def fill_page_def list_eq_iff_nth_eq)
  then show ?thesis by (simp add: read64_def word_of_bytes_def numeral_eq_Suc)
qed

lemma read64_zero [simp]: "read64 (\<lambda>_. 0) a = 0"
  by (simp add: read64_def read_bytes_def word_of_bytes_def numeral_eq_Suc)

lemma read64_fill_other:
  "aligned8 a \<Longrightarrow> pn a \<noteq> pn p \<Longrightarrow> read64 (fill_page m p c) a = read64 m a"
  by (rule read64_cong) (auto simp: fill_page_def)

section \<open>Page-table entries\<close>

lemma PTE2PA_PA2PTE:
  assumes "page_aligned pa" and "pa < 2 ^ 56" and "flags < 1024"
  shows "PTE2PA (PA2PTE pa OR flags) = pa"
proof (rule bit_word_eqI)
  fix k
  assume "k < LENGTH(64)"
  have low: "\<not> bit pa k" if "k < 12"
  proof -
    have "take_bit 12 pa = 0"
      using assms(1) by (simp add: page_aligned_def PGSIZE_def take_bit_eq_mod)
    then have "\<not> bit (take_bit 12 pa) k" by simp
    with that show ?thesis by (simp add: bit_take_bit_iff)
  qed
  have "take_bit 10 flags = flags" using assms(3) by (simp add: take_bit_eq_mod word_unat_eq_iff unat_mod word_less_nat_alt)
  then have fl: "\<not> bit flags j" if "10 \<le> j" for j
    using that by (metis bit_take_bit_iff not_less)
  have "take_bit 56 pa = pa" using assms(2) by (simp add: take_bit_eq_mod word_unat_eq_iff unat_mod word_less_nat_alt)
  then have hi: "\<not> bit pa j" if "56 \<le> j" for j
    using that by (metis bit_take_bit_iff not_less)
  show "bit (PTE2PA (PA2PTE pa OR flags)) k \<longleftrightarrow> bit pa k"
  proof (cases "k < 12")
    case True
    with low show ?thesis by (simp add: PTE2PA_def bit_simps)
  next
    case False
    then have "12 + (k - 12) = k" by simp
    with False fl hi \<open>k < LENGTH(64)\<close> show ?thesis
      by (auto simp: PTE2PA_def PA2PTE_def bit_simps)
  qed
qed

end
