(* ===== verification/Spinlock.thy ===== *)
theory Spinlock
  imports Prelude
begin

text \<open>
  \<^verbatim>\<open>kernel/spinlock.c\<close> and the lock-related part of \<^verbatim>\<open>struct cpu\<close>. The first half follows the
  code on the hart that executes it: \<^verbatim>\<open>push_off\<close>/\<^verbatim>\<open>pop_off\<close> nesting, \<^verbatim>\<open>acquire\<close>, \<^verbatim>\<open>release\<close> and
  \<^verbatim>\<open>holding\<close>. The kernel components call these through the field \<open>lk\<close> of their state, so that
  every early return that forgets a \<^verbatim>\<open>release\<close> shows. The second half interleaves the atomic
  instructions of \<^verbatim>\<open>acquire\<close> and \<^verbatim>\<open>release\<close> on any number of harts and shows mutual exclusion,
  which is why the components may treat the code between the two calls as one step.
\<close>

section \<open>State\<close>

text \<open>The spinlocks of the kernel, named by the C object that holds them.\<close>

datatype sleepid = BufSleep nat | InodeSleep nat

datatype lock =
    KmemLock | PidLock | WaitLock | ReadcountLock | ProcLock nat | TicksLock | ShmLock
  | FtableLock | PipeLock "64 word" | ConsLock | TxLock | BcacheLock | LogLock | ItableLock
  | VdiskLock | PrLock | SleepLk sleepid

record spinlock =
  lk_locked :: u32
  lk_name :: string
  lk_cpu :: "nat option"

record cpu =
  c_proc :: "nat option"
  noff :: int
  intena :: bool

text \<open>
  \<open>tp\<close> is the hart id that \<^verbatim>\<open>cpuid()\<close> reads, \<open>sie\<close> the interrupt-enable bit of \<^verbatim>\<open>sstatus\<close>.
\<close>

record lockst =
  locks :: "lock \<Rightarrow> spinlock"
  cpus :: "nat \<Rightarrow> cpu"
  tp :: nat
  sie :: bool

record kst =
  lk :: lockst

section \<open>Operations\<close>

definition initlock :: "lock \<Rightarrow> string \<Rightarrow> lockst \<Rightarrow> lockst" where
  "initlock L nm l =
     l\<lparr>locks := (locks l)(L := \<lparr>lk_locked = 0, lk_name = nm, lk_cpu = None\<rparr>)\<rparr>"

definition holding :: "lock \<Rightarrow> lockst \<Rightarrow> bool" where
  "holding L l \<longleftrightarrow> lk_locked (locks l L) \<noteq> 0 \<and> lk_cpu (locks l L) = Some (tp l)"

definition push_off :: "lockst \<Rightarrow> lockst" where
  "push_off l =
     (let old = sie l;
          l = l\<lparr>sie := False\<rparr>;
          c = cpus l (tp l);
          c = (if noff c = 0 then c\<lparr>intena := old\<rparr> else c);
          c = c\<lparr>noff := noff c + 1\<rparr>
      in l\<lparr>cpus := (cpus l)(tp l := c)\<rparr>)"

definition pop_off :: "lockst \<Rightarrow> lockst option" where
  "pop_off l =
     (let c = cpus l (tp l) in
      if sie l then None
      else if noff c < 1 then None
      else let c = c\<lparr>noff := noff c - 1\<rparr>;
               l = l\<lparr>cpus := (cpus l)(tp l := c)\<rparr>
           in Some (if noff c = 0 \<and> intena c then l\<lparr>sie := True\<rparr> else l))"

text \<open>
  \<^verbatim>\<open>acquire\<close>: \<^term>\<open>None\<close> when this hart already holds the lock (panic) and when another hart
  holds it, in which case the test-and-set loop spins until that hart moves.
\<close>

definition spin_acquire :: "lock \<Rightarrow> lockst \<Rightarrow> lockst option" where
  "spin_acquire L l =
     (let l = push_off l in
      if holding L l then None
      else if lk_locked (locks l L) \<noteq> 0 then None
      else Some (l\<lparr>locks := (locks l)(L := (locks l L)\<lparr>lk_locked := 1, lk_cpu := Some (tp l)\<rparr>)\<rparr>))"

definition spin_release :: "lock \<Rightarrow> lockst \<Rightarrow> lockst option" where
  "spin_release L l =
     (if \<not> holding L l then None
      else pop_off (l\<lparr>locks := (locks l)(L := (locks l L)\<lparr>lk_cpu := None, lk_locked := 0\<rparr>)\<rparr>))"

text \<open>The same on a kernel state.\<close>

definition acquire :: "lock \<Rightarrow> 'z kst_scheme \<Rightarrow> 'z kst_scheme option" where
  "acquire L s = map_option (\<lambda>l. s\<lparr>lk := l\<rparr>) (spin_acquire L (lk s))"

definition release :: "lock \<Rightarrow> 'z kst_scheme \<Rightarrow> 'z kst_scheme option" where
  "release L s = map_option (\<lambda>l. s\<lparr>lk := l\<rparr>) (spin_release L (lk s))"

text \<open>
  \<^verbatim>\<open>mycpu()\<close> and the value of \<^verbatim>\<open>myproc()\<close>. The \<^verbatim>\<open>push_off\<close>/\<^verbatim>\<open>pop_off\<close> pair around the read in
  \<^verbatim>\<open>myproc\<close> leaves the interrupt state as it was (lemma \<open>pop_off_push_off\<close> below).
\<close>

definition mycpu :: "'z kst_scheme \<Rightarrow> cpu" where
  "mycpu s = cpus (lk s) (tp (lk s))"

definition myproc :: "'z kst_scheme \<Rightarrow> nat option" where
  "myproc s = c_proc (mycpu s)"

section \<open>Lock discipline on one hart\<close>

definition held :: "lockst \<Rightarrow> lock set" where
  "held l = {L. lk_locked (locks l L) \<noteq> 0}"

definition lkwf :: "lockst \<Rightarrow> bool" where
  "lkwf l \<longleftrightarrow> finite (held l) \<and> (\<forall>L \<in> held l. lk_cpu (locks l L) = Some (tp l)) \<and>
     (\<forall>L. L \<notin> held l \<longrightarrow> lk_cpu (locks l L) = None) \<and>
     int (card (held l)) \<le> noff (cpus l (tp l)) \<and>
     (0 < noff (cpus l (tp l)) \<longrightarrow> \<not> sie l)"

definition acq :: "lock \<Rightarrow> lockst \<Rightarrow> lockst" where
  "acq L l = the (spin_acquire L l)"

definition rel :: "lock \<Rightarrow> lockst \<Rightarrow> lockst" where
  "rel L l = the (spin_release L l)"

lemma push_off_simps [simp]:
  "locks (push_off l) = locks l" "tp (push_off l) = tp l" "sie (push_off l) = False"
  "noff (cpus (push_off l) (tp l)) = noff (cpus l (tp l)) + 1"
  "c_proc (cpus (push_off l) h) = c_proc (cpus l h)"
  by (auto simp: push_off_def Let_def)

lemma pop_off_push_off:
  assumes "0 \<le> noff (cpus l (tp l))" and "0 < noff (cpus l (tp l)) \<longrightarrow> \<not> sie l"
  shows "\<exists>l'. pop_off (push_off l) = Some l' \<and> locks l' = locks l \<and> tp l' = tp l \<and>
    sie l' = sie l \<and> noff (cpus l' (tp l)) = noff (cpus l (tp l)) \<and>
    (\<forall>h. c_proc (cpus l' h) = c_proc (cpus l h))"
  using assms by (auto simp: pop_off_def push_off_def Let_def)

lemma spin_acquire_free:
  assumes "L \<notin> held l"
  shows "spin_acquire L l = Some (acq L l)"
  using assms by (simp add: acq_def spin_acquire_def held_def holding_def Let_def)

lemma acq_fields:
  assumes "L \<notin> held l"
  shows "tp (acq L l) = tp l" "c_proc (cpus (acq L l) h) = c_proc (cpus l h)"
    "locks (acq L l) = (locks l)(L := (locks l L)\<lparr>lk_locked := 1, lk_cpu := Some (tp l)\<rparr>)"
    "noff (cpus (acq L l) (tp l)) = noff (cpus l (tp l)) + 1" "sie (acq L l) = False"
  using assms by (simp_all add: acq_def spin_acquire_def held_def holding_def Let_def)

lemma held_acq [simp]: "L \<notin> held l \<Longrightarrow> held (acq L l) = insert L (held l)"
  by (auto simp: held_def acq_fields)

lemma lkwf_acq [simp]:
  assumes "lkwf l" and "L \<notin> held l"
  shows "lkwf (acq L l)"
  using assms by (auto simp: lkwf_def acq_fields)

lemma lkwf_holding: "lkwf l \<Longrightarrow> holding L l \<longleftrightarrow> L \<in> held l"
  by (auto simp: lkwf_def holding_def held_def)

lemma lkwf_noff_pos: "lkwf l \<Longrightarrow> L \<in> held l \<Longrightarrow> 1 \<le> noff (cpus l (tp l)) \<and> \<not> sie l"
proof -
  assume l: "lkwf l" "L \<in> held l"
  then have "0 < card (held l)" by (auto simp: lkwf_def card_gt_0_iff)
  with l show ?thesis by (auto simp: lkwf_def)
qed

lemma spin_release_held:
  assumes "lkwf l" and "L \<in> held l"
  shows "spin_release L l = Some (rel L l)"
  using assms lkwf_noff_pos [OF assms] lkwf_holding [of l L]
  by (auto simp: rel_def spin_release_def pop_off_def Let_def)

lemma rel_fields:
  assumes "lkwf l" and "L \<in> held l"
  shows "tp (rel L l) = tp l" "c_proc (cpus (rel L l) h) = c_proc (cpus l h)"
    "locks (rel L l) = (locks l)(L := (locks l L)\<lparr>lk_cpu := None, lk_locked := 0\<rparr>)"
    "noff (cpus (rel L l) (tp l)) = noff (cpus l (tp l)) - 1"
    "sie (rel L l) = (noff (cpus l (tp l)) = 1 \<and> intena (cpus l (tp l)))"
  using assms lkwf_noff_pos [OF assms] lkwf_holding [of l L]
  by (simp_all add: rel_def spin_release_def pop_off_def Let_def)

lemma held_rel [simp]: "lkwf l \<Longrightarrow> L \<in> held l \<Longrightarrow> held (rel L l) = held l - {L}"
  by (auto simp: rel_fields held_def)

lemma lkwf_rel [simp]:
  assumes "lkwf l" and "L \<in> held l"
  shows "lkwf (rel L l)"
proof -
  have "card (held l - {L}) = card (held l) - 1" and "0 < card (held l)"
    using assms by (auto simp: lkwf_def card_gt_0_iff)
  with assms show ?thesis by (auto simp: lkwf_def rel_fields)
qed

lemma acquire_free [simp]: "L \<notin> held (lk s) \<Longrightarrow> acquire L s = Some (s\<lparr>lk := acq L (lk s)\<rparr>)"
  by (simp add: acquire_def spin_acquire_free)

lemma release_held [simp]:
  "lkwf (lk s) \<Longrightarrow> L \<in> held (lk s) \<Longrightarrow> release L s = Some (s\<lparr>lk := rel L (lk s)\<rparr>)"
  by (simp add: release_def spin_release_held)

lemma acquire_held: "lkwf (lk s) \<Longrightarrow> L \<in> held (lk s) \<Longrightarrow> acquire L s = None"
  by (auto simp: acquire_def spin_acquire_def holding_def held_def Let_def)

lemma release_free: "L \<notin> held (lk s) \<Longrightarrow> release L s = None"
  by (simp add: release_def spin_release_def holding_def held_def)

lemma acquire_SomeE:
  assumes "acquire L s = Some s'"
  obtains "L \<notin> held (lk s)" "s' = s\<lparr>lk := acq L (lk s)\<rparr>"
proof -
  have "L \<notin> held (lk s)"
    using assms by (auto simp: acquire_def spin_acquire_def held_def Let_def split: if_splits)
  with assms that show thesis by simp
qed

lemma release_SomeD: "release L s = Some s' \<Longrightarrow> L \<in> held (lk s) \<and> s' = s\<lparr>lk := lk s'\<rparr>"
  by (auto simp: release_def spin_release_def holding_def held_def split: if_splits)

lemma myproc_lk [simp]:
  "L \<notin> held (lk s) \<Longrightarrow> myproc (s\<lparr>lk := acq L (lk s)\<rparr>) = myproc s"
  "lkwf (lk s) \<Longrightarrow> L \<in> held (lk s) \<Longrightarrow> myproc (s\<lparr>lk := rel L (lk s)\<rparr>) = myproc s"
  by (simp_all add: myproc_def mycpu_def acq_fields rel_fields)

text \<open>The lock state at boot: nothing held, no process running, interrupts off, on hart 0.\<close>

definition boot_lk :: lockst where
  "boot_lk = \<lparr>locks = (\<lambda>_. \<lparr>lk_locked = 0, lk_name = [], lk_cpu = None\<rparr>),
     cpus = (\<lambda>_. \<lparr>c_proc = None, noff = 0, intena = False\<rparr>), tp = 0, sie = False\<rparr>"

lemma boot_lk_simps [simp]: "lkwf boot_lk" "held boot_lk = {}"
  by (auto simp: boot_lk_def lkwf_def held_def)

text \<open>The hart's view of who is running and how deep its locks nest, unchanged by a balanced use of locks.\<close>

definition same_hart :: "lockst \<Rightarrow> lockst \<Rightarrow> bool" where
  "same_hart l l' \<longleftrightarrow> tp l' = tp l \<and> noff (cpus l' (tp l)) = noff (cpus l (tp l)) \<and> (\<forall>h. c_proc (cpus l' h) = c_proc (cpus l h))"

text \<open>The lock state after a critical section on \<open>L\<close> alone.\<close>

definition lktouch :: "lock \<Rightarrow> lockst \<Rightarrow> lockst" where
  "lktouch L l = rel L (acq L l)"

text \<open>\<open>lksame\<close>: the same locks are held, the lock state is consistent, the same process runs.\<close>

definition lksame :: "lockst \<Rightarrow> lockst \<Rightarrow> bool" where
  "lksame l l' \<longleftrightarrow> held l' = held l \<and> (lkwf l \<longrightarrow> lkwf l') \<and> same_hart l l'"

lemma lksame_refl [simp]: "lksame l l" by (simp add: lksame_def same_hart_def)

lemma lksame_trans: "lksame a b \<Longrightarrow> lksame b c \<Longrightarrow> lksame a c"
  by (auto simp: lksame_def same_hart_def)

lemma lksame_touch [simp]:
  assumes "lkwf l" and "L \<notin> held l"
  shows "lksame l (lktouch L l)"
proof -
  have "noff (cpus (rel L (acq L l)) (tp l)) = noff (cpus l (tp l))"
    using rel_fields(4) [of "acq L l" L] assms by (simp add: acq_fields)
  with assms show ?thesis by (auto simp: lksame_def same_hart_def lktouch_def acq_fields rel_fields)
qed

lemma lksame_acq_rel [simp]: "lkwf l \<Longrightarrow> L \<notin> held l \<Longrightarrow> lksame l (rel L (acq L l))"
  using lksame_touch by (simp add: lktouch_def)

lemma lksame_release:
  assumes "lkwf l" and "L \<notin> held l" and "lksame (acq L l) l'"
  shows "lksame l (rel L l')"
proof -
  have l': "lkwf l'" "held l' = insert L (held l)" "tp l' = tp l" "noff (cpus l' (tp l)) = noff (cpus l (tp l)) + 1"
      "\<And>h. c_proc (cpus l' h) = c_proc (cpus l h)"
    using assms by (auto simp: lksame_def same_hart_def acq_fields)
  have "noff (cpus (rel L l') (tp l)) = noff (cpus l (tp l))"
    using rel_fields(4) [of l' L] l' by simp
  with l' assms show ?thesis by (auto simp: lksame_def same_hart_def rel_fields)
qed

lemma lksame_myproc: "lksame (lk s) (lk s') \<Longrightarrow> myproc s' = myproc s"
  by (simp add: myproc_def mycpu_def lksame_def same_hart_def)

lemma lksame_initlock [simp]:
  assumes "lkwf l" and "L \<notin> held l"
  shows "lksame l (initlock L nm l)"
proof -
  have "held (initlock L nm l) = held l - {L}" by (auto simp: held_def initlock_def)
  with assms show ?thesis
    by (auto simp: lksame_def same_hart_def lkwf_def) (auto simp: initlock_def)
qed

section \<open>Interleaved harts\<close>

text \<open>
  Where a hart stands in the lock code: outside it, in the test-and-set loop, between the
  successful test-and-set and \<^verbatim>\<open>lk->cpu = mycpu()\<close>, or between \<^verbatim>\<open>lk->cpu = 0\<close> and
  \<^verbatim>\<open>__sync_lock_release\<close>. \<open>own\<close> records which locks a hart has acquired and not begun to
  release: its critical sections.
\<close>

datatype hartpc = Outside | Spinning lock | Got lock | Releasing lock

record smp =
  slocks :: "lock \<Rightarrow> spinlock"
  pc :: "nat \<Rightarrow> hartpc"
  own :: "nat \<Rightarrow> lock set"

definition smp_holding :: "smp \<Rightarrow> nat \<Rightarrow> lock \<Rightarrow> bool" where
  "smp_holding g c L \<longleftrightarrow> lk_locked (slocks g L) \<noteq> 0 \<and> lk_cpu (slocks g L) = Some c"

definition smp_init :: smp where
  "smp_init = \<lparr>slocks = (\<lambda>_. \<lparr>lk_locked = 0, lk_name = [], lk_cpu = None\<rparr>),
               pc = (\<lambda>_. Outside), own = (\<lambda>_. {})\<rparr>"

inductive smp_step :: "smp \<Rightarrow> smp \<Rightarrow> bool" where
  enter: "pc g c = Outside \<Longrightarrow> \<not> smp_holding g c L \<Longrightarrow>
     smp_step g (g\<lparr>pc := (pc g)(c := Spinning L)\<rparr>)"
| tas_fail: "pc g c = Spinning L \<Longrightarrow> lk_locked (slocks g L) \<noteq> 0 \<Longrightarrow>
     smp_step g (g\<lparr>slocks := (slocks g)(L := (slocks g L)\<lparr>lk_locked := 1\<rparr>)\<rparr>)"
| tas_ok: "pc g c = Spinning L \<Longrightarrow> lk_locked (slocks g L) = 0 \<Longrightarrow>
     smp_step g (g\<lparr>slocks := (slocks g)(L := (slocks g L)\<lparr>lk_locked := 1\<rparr>),
                   pc := (pc g)(c := Got L)\<rparr>)"
| set_cpu: "pc g c = Got L \<Longrightarrow>
     smp_step g (g\<lparr>slocks := (slocks g)(L := (slocks g L)\<lparr>lk_cpu := Some c\<rparr>),
                   pc := (pc g)(c := Outside), own := (own g)(c := insert L (own g c))\<rparr>)"
| clear_cpu: "pc g c = Outside \<Longrightarrow> smp_holding g c L \<Longrightarrow>
     smp_step g (g\<lparr>slocks := (slocks g)(L := (slocks g L)\<lparr>lk_cpu := None\<rparr>),
                   pc := (pc g)(c := Releasing L), own := (own g)(c := own g c - {L})\<rparr>)"
| unlock: "pc g c = Releasing L \<Longrightarrow>
     smp_step g (g\<lparr>slocks := (slocks g)(L := (slocks g L)\<lparr>lk_locked := 0\<rparr>),
                   pc := (pc g)(c := Outside)\<rparr>)"

inductive smp_reach :: "smp \<Rightarrow> bool" where
  start: "smp_reach smp_init"
| step: "smp_reach g \<Longrightarrow> smp_step g g' \<Longrightarrow> smp_reach g'"

text \<open>A hart has a claim on a lock from its successful test-and-set to the store that unlocks.\<close>

definition claims :: "smp \<Rightarrow> nat \<Rightarrow> lock \<Rightarrow> bool" where
  "claims g c L \<longleftrightarrow> L \<in> own g c \<or> pc g c = Got L \<or> pc g c = Releasing L"

definition smp_inv :: "smp \<Rightarrow> bool" where
  "smp_inv g \<longleftrightarrow>
     (\<forall>L. lk_locked (slocks g L) \<noteq> 0 \<longleftrightarrow> (\<exists>c. claims g c L)) \<and>
     (\<forall>c c' L. claims g c L \<and> claims g c' L \<longrightarrow> c = c') \<and>
     (\<forall>c L. lk_cpu (slocks g L) = Some c \<longleftrightarrow> L \<in> own g c) \<and>
     (\<forall>c L. pc g c = Got L \<or> pc g c = Releasing L \<longrightarrow> L \<notin> own g c)"

lemma smp_inv_init: "smp_inv smp_init"
  by (simp add: smp_inv_def smp_init_def claims_def)

lemma smp_invD:
  assumes "smp_inv g"
  shows "lk_locked (slocks g L) \<noteq> 0 \<longleftrightarrow> (\<exists>c. claims g c L)"
    "claims g c L \<Longrightarrow> claims g c' L \<Longrightarrow> c = c'"
    "lk_cpu (slocks g L) = Some c \<longleftrightarrow> L \<in> own g c"
    "pc g c = Got L \<or> pc g c = Releasing L \<Longrightarrow> L \<notin> own g c"
  using assms unfolding smp_inv_def by blast+

lemma smp_holding_own:
  assumes "smp_inv g"
  shows "smp_holding g c L \<longleftrightarrow> L \<in> own g c"
  using smp_invD [OF assms] by (auto simp: smp_holding_def claims_def)

lemma smp_step_inv:
  assumes "smp_step g g'" and "smp_inv g"
  shows "smp_inv g'"
  using assms
proof (cases rule: smp_step.cases)
  case (enter c L)
  have "claims g' c' L' \<longleftrightarrow> claims g c' L'" for c' L'
    using enter by (auto simp: claims_def)
  with enter assms(2) show ?thesis by (auto simp: smp_inv_def)
next
  case (tas_fail c L)
  have "claims g' c' L' \<longleftrightarrow> claims g c' L'" for c' L'
    using tas_fail by (auto simp: claims_def)
  with tas_fail assms(2) show ?thesis by (auto simp: smp_inv_def)
next
  case (tas_ok c L)
  have free: "\<not> claims g c' L" for c'
    using smp_invD(1) [OF assms(2), of L] tas_ok by auto
  have "claims g' c' L' \<longleftrightarrow> claims g c' L' \<or> (c' = c \<and> L' = L)" for c' L'
    using tas_ok by (auto simp: claims_def)
  with tas_ok free assms(2) show ?thesis
    by (auto simp: smp_inv_def) (metis claims_def)+
next
  case (set_cpu c L)
  have "claims g c L" using set_cpu by (simp add: claims_def)
  moreover have "claims g' c' L' \<longleftrightarrow> claims g c' L'" for c' L'
    using set_cpu by (auto simp: claims_def)
  ultimately show ?thesis using set_cpu assms(2)
    by (auto simp: smp_inv_def) (metis claims_def)+
next
  case (clear_cpu c L)
  then have o: "L \<in> own g c" using smp_holding_own assms(2) by simp
  moreover have "claims g' c' L' \<longleftrightarrow> claims g c' L'" for c' L'
    using clear_cpu o by (auto simp: claims_def)
  ultimately show ?thesis using clear_cpu assms(2)
    by (auto simp: smp_inv_def) (metis claims_def)+
next
  case (unlock c L)
  then have no: "L \<notin> own g c" and cl: "claims g c L"
    using smp_invD(4) [OF assms(2)] by (auto simp: claims_def)
  have "claims g' c' L' \<longleftrightarrow> claims g c' L' \<and> L' \<noteq> L" for c' L'
    using unlock no cl smp_invD(2) [OF assms(2)] by (auto simp: claims_def)
  with unlock assms(2) show ?thesis by (auto simp: smp_inv_def) blast
qed

lemma smp_reach_inv: "smp_reach g \<Longrightarrow> smp_inv g"
proof (induction rule: smp_reach.induct)
  case start
  show ?case by (rule smp_inv_init)
next
  case (step g g')
  then show ?case by (blast intro: smp_step_inv)
qed

text \<open>A hart that has entered a critical section, reached by the steps of \<^verbatim>\<open>acquire\<close>.\<close>

lemma smp_reach_own: "\<exists>g. smp_reach g \<and> L \<in> own g c"
proof -
  let ?g1 = "smp_init\<lparr>pc := (pc smp_init)(c := Spinning L)\<rparr>"
  have r1: "smp_reach ?g1"
    by (rule smp_reach.step [OF smp_reach.start], rule smp_step.enter)
      (simp_all add: smp_init_def smp_holding_def)
  let ?g2 = "?g1\<lparr>slocks := (slocks ?g1)(L := (slocks ?g1 L)\<lparr>lk_locked := 1\<rparr>),
                 pc := (pc ?g1)(c := Got L)\<rparr>"
  have r2: "smp_reach ?g2"
    by (rule smp_reach.step [OF r1], rule smp_step.tas_ok) (simp_all add: smp_init_def)
  let ?g3 = "?g2\<lparr>slocks := (slocks ?g2)(L := (slocks ?g2 L)\<lparr>lk_cpu := Some c\<rparr>),
                 pc := (pc ?g2)(c := Outside), own := (own ?g2)(c := insert L (own ?g2 c))\<rparr>"
  have "smp_reach ?g3"
    by (rule smp_reach.step [OF r2], rule smp_step.set_cpu) simp
  then show ?thesis by (intro exI [of _ ?g3]) simp
qed

section \<open>The interface the kernel components rely on\<close>

text \<open>
  What a client may assume of a lock implementation: taking a lock that is not held and giving
  back one that is held both return, and change only which locks are held.
\<close>

locale lock_api =
  fixes acquire_op release_op :: "'l \<Rightarrow> 's \<Rightarrow> 's option"
    and held_op :: "'s \<Rightarrow> 'l set"
    and ok :: "'s \<Rightarrow> bool"
  assumes acquire_law: "ok s \<Longrightarrow> L \<notin> held_op s \<Longrightarrow>
      \<exists>s'. acquire_op L s = Some s' \<and> ok s' \<and> held_op s' = insert L (held_op s)"
    and release_law: "ok s \<Longrightarrow> L \<in> held_op s \<Longrightarrow>
      \<exists>s'. release_op L s = Some s' \<and> ok s' \<and> held_op s' = held_op s - {L}"
begin

lemma critical_section:
  assumes "ok s" and "L \<notin> held_op s"
    and body: "\<And>s'. ok s' \<Longrightarrow> held_op s' = insert L (held_op s) \<Longrightarrow>
      \<exists>r s''. f s' = Some (r, s'') \<and> ok s'' \<and> held_op s'' = insert L (held_op s)"
  shows "\<exists>r s'. do { s \<leftarrow> acquire_op L s; (r, s) \<leftarrow> f s; s \<leftarrow> release_op L s; Some (r, s) } = Some (r, s')
    \<and> ok s' \<and> held_op s' = held_op s"
proof -
  obtain s1 where s1: "acquire_op L s = Some s1" "ok s1" "held_op s1 = insert L (held_op s)"
    using acquire_law assms(1,2) by blast
  obtain r s2 where s2: "f s1 = Some (r, s2)" "ok s2" "held_op s2 = insert L (held_op s)"
    using body s1 by blast
  obtain s3 where s3: "release_op L s2 = Some s3" "ok s3" "held_op s3 = held_op s2 - {L}"
    using release_law [of s2 L] s2 by auto
  have "held_op s2 - {L} = held_op s" using s2(3) assms(2) by auto
  with s1 s2 s3 show ?thesis by auto
qed

end

interpretation spin: lock_api spin_acquire spin_release held lkwf
  by unfold_locales (auto simp: spin_acquire_free spin_release_held)

interpretation klock: lock_api acquire release "\<lambda>s. held (lk s)" "\<lambda>s. lkwf (lk s)"
  by unfold_locales auto

section \<open>Properties\<close>

text \<open>
  C15: Mutual exclusion of \<^verbatim>\<open>acquire\<close>/\<^verbatim>\<open>release\<close> on any number of harts, at the granularity of the
  atomic memory operations: in every reachable state at most one hart is inside the critical
  section of a lock, and \<^verbatim>\<open>holding\<close> answers true on exactly that hart.
\<close>

theorem spinlock_mutual_exclusion:
  assumes "smp_reach g" and "L \<in> own g c"
  shows "\<forall>c'. (L \<in> own g c' \<longleftrightarrow> c' = c) \<and> (smp_holding g c' L \<longleftrightarrow> c' = c)"
proof -
  have inv: "smp_inv g" by (rule smp_reach_inv [OF assms(1)])
  have "L \<in> own g c' \<longleftrightarrow> c' = c" for c'
    using smp_invD(2) [OF inv, of c' L c] assms(2) by (auto simp: claims_def)
  then show ?thesis using smp_holding_own [OF inv] by simp
qed

theorem spinlock_mutual_exclusion_witness:
  "\<exists>g. smp_reach g \<and> KmemLock \<in> own g 0 \<and>
    (\<forall>c'. (KmemLock \<in> own g c' \<longleftrightarrow> c' = 0) \<and> (smp_holding g c' KmemLock \<longleftrightarrow> c' = 0))"
proof -
  obtain g where "smp_reach g" and "KmemLock \<in> own g 0"
    using smp_reach_own by blast
  with spinlock_mutual_exclusion [OF this] show ?thesis by blast
qed

end
