(* ===== verification/Kalloc.thy ===== *)
theory Kalloc
  imports Physmem Spinlock
begin

text \<open>
  \<^verbatim>\<open>kernel/kalloc.c\<close>: the physical page allocator. The free list is threaded through the free
  pages themselves: \<^verbatim>\<open>struct run\<close> is the first word of a free page, read and written in the byte
  memory. \<open>freelist_rep\<close> relates that pointer structure to the list of free pages, and the
  operations refine push and pop on that list.
\<close>

section \<open>State and operations\<close>

text \<open>\<open>kend\<close> is the linker symbol \<^verbatim>\<open>end\<close>, the first address after the kernel.\<close>

record kmem = kst +
  kend :: u64
  freelist :: u64
  mem :: memory

definition kfree :: "u64 \<Rightarrow> 'z kmem_scheme \<Rightarrow> 'z kmem_scheme option" where
  "kfree pa s =
     (if pa mod PGSIZE \<noteq> 0 \<or> pa < kend s \<or> pa \<ge> PHYSTOP then None
      else let s = s\<lparr>mem := memset (mem s) pa 1 4096\<rparr> in
        do { s \<leftarrow> acquire KmemLock s;
             let s = s\<lparr>mem := write64 (mem s) pa (freelist s)\<rparr>;
             let s = s\<lparr>freelist := pa\<rparr>;
             release KmemLock s })"

definition kalloc :: "'z kmem_scheme \<Rightarrow> (u64 \<times> 'z kmem_scheme) option" where
  "kalloc s =
     do { s \<leftarrow> acquire KmemLock s;
          let r = freelist s;
          let s = (if r \<noteq> 0 then s\<lparr>freelist := read64 (mem s) r\<rparr> else s);
          s \<leftarrow> release KmemLock s;
          let s = (if r \<noteq> 0 then s\<lparr>mem := memset (mem s) r 5 4096\<rparr> else s);
          Some (r, s) }"

text \<open>
  The loop of \<^verbatim>\<open>freerange\<close>; it ends because \<^verbatim>\<open>kfree\<close> panics at the first page that is not
  below \<^verbatim>\<open>PHYSTOP\<close>.
\<close>

lemma kfree_below_PHYSTOP: "kfree p s = Some s' \<Longrightarrow> p < PHYSTOP"
  by (auto simp: kfree_def split: if_splits)

function freerange_loop :: "u64 \<Rightarrow> u64 \<Rightarrow> 'z kmem_scheme \<Rightarrow> 'z kmem_scheme option" where
  "freerange_loop p pa_end s =
     (if p + PGSIZE \<le> pa_end
      then do { s \<leftarrow> kfree p s; freerange_loop (p + PGSIZE) pa_end s }
      else Some s)"
  by pat_completeness auto
termination
proof (relation "measure (\<lambda>(p, pa_end, s). unat PHYSTOP - unat p)")
  fix p pa_end :: u64 and s s' :: "'z kmem_scheme"
  assume "kfree p s = Some s'"
  then have "unat p < 2281701376"
    using kfree_below_PHYSTOP [of p s s'] by (simp add: word_less_nat_alt)
  moreover from this have "unat (p + PGSIZE) = unat p + 4096"
    using unat_add_small [of p 4096] by (simp add: PGSIZE_def)
  ultimately show "((p + PGSIZE, pa_end, s'), p, pa_end, s) \<in>
      measure (\<lambda>(p, pa_end, s). unat PHYSTOP - unat p)" by simp
qed simp

declare freerange_loop.simps [simp del]

definition freerange :: "u64 \<Rightarrow> u64 \<Rightarrow> 'z kmem_scheme \<Rightarrow> 'z kmem_scheme option" where
  "freerange pa_start pa_end s = freerange_loop (PGROUNDUP pa_start) pa_end s"

definition kinit :: "'z kmem_scheme \<Rightarrow> 'z kmem_scheme option" where
  "kinit s = (let s = s\<lparr>lk := initlock KmemLock ''kmem'' (lk s)\<rparr> in freerange (kend s) PHYSTOP s)"

section \<open>The free list as a list of pages\<close>

definition kpage :: "'z kmem_scheme \<Rightarrow> u64 \<Rightarrow> bool" where
  "kpage s p \<longleftrightarrow> page_aligned p \<and> kend s \<le> p \<and> p < PHYSTOP \<and> p \<noteq> 0"

fun runs :: "memory \<Rightarrow> u64 \<Rightarrow> u64 list \<Rightarrow> bool" where
  "runs m r [] \<longleftrightarrow> r = 0"
| "runs m r (p # ps) \<longleftrightarrow> r = p \<and> p \<noteq> 0 \<and> runs m (read64 m p) ps"

definition freelist_rep :: "'z kmem_scheme \<Rightarrow> u64 list \<Rightarrow> bool" where
  "freelist_rep s ps \<longleftrightarrow>
     runs (mem s) (freelist s) ps \<and> distinct ps \<and> (\<forall>p \<in> set ps. kpage s p)"

lemma runs_cong:
  assumes "\<And>p x. p \<in> set ps \<Longrightarrow> pn x = pn p \<Longrightarrow> m x = m' x" and "\<forall>p \<in> set ps. page_aligned p"
  shows "runs m r ps \<longleftrightarrow> runs m' r ps"
  using assms
proof (induction ps arbitrary: r)
  case Nil
  then show ?case by simp
next
  case (Cons p ps)
  have "read64 m p = read64 m' p"
    by (rule read64_cong) (use Cons.prems in auto)
  moreover have "runs m q ps \<longleftrightarrow> runs m' q ps" for q
    by (rule Cons.IH) (use Cons.prems in auto)
  ultimately show ?case by simp
qed

lemma runs_unique: "runs m r ps \<Longrightarrow> runs m r qs \<Longrightarrow> ps = qs"
proof (induction ps arbitrary: r qs)
  case Nil
  then show ?case by (cases qs) auto
next
  case (Cons p ps)
  then show ?case by (cases qs) auto
qed


lemma freelist_rep_unique: "freelist_rep s ps \<Longrightarrow> freelist_rep s qs \<Longrightarrow> ps = qs"
  by (auto simp: freelist_rep_def dest: runs_unique)

lemma freelist_rep_cong:
  assumes "freelist_rep s ps" and "freelist s' = freelist s" and "kend s' = kend s"
    and "\<And>p x. p \<in> set ps \<Longrightarrow> pn x = pn p \<Longrightarrow> mem s' x = mem s x"
  shows "freelist_rep s' ps"
proof -
  have "runs (mem s') (freelist s) ps"
    using runs_cong [of ps "mem s" "mem s'"] assms(1,4) by (auto simp: freelist_rep_def kpage_def)
  with assms show ?thesis by (simp add: freelist_rep_def kpage_def)
qed

lemma freelist_rep_lk [simp]: "freelist_rep (s\<lparr>lk := l\<rparr>) ps \<longleftrightarrow> freelist_rep s ps"
  by (simp add: freelist_rep_def kpage_def)

lemma kpage_cong: "kend s' = kend s \<Longrightarrow> kpage s' p = kpage s p"
  by (simp add: kpage_def)

lemma kpage_aligned: "kpage s p \<Longrightarrow> page_aligned p" by (simp add: kpage_def)

section \<open>Refinement\<close>

text \<open>\<open>kframe\<close>: only the locks, the memory and the free list differ.\<close>

definition kstrip :: "'z kmem_scheme \<Rightarrow> 'z kmem_scheme" where
  "kstrip s = s\<lparr>lk := boot_lk, freelist := 0, mem := (\<lambda>_. 0)\<rparr>"

definition kframe :: "'z kmem_scheme \<Rightarrow> 'z kmem_scheme \<Rightarrow> bool" where
  "kframe s s' \<longleftrightarrow> kstrip s' = kstrip s"

lemma kstrip_simps [simp]:
  "kstrip (s\<lparr>lk := l\<rparr>) = kstrip s" "kstrip (s\<lparr>mem := m\<rparr>) = kstrip s" "kstrip (s\<lparr>freelist := f\<rparr>) = kstrip s"
  by (simp_all add: kstrip_def)

lemma kstrip_kend [simp]: "kend (kstrip s) = kend s"
  by (simp add: kstrip_def)

lemma kframe_refl [simp]: "kframe s s"
  by (simp add: kframe_def)

lemma kframe_trans: "kframe s s1 \<Longrightarrow> kframe s1 s2 \<Longrightarrow> kframe s s2"
  by (simp add: kframe_def)

lemma kframe_kend: "kframe s s' \<Longrightarrow> kend s' = kend s"
  unfolding kframe_def by (metis kstrip_kend)

lemma kframe_updates [simp]:
  "kframe s (s'\<lparr>lk := l\<rparr>) = kframe s s'" "kframe s (s'\<lparr>mem := m\<rparr>) = kframe s s'"
  "kframe s (s'\<lparr>freelist := f\<rparr>) = kframe s s'" "kframe (s\<lparr>lk := l\<rparr>) s' = kframe s s'"
  "kframe (s\<lparr>mem := m\<rparr>) s' = kframe s s'" "kframe (s\<lparr>freelist := f\<rparr>) s' = kframe s s'"
  by (auto simp: kframe_def)

lemma kfree_exact:
  assumes "lkwf (lk s)" and "KmemLock \<notin> held (lk s)" and "kpage s pa"
  shows "kfree pa s = Some (s\<lparr>lk := lktouch KmemLock (lk s),
           mem := write64 (fill_page (mem s) pa 1) pa (freelist s), freelist := pa\<rparr>)"
  using assms
  by (simp add: kfree_def Let_def lktouch_def kpage_def page_aligned_def [symmetric] not_less not_le
      memset_page)

lemma kfree_panics: "\<not> (page_aligned pa \<and> kend s \<le> pa \<and> pa < PHYSTOP) \<Longrightarrow> kfree pa s = None"
  by (metis kfree_def page_aligned_def not_le)

lemma kfree_push:
  assumes "freelist_rep s ps" and "kpage s pa" and "pa \<notin> set ps"
  shows "freelist_rep (s\<lparr>lk := l, mem := write64 (fill_page (mem s) pa 1) pa (freelist s),
           freelist := pa\<rparr>) (pa # ps)"
proof -
  let ?m = "write64 (fill_page (mem s) pa 1) pa (freelist s)"
  have ne: "pn p \<noteq> pn pa" if "p \<in> set ps" for p
    using assms that page_eq [of p pa] by (auto simp: freelist_rep_def kpage_def)
  have "runs ?m (freelist s) ps \<longleftrightarrow> runs (mem s) (freelist s) ps"
  proof (rule runs_cong)
    fix p x assume "p \<in> set ps" and "pn x = pn p"
    with ne have "pn x \<noteq> pn pa" by auto
    with assms(2) show "?m x = mem s x"
      by (simp add: kpage_def write64_outside fill_page_def)
  qed (use assms(1) in \<open>auto simp: freelist_rep_def kpage_def\<close>)
  with assms show ?thesis by (simp add: freelist_rep_def kpage_def)
qed

lemma kalloc_empty:
  assumes "lkwf (lk s)" and "KmemLock \<notin> held (lk s)" and "freelist_rep s []"
  shows "kalloc s = Some (0, s\<lparr>lk := lktouch KmemLock (lk s)\<rparr>)"
  using assms by (simp add: kalloc_def Let_def lktouch_def freelist_rep_def)

lemma kalloc_pop:
  assumes "lkwf (lk s)" and "KmemLock \<notin> held (lk s)" and "freelist_rep s (p # ps)"
  shows "kalloc s = Some (p, s\<lparr>lk := lktouch KmemLock (lk s), freelist := read64 (mem s) p,
           mem := fill_page (mem s) p 5\<rparr>)"
  using assms
  by (simp add: kalloc_def Let_def lktouch_def freelist_rep_def kpage_def memset_page)

lemma kalloc_pop_rep:
  assumes "freelist_rep s (p # ps)"
  shows "freelist_rep (s\<lparr>lk := l, freelist := read64 (mem s) p, mem := fill_page (mem s) p c\<rparr>) ps"
proof -
  have "runs (fill_page (mem s) p c) (read64 (mem s) p) ps \<longleftrightarrow> runs (mem s) (read64 (mem s) p) ps"
  proof (rule runs_cong)
    fix q x assume "q \<in> set ps" and "pn x = pn q"
    moreover from this have "pn q \<noteq> pn p"
      using assms page_eq [of q p] by (auto simp: freelist_rep_def kpage_def)
    ultimately show "fill_page (mem s) p c x = mem s x" by (simp add: fill_page_def)
  qed (use assms in \<open>auto simp: freelist_rep_def kpage_def\<close>)
  with assms show ?thesis by (simp add: freelist_rep_def kpage_def)
qed


lemma kfree_step:
  assumes "lkwf (lk s)" and "KmemLock \<notin> held (lk s)" and "freelist_rep s ps"
    and "kpage s pa" and "pa \<notin> set ps"
  obtains s' where "kfree pa s = Some s'" and "freelist_rep s' (pa # ps)"
    and "lksame (lk s) (lk s')" and "kframe s s'"
    and "\<And>x. pn x \<noteq> pn pa \<Longrightarrow> mem s' x = mem s x"
proof -
  let ?s = "s\<lparr>lk := lktouch KmemLock (lk s),
      mem := write64 (fill_page (mem s) pa 1) pa (freelist s), freelist := pa\<rparr>"
  have "mem ?s x = mem s x" if "pn x \<noteq> pn pa" for x
    using that assms(4) by (simp add: kpage_aligned write64_outside fill_page_def)
  with assms show thesis by (intro that [of ?s]) (simp_all add: kfree_exact kfree_push)
qed

text \<open>Initialisation: the pages from \<open>p\<close> on, one after the other.\<close>

definition page_range :: "u64 \<Rightarrow> nat \<Rightarrow> u64 list" where
  "page_range p n = map (\<lambda>i. p + of_nat i * PGSIZE) [0..<n]"

lemma page_range_Suc: "page_range p (Suc n) = p # page_range (p + PGSIZE) n"
  by (simp add: page_range_def upt_conv_Cons map_Suc_upt [symmetric] algebra_simps del: upt_Suc)

lemma freerange_loop_pages:
  assumes "lkwf (lk s)" and "KmemLock \<notin> held (lk s)" and "freelist_rep s ps"
    and "page_aligned p" and "kend s \<le> p" and "p \<noteq> 0" and "pa_end \<le> PHYSTOP"
    and "p \<le> PHYSTOP" and "\<forall>q \<in> set ps. q < p" and "n = (unat pa_end - unat p) div 4096"
  shows "\<exists>s'. freerange_loop p pa_end s = Some s' \<and> freelist_rep s' (rev (page_range p n) @ ps) \<and>
    lksame (lk s) (lk s')"
  using assms
proof (induction n arbitrary: p s ps)
  case 0
  have "unat p \<le> 2281701376" using 0 by (simp add: word_le_nat_alt)
  then have "unat (p + PGSIZE) = unat p + 4096"
    using unat_add_small [of p 4096] by (simp add: PGSIZE_def)
  moreover have "unat pa_end < unat p + 4096" using 0 by auto
  ultimately have "\<not> p + PGSIZE \<le> pa_end" by (auto simp: word_le_nat_alt)
  then show ?case by (simp add: freerange_loop.simps [of p] page_range_def 0)
next
  case (Suc n)
  have le: "unat p + 4096 \<le> unat pa_end" "unat pa_end \<le> 2281701376"
    using Suc.prems by (auto simp: word_le_nat_alt)
  then have u: "unat (p + PGSIZE) = unat p + 4096"
    using unat_add_small [of p 4096] by (simp add: PGSIZE_def)
  have "kpage s p" using Suc.prems le by (simp add: kpage_def word_less_nat_alt)
  moreover have "p \<notin> set ps" using Suc.prems by auto
  ultimately obtain s1 where s1: "kfree p s = Some s1" "freelist_rep s1 (p # ps)"
      "lksame (lk s) (lk s1)" "kend s1 = kend s"
    using kfree_step [of s ps p] kframe_kend [of s] Suc.prems(1-3) by metis
  have "\<exists>s'. freerange_loop (p + PGSIZE) pa_end s1 = Some s' \<and>
      freelist_rep s' (rev (page_range (p + PGSIZE) n) @ (p # ps)) \<and> lksame (lk s1) (lk s')"
  proof (rule Suc.IH)
    show "page_aligned (p + PGSIZE)" using Suc.prems(4) by (simp add: page_aligned_unat u)
  qed (use s1 Suc.prems le u in \<open>auto simp: lksame_def word_le_nat_alt word_less_nat_alt word_unat_eq_iff\<close>)
  then show ?case
    using s1 le u by (auto simp: freerange_loop.simps [of p] page_range_Suc word_le_nat_alt
        intro: lksame_trans)
qed


section \<open>What clients rely on\<close>

fun alloc_pages :: "('s \<Rightarrow> (u64 \<times> 's) option) \<Rightarrow> nat \<Rightarrow> 's \<Rightarrow> (u64 list \<times> 's) option" where
  "alloc_pages alloc 0 s = Some ([], s)"
| "alloc_pages alloc (Suc n) s =
     do { (p, s) \<leftarrow> alloc s; (ps, s) \<leftarrow> alloc_pages alloc n s; Some (p # ps, s) }"

locale page_allocator =
  fixes alloc :: "'s \<Rightarrow> (u64 \<times> 's) option"
    and free :: "u64 \<Rightarrow> 's \<Rightarrow> 's option"
    and avail :: "'s \<Rightarrow> u64 list \<Rightarrow> bool"
    and usable :: "'s \<Rightarrow> u64 \<Rightarrow> bool"
  assumes alloc_none: "avail s [] \<Longrightarrow> \<exists>s'. alloc s = Some (0, s') \<and> avail s' []"
    and alloc_next: "avail s (p # ps) \<Longrightarrow> \<exists>s'. alloc s = Some (p, s') \<and> avail s' ps \<and> usable s' p"
    and free_page: "avail s ps \<Longrightarrow> usable s p \<Longrightarrow> p \<notin> set ps \<Longrightarrow>
      \<exists>s'. free p s = Some s' \<and> avail s' (p # ps)"
    and avail_distinct: "avail s ps \<Longrightarrow> distinct ps \<and> 0 \<notin> set ps"
begin

lemma alloc_pages_take:
  "avail s ps \<Longrightarrow> n \<le> length ps \<Longrightarrow>
    \<exists>s'. alloc_pages alloc n s = Some (take n ps, s') \<and> avail s' (drop n ps)"
proof (induction n arbitrary: s ps)
  case 0
  then show ?case by simp
next
  case (Suc n)
  then obtain p qs where ps: "ps = p # qs" by (cases ps) auto
  with Suc.prems alloc_next obtain s1 where "alloc s = Some (p, s1)" "avail s1 qs" by blast
  with Suc.IH [of s1 qs] Suc.prems ps show ?case by auto
qed

lemma alloc_pages_fresh:
  assumes "avail s ps" and "n \<le> length ps"
  obtains qs s' where "alloc_pages alloc n s = Some (qs, s')" "length qs = n" "distinct qs"
    "0 \<notin> set qs"
proof -
  obtain s' where "alloc_pages alloc n s = Some (take n ps, s')"
    using alloc_pages_take [OF assms] by blast
  moreover have "0 \<notin> set (take n ps)" using avail_distinct [OF assms(1)] by (auto dest: in_set_takeD)
  ultimately show thesis using assms avail_distinct [OF assms(1)] that by simp
qed

lemma alloc_then_free:
  assumes "avail s (p # ps)"
  obtains s1 s2 where "alloc s = Some (p, s1)" "free p s1 = Some s2" "avail s2 (p # ps)"
proof -
  obtain s1 where s1: "alloc s = Some (p, s1)" "avail s1 ps" "usable s1 p"
    using alloc_next [OF assms] by blast
  moreover have "p \<notin> set ps" using avail_distinct [OF assms] by simp
  ultimately obtain s2 where "free p s1 = Some s2" "avail s2 (p # ps)" using free_page by blast
  with s1 that show thesis by blast
qed

end

definition kmem_avail :: "'z kmem_scheme \<Rightarrow> u64 list \<Rightarrow> bool" where
  "kmem_avail s ps \<longleftrightarrow> lkwf (lk s) \<and> KmemLock \<notin> held (lk s) \<and> freelist_rep s ps"

interpretation kpages: page_allocator kalloc kfree kmem_avail kpage
proof
  fix s :: "'z kmem_scheme" and p ps
  show "\<exists>s'. kalloc s = Some (0, s') \<and> kmem_avail s' []" if "kmem_avail s []"
    using that lksame_touch [of "lk s" KmemLock]
    by (auto simp: kmem_avail_def kalloc_empty lksame_def)
  show "\<exists>s'. kalloc s = Some (p, s') \<and> kmem_avail s' ps \<and> kpage s' p" if "kmem_avail s (p # ps)"
    using that lksame_touch [of "lk s" KmemLock]
    by (auto simp: kmem_avail_def kalloc_pop kalloc_pop_rep lksame_def)
      (simp add: freelist_rep_def kpage_def)
  show "\<exists>s'. kfree p s = Some s' \<and> kmem_avail s' (p # ps)"
    if "kmem_avail s ps" and "kpage s p" and "p \<notin> set ps"
    using that kfree_step [of s ps p] by (fastforce simp: kmem_avail_def lksame_def)
  show "distinct ps \<and> 0 \<notin> set ps" if "kmem_avail s ps"
    using that by (auto simp: kmem_avail_def freelist_rep_def kpage_def)
qed

section \<open>Properties\<close>

text \<open>
  C29: \<^verbatim>\<open>kalloc\<close> takes the first page off the free list, fills it with the byte 5 and changes no
  other memory; with an empty free list it returns 0 and changes no memory. Both return with
  the locks as they were.
\<close>

theorem kalloc_takes_first_free_page:
  assumes "lkwf (lk s)" and "KmemLock \<notin> held (lk s)" and "freelist_rep s ps"
  shows "\<exists>s'. kalloc s = Some (if ps = [] then 0 else hd ps, s') \<and> freelist_rep s' (tl ps) \<and>
    lksame (lk s) (lk s') \<and>
    mem s' = (if ps = [] then mem s else fill_page (mem s) (hd ps) 5)"
proof (cases ps)
  case Nil
  with assms show ?thesis by (simp add: kalloc_empty)
next
  case (Cons p qs)
  with assms show ?thesis by (simp add: kalloc_pop kalloc_pop_rep)
qed

definition one_page :: kmem where
  "one_page = \<lparr>lk = boot_lk, kend = 0x80020000, freelist = 0x80021000, mem = (\<lambda>_. 0)\<rparr>"

lemma one_page_rep: "freelist_rep one_page [0x80021000]"
  by (simp add: one_page_def freelist_rep_def kpage_def page_aligned_def PGSIZE_def PHYSTOP_def KERNBASE_def)

lemma one_page_locks: "lk one_page = boot_lk" by (simp add: one_page_def)

theorem kalloc_takes_first_free_page_witness:
  "\<exists>s'. kalloc one_page = Some (0x80021000, s') \<and> freelist_rep s' [] \<and> mem s' 0x80021000 = 5"
  using kalloc_takes_first_free_page [of one_page "[0x80021000]"] one_page_rep
  by (auto simp: one_page_def fill_page_def)

text \<open>
  C30: pages handed out by successive \<^verbatim>\<open>kalloc\<close> calls with no \<^verbatim>\<open>kfree\<close> between them are
  pairwise distinct and non-null, as long as the free list has that many pages.
\<close>

theorem kalloc_never_hands_out_a_page_twice:
  assumes "kmem_avail s ps" and "n \<le> length ps"
  shows "\<exists>qs s'. alloc_pages kalloc n s = Some (qs, s') \<and> length qs = n \<and> distinct qs \<and> 0 \<notin> set qs"
  using assms by (meson kpages.alloc_pages_fresh)

theorem kalloc_never_hands_out_a_page_twice_witness:
  "\<exists>q s'. alloc_pages kalloc 1 one_page = Some ([q], s') \<and> q \<noteq> 0"
  using kalloc_never_hands_out_a_page_twice [of one_page "[0x80021000]" 1] one_page_rep
  by (fastforce simp: kmem_avail_def length_Suc_conv one_page_locks)

text \<open>
  C31: \<^verbatim>\<open>kfree\<close> of a page-aligned page between the kernel's end and \<^verbatim>\<open>PHYSTOP\<close> that is not on
  the free list puts it at the front; any other argument panics.
\<close>

theorem kfree_pushes_or_panics:
  assumes "lkwf (lk s)" and "KmemLock \<notin> held (lk s)" and "freelist_rep s ps" and "pa \<notin> set ps"
    and "0 < kend s"
  shows "if page_aligned pa \<and> kend s \<le> pa \<and> pa < PHYSTOP
    then \<exists>s'. kfree pa s = Some s' \<and> freelist_rep s' (pa # ps) \<and> lksame (lk s) (lk s') \<and>
      (\<forall>x. pn x \<noteq> pn pa \<longrightarrow> mem s' x = mem s x)
    else kfree pa s = None"
proof (cases "page_aligned pa \<and> kend s \<le> pa \<and> pa < PHYSTOP")
  case True
  with assms(5) have "kpage s pa" by (auto simp: kpage_def)
  with assms True show ?thesis by (metis kfree_step)
next
  case False
  then show ?thesis using kfree_panics by auto
qed

theorem kfree_pushes_or_panics_witness:
  "(\<exists>s'. kfree 0x80022000 one_page = Some s' \<and> freelist_rep s' [0x80022000, 0x80021000]) \<and>
   kfree 0x80021001 one_page = None"
  using kfree_pushes_or_panics [of one_page "[0x80021000]" "0x80022000"]
    kfree_pushes_or_panics [of one_page "[0x80021000]" "0x80021001"] one_page_rep
  by (auto simp: one_page_def page_aligned_def PGSIZE_def PHYSTOP_def KERNBASE_def)

text \<open>
  C32: \<^verbatim>\<open>kinit\<close> terminates and leaves on the free list every page between the kernel's end,
  rounded up, and \<^verbatim>\<open>PHYSTOP\<close>, each once, the highest first.
\<close>

theorem kinit_frees_all_memory:
  assumes "lkwf (lk s)" and "KmemLock \<notin> held (lk s)" and "freelist s = 0"
    and "0 < kend s" and "kend s \<le> PHYSTOP"
  shows "\<exists>s'. kinit s = Some s' \<and> lksame (lk s) (lk s') \<and>
    freelist_rep s' (rev (page_range (PGROUNDUP (kend s)) ((unat PHYSTOP - unat (PGROUNDUP (kend s))) div 4096)))"
proof -
  let ?s = "s\<lparr>lk := initlock KmemLock ''kmem'' (lk s)\<rparr>"
  have b: "0 < unat (kend s)" "unat (kend s) \<le> 2281701376"
    using assms(4,5) by (simp_all add: word_le_nat_alt word_less_nat_alt)
  then have u: "unat (PGROUNDUP (kend s)) = (unat (kend s) + 4095) div 4096 * 4096"
    by (simp add: unat_PGROUNDUP)
  with b round_up_nat(1) [of "unat (kend s)"] round_up_nat(2) [of "unat (kend s)" 557056]
  have "unat (PGROUNDUP (kend s)) \<le> 2281701376" "unat (kend s) \<le> unat (PGROUNDUP (kend s))"
    by simp_all
  with b have p: "PGROUNDUP (kend s) \<le> PHYSTOP" "kend s \<le> PGROUNDUP (kend s)" "PGROUNDUP (kend s) \<noteq> 0"
    by (auto simp: word_le_nat_alt)
  have l: "lksame (lk s) (lk ?s)"
    using assms(1,2) by simp
  have "freelist_rep ?s []" using assms(3) by (simp add: freelist_rep_def)
  then obtain s' where "freerange_loop (PGROUNDUP (kend s)) PHYSTOP ?s = Some s'"
      "freelist_rep s' (rev (page_range (PGROUNDUP (kend s)) ((unat PHYSTOP - unat (PGROUNDUP (kend s))) div 4096)))"
      "lksame (lk ?s) (lk s')"
    using freerange_loop_pages [of ?s "[]" "PGROUNDUP (kend s)" PHYSTOP] p l assms(1,2)
    by (auto simp: lksame_def)
  with l show ?thesis by (auto simp: kinit_def freerange_def intro: lksame_trans)
qed

theorem kinit_frees_all_memory_witness:
  "\<exists>s'. kinit (one_page\<lparr>kend := 0x87ffe800, freelist := 0\<rparr>) = Some s' \<and> freelist_rep s' [0x87fff000]"
  using kinit_frees_all_memory [of "one_page\<lparr>kend := 0x87ffe800, freelist := 0\<rparr>"]
  by (simp add: one_page_def PGROUNDUP_def PGSIZE_def PHYSTOP_def KERNBASE_def page_range_def) blast

end
