(* ===== verification/Pagetable.thy ===== *)
theory Pagetable
  imports Vm
begin

text \<open>
  The page table as a map. \<open>pt_node m pt va d\<close> is the page that a walk for \<open>va\<close> reaches after
  \<open>d\<close> steps, \<open>pte_at m pt va\<close> the leaf entry. \<open>pt_wf\<close> says that different walks that have parted
  never meet again, so that the pages form a tree; under it, every operation of \<^verbatim>\<open>vm.c\<close> that
  writes a page table is an update of \<open>pte_at\<close> and changes nothing else.
\<close>

unbundle bit_operations_syntax

section \<open>Slots\<close>

lemma PX_less: "unat (PX l va) < 512"
proof -
  have "PX l va = take_bit 9 (drop_bit (12 + 9 * l) va)"
    by (simp add: PX_def take_bit_eq_mask mask_eq_exp_minus_1)
  then show ?thesis by (simp add: take_bit_eq_mod unat_mod)
qed

lemma slot_offset: "slot n l va = n + of_nat (8 * unat (PX l va))"
  by (simp add: slot_def)

lemma unat_slot: "page_aligned n \<Longrightarrow> unat (slot n l va) = unat n + 8 * unat (PX l va)"
  unfolding slot_offset using PX_less [of l va] by (intro pn_offset(1)) auto

lemma pn_slot [simp]: "page_aligned n \<Longrightarrow> pn (slot n l va) = pn n"
  unfolding slot_offset using PX_less [of l va] by (intro pn_offset(2)) auto

lemma aligned8_slot [simp]: "page_aligned n \<Longrightarrow> aligned8 (slot n l va)"
  by (erule page_alignedE) (simp add: aligned8_def unat_slot page_aligned_unat)

lemma slot_eq_iff:
  assumes "page_aligned n" and "page_aligned n'"
  shows "slot n l va = slot n' l' va' \<longleftrightarrow> n = n' \<and> PX l va = PX l' va'"
proof
  assume e: "slot n l va = slot n' l' va'"
  then have "pn n = pn n'" using assms by (metis pn_slot)
  then have n: "n = n'" using assms page_eq by blast
  from e have "unat (slot n l va) = unat (slot n' l' va')" by simp
  then show "n = n' \<and> PX l va = PX l' va'" using n assms by (simp add: unat_slot word_unat_eq_iff)
qed (simp add: slot_def)

lemma slot_not_0: "page_aligned n \<Longrightarrow> n \<noteq> 0 \<Longrightarrow> slot n l va \<noteq> 0"
  using unat_slot [of n l va] by (metis add_is_0 unat_0 unat_eq_zero)

section \<open>Nodes and leaf entries\<close>

fun pt_node :: "memory \<Rightarrow> u64 \<Rightarrow> u64 \<Rightarrow> nat \<Rightarrow> u64 option" where
  "pt_node m pt va 0 = Some pt"
| "pt_node m pt va (Suc d) =
     do { n \<leftarrow> pt_node m pt va d;
          let e = read64 m (slot n (2 - d) va);
          if e AND PTE_V \<noteq> 0 then Some (PTE2PA e) else None }"

definition pte_at :: "memory \<Rightarrow> u64 \<Rightarrow> u64 \<Rightarrow> u64" where
  "pte_at m pt va = (case pt_node m pt va 2 of None \<Rightarrow> 0 | Some n \<Rightarrow> read64 m (slot n 0 va))"

definition same_path :: "nat \<Rightarrow> u64 \<Rightarrow> u64 \<Rightarrow> bool" where
  "same_path d va va' \<longleftrightarrow> (\<forall>e<d. PX (2 - e) va = PX (2 - e) va')"

definition pt_nodes :: "memory \<Rightarrow> u64 \<Rightarrow> u64 set" where
  "pt_nodes m pt = {n. \<exists>va d. d \<le> 2 \<and> pt_node m pt va d = Some n}"

definition pt_wf :: "memory \<Rightarrow> u64 \<Rightarrow> bool" where
  "pt_wf m pt \<longleftrightarrow> (\<forall>n \<in> pt_nodes m pt. page_aligned n \<and> n \<noteq> 0) \<and>
     (\<forall>va va' d d' n. d \<le> 2 \<and> d' \<le> 2 \<and> pt_node m pt va d = Some n \<and> pt_node m pt va' d' = Some n
        \<longrightarrow> d = d' \<and> same_path d va va')"

lemma same_path_Suc: "same_path (Suc d) va va' \<longleftrightarrow> same_path d va va' \<and> PX (2 - d) va = PX (2 - d) va'"
  by (auto simp: same_path_def less_Suc_eq)

lemma same_path_refl [simp]: "same_path d va va" by (simp add: same_path_def)

lemma same_path_mono: "same_path d va va' \<Longrightarrow> e \<le> d \<Longrightarrow> same_path e va va'"
  by (auto simp: same_path_def)

lemma same_path_sym: "same_path d va va' \<Longrightarrow> same_path d va' va"
  by (auto simp: same_path_def)

lemma pt_node_path: "same_path d va va' \<Longrightarrow> pt_node m pt va d = pt_node m pt va' d"
  by (induction d) (auto simp: same_path_Suc slot_def)

lemma pt_nodeI [intro]: "pt_node m pt va d = Some n \<Longrightarrow> d \<le> 2 \<Longrightarrow> n \<in> pt_nodes m pt"
  by (auto simp: pt_nodes_def)

lemma pt_wf_page: "pt_wf m pt \<Longrightarrow> n \<in> pt_nodes m pt \<Longrightarrow> page_aligned n \<and> n \<noteq> 0"
  by (simp add: pt_wf_def)

lemma pt_wf_inj:
  "pt_wf m pt \<Longrightarrow> pt_node m pt va d = Some n \<Longrightarrow> pt_node m pt va' d' = Some n \<Longrightarrow> d \<le> 2 \<Longrightarrow> d' \<le> 2
    \<Longrightarrow> d = d' \<and> same_path d va va'"
  unfolding pt_wf_def by blast

lemma root_in_nodes [simp]: "pt \<in> pt_nodes m pt"
  using pt_nodeI [of m pt _ 0 pt] by simp

lemma pt_node_mono: "pt_node m pt va d = None \<Longrightarrow> d \<le> d' \<Longrightarrow> pt_node m pt va d' = None"
  by (induction d') (auto simp: le_Suc_eq)

text \<open>A walk depends only on the pages it passes.\<close>

lemma pt_node_cong:
  assumes "\<And>n x. n \<in> pt_nodes m pt \<Longrightarrow> pn x = pn n \<Longrightarrow> m' x = m x"
    and "\<forall>n \<in> pt_nodes m pt. page_aligned n" and "d \<le> 3"
  shows "pt_node m' pt va d = pt_node m pt va d"
  using assms(3)
proof (induction d)
  case (Suc d)
  show ?case
  proof (cases "pt_node m pt va d")
    case None
    with Suc show ?thesis by simp
  next
    case (Some n)
    then have n: "n \<in> pt_nodes m pt" using Suc.prems by (intro pt_nodeI) simp_all
    have "read64 m' (slot n (2 - d) va) = read64 m (slot n (2 - d) va)"
    proof (rule read64_cong)
      show "aligned8 (slot n (2 - d) va)" using n assms(2) by simp
      show "m' x = m x" if "pn x = pn (slot n (2 - d) va)" for x
        using that n assms(1,2) by simp
    qed
    with Suc Some show ?thesis by simp
  qed
qed simp

lemma pte_at_cong:
  assumes "\<And>n x. n \<in> pt_nodes m pt \<Longrightarrow> pn x = pn n \<Longrightarrow> m' x = m x"
    and "\<forall>n \<in> pt_nodes m pt. page_aligned n"
  shows "pte_at m' pt va = pte_at m pt va"
proof (cases "pt_node m pt va 2")
  case None
  then show ?thesis using pt_node_cong [OF assms, where d = 2 and va = va] by (simp add: pte_at_def)
next
  case (Some n)
  then have "n \<in> pt_nodes m pt" by (rule pt_nodeI) simp
  then have "read64 m' (slot n 0 va) = read64 m (slot n 0 va)"
    by (intro read64_cong) (use assms in auto)
  then show ?thesis using pt_node_cong [OF assms, where d = 2 and va = va] Some by (simp add: pte_at_def)
qed

lemma pt_same:
  assumes "\<And>n x. n \<in> pt_nodes m pt \<Longrightarrow> pn x = pn n \<Longrightarrow> m' x = m x" and "pt_wf m pt"
  shows "pt_wf m' pt" and "pt_nodes m' pt = pt_nodes m pt" and "pte_at m' pt va = pte_at m pt va"
proof -
  have al: "\<forall>n \<in> pt_nodes m pt. page_aligned n" using assms(2) by (simp add: pt_wf_def)
  have e: "pt_node m' pt va d = pt_node m pt va d" if "d \<le> 2" for va d
    using assms(1) al by (rule pt_node_cong) (use that in auto)
  show nodes: "pt_nodes m' pt = pt_nodes m pt" by (simp add: pt_nodes_def e cong: conj_cong)
  show "pt_wf m' pt" using assms(2) by (simp add: pt_wf_def nodes e cong: conj_cong) (elim conjE)
  show "pte_at m' pt va = pte_at m pt va" using assms(1) al by (rule pte_at_cong)
qed


text \<open>The same with the agreement on the pages as a predicate.\<close>

definition pages_same :: "u64 set \<Rightarrow> memory \<Rightarrow> memory \<Rightarrow> bool" where
  "pages_same N m m' \<longleftrightarrow> (\<forall>n \<in> N. \<forall>x. pn x = pn n \<longrightarrow> m' x = m x)"

lemma pt_untouched:
  assumes "pages_same (pt_nodes m pt) m m'" and "pt_wf m pt"
  shows "pt_wf m' pt" and "pt_nodes m' pt = pt_nodes m pt" and "pte_at m' pt va = pte_at m pt va"
    and "d \<le> 2 \<Longrightarrow> pt_node m' pt va d = pt_node m pt va d"
proof -
  have out: "m' x = m x" if "n \<in> pt_nodes m pt" "pn x = pn n" for n x
    using that assms(1) by (auto simp: pages_same_def)
  show "pt_wf m' pt" using out by (rule pt_same(1) [OF _ assms(2)])
  show "pt_nodes m' pt = pt_nodes m pt" using out by (rule pt_same(2) [OF _ assms(2)])
  show "pte_at m' pt va = pte_at m pt va" using out by (rule pt_same(3) [OF _ assms(2)])
  show "pt_node m' pt va d = pt_node m pt va d" if "d \<le> 2"
    using out by (rule pt_node_cong) (use that assms(2) pt_wf_page in auto)
qed

lemma pages_sameI:
  "(\<And>n x. n \<in> N \<Longrightarrow> pn x = pn n \<Longrightarrow> m' x = m x) \<Longrightarrow> pages_same N m m'"
  by (simp add: pages_same_def)

section \<open>Writing an entry\<close>

text \<open>
  The entry of node \<open>n\<close> at depth \<open>d\<close> for \<open>va\<close> is overwritten; at depths 0 and 1 the page \<open>q\<close> that
  the new entry points to has been cleared first. Reads of other entries are unchanged.
\<close>

lemma entry_unchanged:
  assumes "pt_wf m pt" and "pt_node m pt va d = Some n" and "pt_node m pt va' d' = Some n'"
    and "d \<le> 2" and "d' \<le> 2" and "\<not> (d = d' \<and> same_path (Suc d) va va')"
  shows "read64 (write64 m (slot n (2 - d) va) v) (slot n' (2 - d') va') = read64 m (slot n' (2 - d') va')"
proof (rule read64_write64_other)
  have n: "page_aligned n" "page_aligned n'" using assms pt_nodeI pt_wf_page by blast+
  then show "aligned8 (slot n (2 - d) va)" "aligned8 (slot n' (2 - d') va')" by simp_all
  show "slot n (2 - d) va \<noteq> slot n' (2 - d') va'"
  proof
    assume "slot n (2 - d) va = slot n' (2 - d') va'"
    with n have "n = n'" and px: "PX (2 - d) va = PX (2 - d') va'" by (simp_all add: slot_eq_iff)
    with pt_wf_inj [OF assms(1), of va d n va' d'] assms have "d = d' \<and> same_path d va va'" by blast
    with px assms(6) show False by (auto simp: same_path_Suc)
  qed
qed

lemma write_leaf_nodes:
  assumes "pt_wf m pt" and "pt_node m pt va 2 = Some n" and "d \<le> 2"
  shows "pt_node (write64 m (slot n 0 va) v) pt va' d = pt_node m pt va' d"
  using assms(3)
proof (induction d)
  case (Suc d)
  show ?case
  proof (cases "pt_node m pt va' d")
    case None
    with Suc show ?thesis by simp
  next
    case (Some n')
    from entry_unchanged [OF assms(1,2) Some, of v] Suc.prems Suc Some show ?thesis by simp
  qed
qed simp

lemma write_leaf:
  assumes "pt_wf m pt" and "pt_node m pt va 2 = Some n"
  shows "pt_wf (write64 m (slot n 0 va) v) pt"
    and "pt_nodes (write64 m (slot n 0 va) v) pt = pt_nodes m pt"
    and "pte_at (write64 m (slot n 0 va) v) pt va' = (if same_path 3 va va' then v else pte_at m pt va')"
proof -
  let ?m = "write64 m (slot n 0 va) v"
  have e: "pt_node ?m pt va d = pt_node m pt va d" if "d \<le> 2" for va d
    using write_leaf_nodes [OF assms that] by simp
  show nodes: "pt_nodes ?m pt = pt_nodes m pt"
    by (simp add: pt_nodes_def e cong: conj_cong)
  show "pt_wf ?m pt" using assms(1) by (simp add: pt_wf_def nodes e cong: conj_cong) (elim conjE)
  show "pte_at ?m pt va' = (if same_path 3 va va' then v else pte_at m pt va')"
  proof (cases "same_path 3 va va'")
    case True
    then have "same_path 2 va va'" and px: "PX 0 va = PX 0 va'"
      by (auto simp: numeral_3_eq_3 numeral_2_eq_2 same_path_Suc)
    then have "pt_node m pt va' 2 = Some n" using assms(2) pt_node_path by metis
    moreover have "slot n 0 va = slot n 0 va'" by (simp add: slot_def px)
    ultimately show ?thesis using True e [of 2 va'] by (simp add: pte_at_def)
  next
    case False
    show ?thesis
    proof (cases "pt_node m pt va' 2")
      case None
      with False show ?thesis by (simp add: pte_at_def e)
    next
      case (Some n')
      from entry_unchanged [OF assms Some, of v] False Some show ?thesis
        by (simp add: pte_at_def e numeral_3_eq_3)
    qed
  qed
qed


lemma extend_entries:
  assumes "pt_wf m pt" and "pt_node m pt va d = Some n" and "d < 2" and "page_aligned q" and "q \<notin> pt_nodes m pt"
    and "pt_node m pt va' d' = Some n'" and "d' \<le> 2" and "\<not> (d = d' \<and> same_path (Suc d) va va')"
  shows "read64 (write64 (fill_page m q 0) (slot n (2 - d) va) v) (slot n' (2 - d') va')
    = read64 m (slot n' (2 - d') va')"
proof -
  have f: "read64 (fill_page m q 0) (slot k l u) = read64 m (slot k l u)" if "k \<in> pt_nodes m pt" for k l u
  proof (rule read64_fill_other)
    have k: "page_aligned k" using that assms(1) pt_wf_page by blast
    then show "aligned8 (slot k l u)" by simp
    show "pn (slot k l u) \<noteq> pn q" using k that assms(4,5) page_eq [of k q] by auto
  qed
  have m: "fill_page m q 0 x = m x" if "k \<in> pt_nodes m pt" "pn x = pn k" for k x
    using that assms(1,4,5) page_eq [of k q] pt_wf_page by (auto simp: fill_page_def)
  have wf: "pt_wf (fill_page m q 0) pt" using m by (rule pt_same(1) [OF _ assms(1)])
  have e: "pt_node (fill_page m q 0) pt u c = pt_node m pt u c" if "c \<le> 2" for u c
    by (rule pt_node_cong [OF m]) (use that assms(1) pt_wf_page in auto)
  have "n' \<in> pt_nodes m pt" using assms(6,7) by blast
  with entry_unchanged [OF wf, where va = va and d = d and n = n and va' = va' and d' = d' and n' = n' and v = v] assms e f show ?thesis by simp
qed

lemma extend_nodes:
  assumes "pt_wf m pt" and "pt_node m pt va d = Some n" and "pt_node m pt va (Suc d) = None" and "d < 2"
    and "page_aligned q" and "q \<notin> pt_nodes m pt" and "PTE2PA v = q" and "v AND PTE_V \<noteq> 0"
    and "d' \<le> 2"
  shows "pt_node (write64 (fill_page m q 0) (slot n (2 - d) va) v) pt va' d' =
    (if d < d' \<and> same_path (Suc d) va va' then (if d' = Suc d then Some q else None)
     else pt_node m pt va' d')"
  using assms(9)
proof (induction d')
  case (Suc d')
  let ?m = "write64 (fill_page m q 0) (slot n (2 - d) va) v"
  consider "d' = d" "same_path (Suc d) va va'" | "d' = Suc d" "same_path (Suc d) va va'"
    | "\<not> (d \<le> d' \<and> same_path (Suc d) va va')" using Suc.prems assms(4) by linarith
  then show ?case
  proof cases
    case 1
    then have "pt_node m pt va' d = Some n" and "slot n (2 - d) va = slot n (2 - d) va'"
      using assms(2) pt_node_path [of d va va'] by (simp_all add: same_path_Suc slot_def)
    moreover from this have "pt_node ?m pt va' d = Some n" using Suc 1 by simp
    moreover have "read64 ?m (slot n (2 - d) va) = v" by simp
    ultimately show ?thesis using 1 assms(7,8) by simp
  next
    case 2
    then have "pt_node ?m pt va' d' = Some q" using Suc by simp
    moreover have "read64 ?m (slot q (2 - d') va') = 0"
    proof -
      have "page_aligned n" "n \<noteq> q" using assms(1,2,4,6) pt_nodeI [of m pt va d n] pt_wf_page by auto
      then have "slot n (2 - d) va \<noteq> slot q (2 - d') va'" using assms(5) by (simp add: slot_eq_iff)
      then have "read64 ?m (slot q (2 - d') va') = read64 (fill_page m q 0) (slot q (2 - d') va')"
        using assms(5) \<open>page_aligned n\<close> by (intro read64_write64_other) auto
      also have "\<dots> = 0" using assms(5) by (intro read64_fill_zero) auto
      finally show ?thesis .
    qed
    ultimately show ?thesis using 2 Suc.prems by simp
  next
    case 3
    then have same: "pt_node ?m pt va' d' = pt_node m pt va' d'" using Suc by auto
    have "pt_node ?m pt va' (Suc d') = pt_node m pt va' (Suc d')"
    proof (cases "pt_node m pt va' d'")
      case None
      with same show ?thesis by simp
    next
      case (Some n')
      have "\<not> (d = d' \<and> same_path (Suc d) va va')" using 3 by auto
      from extend_entries [OF assms(1,2,4,5,6) Some _ this, of v] Suc.prems Some same show ?thesis by simp
    qed
    with 3 show ?thesis by auto
  qed
qed simp


lemma extend_tree:
  assumes "pt_wf m pt" and "pt_node m pt va d = Some n" and "pt_node m pt va (Suc d) = None" and "d < 2"
    and "page_aligned q" and "q \<noteq> 0" and "q \<notin> pt_nodes m pt" and "PTE2PA v = q" and "v AND PTE_V \<noteq> 0"
  defines "m' \<equiv> write64 (fill_page m q 0) (slot n (2 - d) va) v"
  shows "pt_wf m' pt" and "pt_nodes m' pt = insert q (pt_nodes m pt)"
    and "pte_at m' pt va' = pte_at m pt va'" and "pt_node m' pt va (Suc d) = Some q"
proof -
  note nodes = extend_nodes [OF assms(1-5,7-9), folded m'_def]
  show "pt_node m' pt va (Suc d) = Some q" using assms(4) by (simp add: nodes del: pt_node.simps)
  have old: "pt_node m pt u c = None" if "same_path (Suc d) va u" "d < c" for u c
    using pt_node_path [OF that(1)] assms(3) pt_node_mono [of m pt u "Suc d" c] that(2) by simp
  have keep: "pt_node m' pt u c = Some k \<longleftrightarrow>
      pt_node m pt u c = Some k \<or> k = q \<and> c = Suc d \<and> same_path (Suc d) va u" if "c \<le> 2" for u c k
    using old [of u c] by (auto simp: nodes [OF that])
  show set: "pt_nodes m' pt = insert q (pt_nodes m pt)"
  proof -
    have "q \<in> pt_nodes m' pt" using keep [of "Suc d" va q] assms(4)
      by (intro pt_nodeI [of m' pt va "Suc d"]) (auto simp del: pt_node.simps)
    moreover have "k \<in> pt_nodes m' pt \<longleftrightarrow> k \<in> pt_nodes m pt" if "k \<noteq> q" for k
      using that unfolding pt_nodes_def mem_Collect_eq by (metis keep)
    ultimately show ?thesis by (intro set_eqI) (metis insert_iff)
  qed
  have qfree: "pt_node m pt u c \<noteq> Some q" if "c \<le> 2" for u c using assms(7) that by auto
  show "pt_wf m' pt"
    unfolding pt_wf_def set
  proof (intro conjI allI impI ballI)
    fix k assume "k \<in> insert q (pt_nodes m pt)"
    then show "page_aligned k" "k \<noteq> 0" using assms(1,5,6) pt_wf_page by auto
  next
    fix u u' c c' k
    assume a: "c \<le> 2 \<and> c' \<le> 2 \<and> pt_node m' pt u c = Some k \<and> pt_node m' pt u' c' = Some k"
    have "c = c' \<and> same_path c u u'"
    proof (cases "k = q")
      case True
      then have "c = Suc d" "c' = Suc d" "same_path (Suc d) va u" "same_path (Suc d) va u'"
        using a keep qfree by auto
      then show ?thesis by (simp add: same_path_def)
    next
      case False
      then show ?thesis using a keep pt_wf_inj [OF assms(1)] by auto
    qed
    then show "c = c'" "same_path c u u'" by auto
  qed
  show "pte_at m' pt va' = pte_at m pt va'"
  proof (cases "pt_node m pt va' 2")
    case (Some k)
    then have "\<not> (d < 2 \<and> same_path (Suc d) va va')" using old [of va' 2] by auto
    moreover from this have "read64 m' (slot k (2 - 2) va') = read64 m (slot k (2 - 2) va')"
      unfolding m'_def using assms Some by (intro extend_entries) auto
    moreover from calculation have "pt_node m' pt va' 2 = Some k" using Some nodes [of 2 va'] by auto
    ultimately show ?thesis using Some by (simp add: pte_at_def)
  next
    case None
    show ?thesis
    proof (cases "d = 1 \<and> same_path (Suc d) va va'")
      case True
      have n: "page_aligned n" "n \<noteq> q" using assms(1,2,4,7) pt_nodeI [of m pt va d n] pt_wf_page by auto
      then have "slot n (2 - d) va \<noteq> slot q 0 va'" using assms(5) by (simp add: slot_eq_iff)
      then have "read64 m' (slot q 0 va') = read64 (fill_page m q 0) (slot q 0 va')"
        unfolding m'_def using assms(5) n by (intro read64_write64_other) auto
      also have "\<dots> = 0" using assms(5) by (intro read64_fill_zero) auto
      finally show ?thesis using True None nodes [of 2 va'] by (simp add: pte_at_def numeral_2_eq_2)
    next
      case False
      then show ?thesis using None nodes [of 2 va'] assms(4) by (auto simp: pte_at_def)
    qed
  qed
qed


section \<open>Walks\<close>

definition vm_ok :: "'z kmem_scheme \<Rightarrow> u64 \<Rightarrow> u64 list \<Rightarrow> bool" where
  "vm_ok s pt fr \<longleftrightarrow> kmem_avail s fr \<and> pt_wf (mem s) pt \<and> pt_nodes (mem s) pt \<inter> set fr = {}"

text \<open>
  \<open>vm_ext pt s fr s' fr'\<close>: between \<open>s\<close> and \<open>s'\<close> the tree took the pages that \<open>fr\<close> lost as new
  nodes and no memory outside the tree changed; \<open>vm_grow\<close>: moreover no mapping changed.
\<close>

definition vm_ext :: "u64 \<Rightarrow> 'z kmem_scheme \<Rightarrow> u64 list \<Rightarrow> 'z kmem_scheme \<Rightarrow> u64 list \<Rightarrow> bool" where
  "vm_ext pt s fr s' fr' \<longleftrightarrow> vm_ok s' pt fr' \<and>
     (\<exists>used. fr = used @ fr' \<and> pt_nodes (mem s') pt = pt_nodes (mem s) pt \<union> set used) \<and>
     (\<forall>x. (\<forall>n \<in> pt_nodes (mem s') pt. pn x \<noteq> pn n) \<longrightarrow> mem s' x = mem s x) \<and>
     lksame (lk s) (lk s') \<and> kframe s s'"

definition vm_grow :: "u64 \<Rightarrow> 'z kmem_scheme \<Rightarrow> u64 list \<Rightarrow> 'z kmem_scheme \<Rightarrow> u64 list \<Rightarrow> bool" where
  "vm_grow pt s fr s' fr' \<longleftrightarrow> vm_ext pt s fr s' fr' \<and>
     (\<forall>v. pte_at (mem s') pt v = pte_at (mem s) pt v)"

lemma vm_grow_refl: "vm_ok s pt fr \<Longrightarrow> vm_grow pt s fr s fr"
  by (simp add: vm_grow_def vm_ext_def)

lemma vm_ext_trans:
  assumes "vm_ext pt s fr s1 fr1" and "vm_ext pt s1 fr1 s2 fr2"
  shows "vm_ext pt s fr s2 fr2"
proof -
  obtain u1 u2 where "fr = u1 @ fr1" "pt_nodes (mem s1) pt = pt_nodes (mem s) pt \<union> set u1"
      "fr1 = u2 @ fr2" "pt_nodes (mem s2) pt = pt_nodes (mem s1) pt \<union> set u2"
    using assms by (auto simp: vm_ext_def)
  then show ?thesis
    using assms unfolding vm_ext_def
    by (auto intro: lksame_trans kframe_trans exI [of _ "u1 @ u2"])
qed

lemma vm_grow_trans:
  "vm_grow pt s fr s1 fr1 \<Longrightarrow> vm_grow pt s1 fr1 s2 fr2 \<Longrightarrow> vm_grow pt s fr s2 fr2"
  by (auto simp: vm_grow_def intro: vm_ext_trans)

lemma vm_ext_ok: "vm_ext pt s fr s' fr' \<Longrightarrow> vm_ok s' pt fr'"
  by (simp add: vm_ext_def)

lemma walk_noalloc:
  "va < MAXVA \<Longrightarrow> walk pt va False s =
    Some (case pt_node (mem s) pt va 2 of None \<Rightarrow> 0 | Some n \<Rightarrow> slot n 0 va, s)"
  by (simp add: walk_def not_le numeral_2_eq_2 Let_def split: option.split)

lemma walk_panics: "MAXVA \<le> va \<Longrightarrow> walk pt va alloc s = None"
  by (simp add: walk_def)


lemma fill_fill [simp]: "fill_page (fill_page m p c) p c' = fill_page m p c'"
  by (auto simp: fill_page_def)

lemma PTE_V_nz [simp]: "PTE_V \<noteq> 0" by (simp add: PTE_V_def)

lemma PTE_V_or [simp]: "(x OR PTE_V) AND PTE_V \<noteq> 0" "(x OR y OR PTE_V) AND PTE_V \<noteq> 0"
proof -
  have "bit ((x OR PTE_V) AND PTE_V) 0" "bit ((x OR y OR PTE_V) AND PTE_V) 0"
    by (simp_all add: PTE_V_def bit_simps)
  then show "(x OR PTE_V) AND PTE_V \<noteq> 0" "(x OR y OR PTE_V) AND PTE_V \<noteq> 0" by fastforce+
qed

lemma kpage_bound: "kpage s p \<Longrightarrow> p < 2 ^ 56"
  by (auto simp: kpage_def word_less_nat_alt)

lemma PTE2PA_node: "kpage s q \<Longrightarrow> PTE2PA (PA2PTE q OR PTE_V) = q"
  by (rule PTE2PA_PA2PTE) (auto simp: kpage_aligned PTE_V_def dest: kpage_bound)

lemma walk_new_node:
  assumes ok: "vm_ok s pt (q # fr)" and node: "pt_node (mem s) pt va d = Some n" "d < 2"
    and none: "pt_node (mem s) pt va (Suc d) = None"
  defines "s' \<equiv> s\<lparr>lk := lktouch KmemLock (lk s), freelist := read64 (mem s) q,
      mem := write64 (fill_page (mem s) q 0) (slot n (2 - d) va) (PA2PTE q OR PTE_V)\<rparr>"
  shows "vm_grow pt s (q # fr) s' fr" and "pt_node (mem s') pt va (Suc d) = Some q"
proof -
  have av: "lkwf (lk s)" "KmemLock \<notin> held (lk s)" "freelist_rep s (q # fr)"
    and wf: "pt_wf (mem s) pt" and disj: "pt_nodes (mem s) pt \<inter> set (q # fr) = {}"
    using ok by (auto simp: vm_ok_def kmem_avail_def)
  have q: "kpage s q" "page_aligned q" "q \<noteq> 0" "q \<notin> set fr"
    using av(3) by (auto simp: freelist_rep_def kpage_def)
  have n: "n \<in> pt_nodes (mem s) pt" "page_aligned n"
    using node pt_nodeI [OF node(1)] pt_wf_page [OF wf] by auto
  have m: "mem s' = write64 (fill_page (mem s) q 0) (slot n (2 - d) va) (PA2PTE q OR PTE_V)"
    by (simp add: s'_def)
  note tree = extend_tree [OF wf node(1) none node(2) q(2,3), of "PA2PTE q OR PTE_V", folded m]
  have t: "pt_wf (mem s') pt" "pt_nodes (mem s') pt = insert q (pt_nodes (mem s) pt)"
      "\<And>v. pte_at (mem s') pt v = pte_at (mem s) pt v" "pt_node (mem s') pt va (Suc d) = Some q"
    using tree disj PTE2PA_node [OF q(1)] by (simp_all del: pt_node.simps)
  have "freelist_rep (s\<lparr>lk := lktouch KmemLock (lk s), freelist := read64 (mem s) q,
      mem := fill_page (mem s) q 0\<rparr>) fr" by (rule kalloc_pop_rep [OF av(3)])
  then have "freelist_rep s' fr"
  proof (rule freelist_rep_cong)
    fix p x assume p: "p \<in> set fr" and "pn x = pn p"
    moreover have "pn p \<noteq> pn n"
      using p n disj page_eq [of p n] av(3) by (auto simp: freelist_rep_def kpage_def)
    ultimately show "mem s' x = mem (s\<lparr>lk := lktouch KmemLock (lk s), freelist := read64 (mem s) q,
        mem := fill_page (mem s) q 0\<rparr>) x" using n by (simp add: m write64_outside)
  qed (simp_all add: s'_def)
  moreover have l: "lksame (lk s) (lk s')" using av by (simp add: s'_def)
  ultimately have "vm_ok s' pt fr"
    using t disj q av by (auto simp: vm_ok_def kmem_avail_def lksame_def)
  moreover have "mem s' x = mem s x" if "\<forall>k \<in> pt_nodes (mem s') pt. pn x \<noteq> pn k" for x
    using that n t(2) by (simp add: m write64_outside fill_page_def)
  ultimately show "vm_grow pt s (q # fr) s' fr"
    using t l unfolding vm_grow_def vm_ext_def by (auto simp: s'_def)
  show "pt_node (mem s') pt va (Suc d) = Some q" by (rule t(4))
qed

definition walk_post :: "u64 \<Rightarrow> u64 \<Rightarrow> nat \<Rightarrow> 'z kmem_scheme \<Rightarrow> u64 list \<Rightarrow> u64 \<Rightarrow> 'z kmem_scheme \<Rightarrow> u64 list \<Rightarrow> bool" where
  "walk_post pt va l s fr r s' fr' \<longleftrightarrow> vm_grow pt s fr s' fr' \<and> length fr \<le> length fr' + l \<and>
     (if r = 0 then fr' = [] \<and> length fr < l \<and> pt_node (mem s) pt va 2 = None
      else \<exists>k. pt_node (mem s') pt va 2 = Some k \<and> r = slot k 0 va)"

lemma walk_loop_alloc:
  assumes "vm_ok s pt fr" and "pt_node (mem s) pt va (2 - l) = Some n" and "l \<le> 2"
  shows "\<exists>r s' fr'. walk_loop l n va True s = Some (r, s') \<and> walk_post pt va l s fr r s' fr'"
  using assms
proof (induction l arbitrary: s fr n)
  case 0
  then have "n \<noteq> 0 \<and> page_aligned n"
    using pt_wf_page [of "mem s" pt n] pt_nodeI [of "mem s" pt va 2 n] by (auto simp: vm_ok_def)
  with 0 show ?case by (auto simp: walk_post_def slot_not_0 intro: vm_grow_refl)
next
  case (Suc l)
  let ?e = "read64 (mem s) (slot n (Suc l) va)"
  have d: "2 - l = Suc (2 - Suc l)" "2 - (2 - Suc l) = Suc l" using Suc.prems(3) by auto
  show ?case
  proof (cases "?e AND PTE_V = 0")
    case False
    then have "pt_node (mem s) pt va (2 - l) = Some (PTE2PA ?e)"
      using Suc.prems(2) d by (simp add: Let_def)
    then obtain r s' fr' where "walk_loop l (PTE2PA ?e) va True s = Some (r, s')"
        and "walk_post pt va l s fr r s' fr'"
      using Suc.IH [of s fr "PTE2PA ?e"] Suc.prems Suc_leD by blast
    moreover from this(2) have "walk_post pt va (Suc l) s fr r s' fr'"
      by (auto simp: walk_post_def split: if_splits)
    ultimately show ?thesis using False by (auto simp: Let_def)
  next
    case True
    then have none: "pt_node (mem s) pt va (Suc (2 - Suc l)) = None" using Suc.prems(2) d by simp
    with Suc.prems(3) have none2: "pt_node (mem s) pt va 2 = None"
      by (rule_tac pt_node_mono [of _ _ _ "Suc (2 - Suc l)"]) auto
    have av: "lkwf (lk s)" "KmemLock \<notin> held (lk s)" "freelist_rep s fr"
      using Suc.prems(1) by (auto simp: vm_ok_def kmem_avail_def)
    show ?thesis
    proof (cases fr)
      case Nil
      have "kalloc s = Some (0, s\<lparr>lk := lktouch KmemLock (lk s)\<rparr>)"
        using kalloc_empty av Nil by blast
      moreover have "vm_grow pt s fr (s\<lparr>lk := lktouch KmemLock (lk s)\<rparr>) []"
        using Suc.prems(1) av Nil lksame_touch [OF av(1,2)]
        by (auto simp: vm_grow_def vm_ext_def vm_ok_def kmem_avail_def lksame_def)
      ultimately show ?thesis using True none2 Nil by (simp add: Let_def walk_post_def)
    next
      case (Cons q fr1)
      let ?s = "s\<lparr>lk := lktouch KmemLock (lk s), freelist := read64 (mem s) q,
        mem := write64 (fill_page (mem s) q 0) (slot n (Suc l) va) (PA2PTE q OR PTE_V)\<rparr>"
      have q: "page_aligned q" "q \<noteq> 0" using av(3) Cons by (auto simp: freelist_rep_def kpage_def)
      have g: "vm_grow pt s fr ?s fr1" "pt_node (mem ?s) pt va (2 - l) = Some q"
        using walk_new_node [of s pt q fr1 va "2 - Suc l" n] Suc.prems none Cons d by simp_all
      then have "vm_ok ?s pt fr1" by (simp add: vm_grow_def vm_ext_def)
      then obtain r s' fr' where r: "walk_loop l q va True ?s = Some (r, s')"
          "walk_post pt va l ?s fr1 r s' fr'"
        using Suc.IH [of ?s fr1 q] g(2) Suc.prems(3) Suc_leD by blast
      have "walk_loop (Suc l) n va True s = Some (r, s')"
        using True kalloc_pop [of s q fr1] av Cons q r(1) by (simp add: Let_def memset_page)
      moreover have "walk_post pt va (Suc l) s fr r s' fr'"
        using r(2) vm_grow_trans [OF g(1)] none2 Cons unfolding walk_post_def by (simp split: if_splits)
      ultimately show ?thesis by blast
    qed
  qed
qed

lemma walk_alloc:
  assumes "vm_ok s pt fr" and "va < MAXVA"
  obtains r s' fr' where "walk pt va True s = Some (r, s')" and "walk_post pt va 2 s fr r s' fr'"
proof -
  have "walk pt va True s = walk_loop 2 pt va True s"
    using assms(2) by (simp add: walk_def linorder_not_le [symmetric])
  moreover have "pt_node (mem s) pt va (2 - 2) = Some pt" by simp
  ultimately show thesis using that walk_loop_alloc [OF assms(1), of va 2 pt] by auto
qed

section \<open>Addresses of the same page\<close>

lemma bit_PX: "bit (PX l va) k \<longleftrightarrow> k < 9 \<and> bit va (12 + 9 * l + k)"
proof -
  have "PX l va = take_bit 9 (drop_bit (12 + 9 * l) va)"
    by (simp add: PX_def take_bit_eq_mask mask_eq_exp_minus_1)
  then show ?thesis by (simp add: bit_take_bit_iff bit_drop_bit_eq)
qed

lemma bit_high_False:
  assumes "(va :: u64) < MAXVA" and "38 \<le> k"
  shows "\<not> bit va k"
proof -
  have "take_bit 38 va = va"
    using assms(1) by (simp add: MAXVA_val take_bit_eq_mod word_unat_eq_iff unat_mod word_less_nat_alt)
  then show ?thesis using assms(2) by (metis bit_take_bit_iff not_less)
qed

lemma pn_bits: "pn va = pn va' \<longleftrightarrow> drop_bit 12 va = drop_bit 12 va'"
  by (simp add: pn_def drop_bit_eq_div word_unat_eq_iff unat_div)

lemma same_path_page:
  assumes "va < MAXVA" and "va' < MAXVA"
  shows "same_path 3 va va' \<longleftrightarrow> pn va = pn va'"
proof
  assume "same_path 3 va va'"
  then have px: "PX 2 va = PX 2 va'" "PX 1 va = PX 1 va'" "PX 0 va = PX 0 va'"
    by (auto simp: same_path_def numeral_3_eq_3 less_Suc_eq)
  have "bit va (12 + k) = bit va' (12 + k)" for k
  proof -
    consider "k < 9" | "9 \<le> k" "k < 18" | "18 \<le> k" "k < 27" | "27 \<le> k" by linarith
    then show ?thesis
    proof cases
      case 1
      then show ?thesis using px(3) bit_PX [of 0 va k] bit_PX [of 0 va' k] by simp
    next
      case 2
      then have "k - 9 < 9" by simp
      then show ?thesis using 2 px(2) bit_PX [of 1 va "k - 9"] bit_PX [of 1 va' "k - 9"] by simp
    next
      case 3
      then have "k - 18 < 9" by simp
      then show ?thesis using 3 px(1) bit_PX [of 2 va "k - 18"] bit_PX [of 2 va' "k - 18"] by simp
    next
      case 4
      then show ?thesis using assms by (simp add: bit_high_False)
    qed
  qed
  then have "drop_bit 12 va = drop_bit 12 va'"
    by (intro bit_word_eqI) (simp add: bit_drop_bit_eq)
  then show "pn va = pn va'" by (simp only: pn_bits)
next
  assume "pn va = pn va'"
  then have "bit (drop_bit 12 va) k = bit (drop_bit 12 va') k" for k by (simp add: pn_bits)
  then have b: "bit va (12 + k) = bit va' (12 + k)" for k by (simp add: bit_drop_bit_eq)
  have "PX l va = PX l va'" for l
  proof (rule bit_word_eqI)
    fix k
    show "bit (PX l va) k = bit (PX l va') k" using b [of "9 * l + k"] by (simp only: bit_PX add.assoc)
  qed
  then show "same_path 3 va va'" by (simp add: same_path_def)
qed


section \<open>Mapping pages\<close>

definition map_pte :: "u64 \<Rightarrow> u64 \<Rightarrow> u64 \<Rightarrow> u64 \<Rightarrow> u64" where
  "map_pte a pa perm v = PA2PTE (pa + of_nat (pn v - pn a) * PGSIZE) OR perm OR PTE_V"

lemma vm_ok_node:
  assumes "vm_ok s pt fr" and "pt_node (mem s) pt va d = Some n" and "d \<le> 2"
  shows "page_aligned n" and "n \<noteq> 0" and "n \<notin> set fr"
  using assms pt_nodeI [OF assms(2,3)] pt_wf_page by (auto simp: vm_ok_def)

lemma set_leaf:
  assumes ok: "vm_ok s pt fr" and node: "pt_node (mem s) pt va 2 = Some n"
    and s'_def: "s' = s\<lparr>mem := write64 (mem s) (slot n 0 va) e\<rparr>"
  shows "vm_ext pt s fr s' fr"
    and "va < MAXVA \<Longrightarrow> v < MAXVA \<Longrightarrow> pte_at (mem s') pt v = (if pn v = pn va then e else pte_at (mem s) pt v)"
proof -
  have wf: "pt_wf (mem s) pt" and av: "kmem_avail s fr" using ok by (auto simp: vm_ok_def)
  note leaf = write_leaf [OF wf node, of e]
  have n: "page_aligned n" "n \<in> pt_nodes (mem s) pt"
    using vm_ok_node [OF ok node] pt_nodeI [OF node] by auto
  have out: "mem s' x = mem s x" if "pn x \<noteq> pn n" for x
    using that n by (simp add: s'_def write64_outside)
  have "pn p \<noteq> pn n" if "p \<in> set fr" for p
    using that n ok page_eq [of p n] av
    by (auto simp: vm_ok_def kmem_avail_def freelist_rep_def kpage_def)
  then have "freelist_rep s' fr"
    using av out by (intro freelist_rep_cong [of s fr s']) (auto simp: s'_def kmem_avail_def)
  then have "vm_ok s' pt fr"
    using ok leaf av by (simp add: vm_ok_def kmem_avail_def s'_def)
  then show "vm_ext pt s fr s' fr"
    unfolding vm_ext_def using out n leaf by (auto simp: s'_def)
  show "pte_at (mem s') pt v = (if pn v = pn va then e else pte_at (mem s) pt v)"
    if "va < MAXVA" "v < MAXVA"
    using leaf(3) [of v] same_path_page [OF that] by (auto simp: s'_def)
qed

lemma pn_less_MAXVA:
  assumes "page_aligned a" and "unat a + 4096 * Suc n \<le> 274877906944" and "pn v \<le> pn a + n"
  shows "v < MAXVA"
proof -
  have "unat v < (pn v + 1) * 4096" using div_less_iff_less_mult [of 4096 "unat v" "pn v + 1"] by (simp add: pn_def)
  moreover obtain k where "unat a = 4096 * k" using assms(1) by (rule page_alignedE)
  ultimately show ?thesis using assms(2,3) by (simp add: MAXVA_val word_less_nat_alt pn_def)
qed

lemma page_step:
  assumes "page_aligned a" and "unat a + 4096 \<le> 274877906944"
  shows "page_aligned (a + PGSIZE)" and "unat (a + PGSIZE) = unat a + 4096" and "pn (a + PGSIZE) = Suc (pn a)"
proof -
  show u: "unat (a + PGSIZE) = unat a + 4096"
    using assms(2) unat_add_small [of a 4096] by (simp add: PGSIZE_def)
  show "page_aligned (a + PGSIZE)" using assms(1) u by (simp add: page_aligned_unat)
  show "pn (a + PGSIZE) = Suc (pn a)" using u by (simp add: pn_def)
qed

lemma map_step:
  assumes ok: "vm_ok s pt fr" and a: "a < MAXVA" and inv: "pte_at (mem s) pt a AND PTE_V = 0"
  obtains (full) s1 where "walk pt a True s = Some (0, s1)" "vm_grow pt s fr s1 []" "length fr < 2"
  | (mapped) r s1 fr1 where "walk pt a True s = Some (r, s1)" "r \<noteq> 0" "read64 (mem s1) r AND PTE_V = 0"
      "\<And>e. vm_ext pt s fr (s1\<lparr>mem := write64 (mem s1) r e\<rparr>) fr1" "length fr \<le> length fr1 + 2"
      "\<And>e v. v < MAXVA \<Longrightarrow> pte_at (write64 (mem s1) r e) pt v = (if pn v = pn a then e else pte_at (mem s) pt v)"
proof -
  obtain r s1 fr1 where w: "walk pt a True s = Some (r, s1)" "walk_post pt a 2 s fr r s1 fr1"
    using walk_alloc [OF ok a] by blast
  then have g: "vm_grow pt s fr s1 fr1" "length fr \<le> length fr1 + 2" by (auto simp: walk_post_def)
  show thesis
  proof (cases "r = 0")
    case True
    with w g full show thesis by (simp add: walk_post_def)
  next
    case False
    then obtain n where n: "pt_node (mem s1) pt a 2 = Some n" "r = slot n 0 a"
      using w by (auto simp: walk_post_def)
    have ok1: "vm_ok s1 pt fr1" and ext: "vm_ext pt s fr s1 fr1"
      and same: "\<And>v. pte_at (mem s1) pt v = pte_at (mem s) pt v"
      using g by (auto simp: vm_grow_def dest: vm_ext_ok)
    note leaf = set_leaf [OF ok1 n(1) refl]
    show thesis
    proof (rule mapped [OF w(1) False])
      show "read64 (mem s1) r AND PTE_V = 0" using inv same [of a] n by (simp add: pte_at_def)
      show "vm_ext pt s fr (s1\<lparr>mem := write64 (mem s1) r e\<rparr>) fr1" for e
        using leaf(1) ext n(2) vm_ext_trans by blast
      show "pte_at (write64 (mem s1) r e) pt v = (if pn v = pn a then e else pte_at (mem s) pt v)"
        if "v < MAXVA" for e v
        using leaf(2) [OF a that, of e] n(2) same by simp
    qed (rule g(2))
  qed
qed

definition mapped_range :: "u64 \<Rightarrow> u64 \<Rightarrow> nat \<Rightarrow> u64 \<Rightarrow> u64 \<Rightarrow> 'z kmem_scheme \<Rightarrow> 'z kmem_scheme \<Rightarrow> bool" where
  "mapped_range pt a k pa perm s s' \<longleftrightarrow> (\<forall>v < MAXVA. pte_at (mem s') pt v =
     (if pn a \<le> pn v \<and> pn v < pn a + k then map_pte a pa perm v else pte_at (mem s) pt v))"

lemma mappages_loop_spec:
  assumes "vm_ok s pt fr" and "page_aligned a" and "unat a + 4096 * Suc n \<le> 274877906944"
    and "last_a = a + of_nat n * PGSIZE"
    and "\<forall>v. pn a \<le> pn v \<and> pn v \<le> pn a + n \<longrightarrow> pte_at (mem s) pt v AND PTE_V = 0"
  shows "\<exists>r s' fr' k. mappages_loop pt a last_a pa perm s = Some (r, s') \<and> vm_ext pt s fr s' fr' \<and>
    mapped_range pt a k pa perm s s' \<and>
    (r = 0 \<and> k = Suc n \<or> r = - 1 \<and> k \<le> n \<and> fr' = [] \<and> length fr < 2 * Suc n)"
  using assms
proof (induction n arbitrary: a pa s fr)
  case 0
  then have a: "a < MAXVA" and inv: "pte_at (mem s) pt a AND PTE_V = 0" and [simp]: "last_a = a"
    by (simp_all add: MAXVA_val word_less_nat_alt)
  from map_step [OF 0(1) a inv] show ?case
  proof cases
    case (1 s1)
    then show ?thesis
      by (auto simp: mappages_loop.simps [of pt a] vm_grow_def mapped_range_def intro!: exI [of _ 0])
  next
    case mapped: (2 r s1 fr1)
    let ?s = "s1\<lparr>mem := write64 (mem s1) r (PA2PTE pa OR perm OR PTE_V)\<rparr>"
    have "mapped_range pt a (Suc 0) pa perm s ?s"
      using mapped(6) by (auto simp: mapped_range_def map_pte_def)
    moreover have "mappages_loop pt a last_a pa perm s = Some (0, ?s)"
      using mapped by (simp add: mappages_loop.simps [of pt a])
    ultimately show ?thesis using mapped(4) by blast
  qed
next
  case (Suc n)
  then have a: "a < MAXVA" and inv: "pte_at (mem s) pt a AND PTE_V = 0"
    by (simp_all add: MAXVA_val word_less_nat_alt)
  have st: "page_aligned (a + PGSIZE)" "unat (a + PGSIZE) = unat a + 4096" "pn (a + PGSIZE) = Suc (pn a)"
    using page_step Suc.prems by auto
  have ne: "a \<noteq> last_a"
  proof -
    have "unat (of_nat (Suc n) * PGSIZE) = Suc n * 4096"
      using Suc.prems(3) by (simp add: unat_word_ariths PGSIZE_def)
    then show ?thesis using Suc.prems(4) by auto
  qed
  from map_step [OF Suc.prems(1) a inv] show ?case
  proof cases
    case (1 s1)
    then show ?thesis
      by (auto simp: mappages_loop.simps [of pt a] vm_grow_def mapped_range_def intro!: exI [of _ 0])
  next
    case mapped: (2 r s1 fr1)
    let ?s = "s1\<lparr>mem := write64 (mem s1) r (PA2PTE pa OR perm OR PTE_V)\<rparr>"
    have "\<exists>r' s' fr' k. mappages_loop pt (a + PGSIZE) last_a (pa + PGSIZE) perm ?s = Some (r', s') \<and>
        vm_ext pt ?s fr1 s' fr' \<and> mapped_range pt (a + PGSIZE) k (pa + PGSIZE) perm ?s s' \<and>
        (r' = 0 \<and> k = Suc n \<or> r' = - 1 \<and> k \<le> n \<and> fr' = [] \<and> length fr1 < 2 * Suc n)"
    proof (rule Suc.IH)
      show "vm_ok ?s pt fr1" using mapped(4) by (rule vm_ext_ok)
      show "last_a = a + PGSIZE + of_nat n * PGSIZE" using Suc.prems(4) by (simp add: algebra_simps)
      show "\<forall>v. pn (a + PGSIZE) \<le> pn v \<and> pn v \<le> pn (a + PGSIZE) + n \<longrightarrow> pte_at (mem ?s) pt v AND PTE_V = 0"
      proof (intro allI impI)
        fix v assume v: "pn (a + PGSIZE) \<le> pn v \<and> pn v \<le> pn (a + PGSIZE) + n"
        with st(3) Suc.prems(2,3) have "v < MAXVA" by (intro pn_less_MAXVA [of a "Suc n"]) auto
        with v st(3) mapped(6) Suc.prems(5) show "pte_at (mem ?s) pt v AND PTE_V = 0" by simp
      qed
    qed (use st Suc.prems(3) in auto)
    then obtain r' s' fr' k where l: "mappages_loop pt (a + PGSIZE) last_a (pa + PGSIZE) perm ?s = Some (r', s')"
        "vm_ext pt ?s fr1 s' fr'" "mapped_range pt (a + PGSIZE) k (pa + PGSIZE) perm ?s s'"
        "r' = 0 \<and> k = Suc n \<or> r' = - 1 \<and> k \<le> n \<and> fr' = [] \<and> length fr1 < 2 * Suc n" by blast
    have "mapped_range pt a (Suc k) pa perm s s'"
      unfolding mapped_range_def
    proof (intro allI impI)
      fix v assume v: "v < MAXVA"
      have "map_pte (a + PGSIZE) (pa + PGSIZE) perm v = map_pte a pa perm v" if "Suc (pn a) \<le> pn v"
      proof -
        from that obtain j where "pn v = Suc (pn a) + j" using le_Suc_ex by blast
        then show ?thesis unfolding map_pte_def st(3) by (simp add: algebra_simps)
      qed
      moreover have "map_pte a pa perm v = PA2PTE pa OR perm OR PTE_V" if "pn v = pn a"
        using that by (simp add: map_pte_def)
      ultimately show "pte_at (mem s') pt v =
          (if pn a \<le> pn v \<and> pn v < pn a + Suc k then map_pte a pa perm v else pte_at (mem s) pt v)"
        using l(3) mapped(6) [OF v] v st(3) by (auto simp: mapped_range_def)
    qed
    moreover have "mappages_loop pt a last_a pa perm s = Some (r', s')"
      using mapped l(1) ne by (simp add: mappages_loop.simps [of pt a])
    moreover have "vm_ext pt s fr s' fr'" using mapped(4) l(2) by (rule vm_ext_trans)
    ultimately show ?thesis using l(4) mapped(5)
      by (intro exI [of _ r'] exI [of _ s'] exI [of _ fr'] exI [of _ "Suc k"]) auto
  qed
qed

end
