(* ===== verification/Addrspace.thy ===== *)
theory Addrspace
  imports Pagetable
begin

text \<open>
  What the operations of \<^verbatim>\<open>kernel/vm.c\<close> do to an address space: mapping a range, unmapping it,
  growing and shrinking, stated over \<open>pte_at\<close> and the list of free pages.
\<close>

unbundle bit_operations_syntax

section \<open>mappages\<close>

lemma mappages_spec:
  assumes "vm_ok s pt fr" and "page_aligned va" and "0 < n" and "unat va + 4096 * n \<le> 274877906944"
    and "\<forall>v. pn va \<le> pn v \<and> pn v < pn va + n \<longrightarrow> pte_at (mem s) pt v AND PTE_V = 0"
  shows "\<exists>r s' fr' k. mappages pt va (of_nat n * PGSIZE) pa perm s = Some (r, s') \<and> vm_ext pt s fr s' fr' \<and>
    mapped_range pt va k pa perm s s' \<and>
    (r = 0 \<and> k = n \<or> r = - 1 \<and> k < n \<and> fr' = [] \<and> length fr < 2 * n)"
proof -
  obtain j where j: "n = Suc j" using assms(3) by (cases n) auto
  have u: "unat (of_nat n * PGSIZE :: u64) = n * 4096"
    using assms(4) by (simp add: unat_word_ariths PGSIZE_def)
  then have ok: "(of_nat n * PGSIZE :: u64) mod PGSIZE = 0" "(of_nat n * PGSIZE :: u64) \<noteq> 0"
    using assms(3) by (simp_all add: word_unat_eq_iff unat_mod del: word_of_nat_eq_0_iff)
  have l: "va + of_nat n * PGSIZE - PGSIZE = va + of_nat j * PGSIZE" using j by (simp add: algebra_simps)
  have "mappages pt va (of_nat n * PGSIZE) pa perm s = mappages_loop pt va (va + of_nat j * PGSIZE) pa perm s"
    using ok assms(2) by (simp add: mappages_def page_aligned_def l)
  then show ?thesis
    using mappages_loop_spec [of s pt fr va j "va + of_nat j * PGSIZE" pa perm] assms j
    by (simp add: less_Suc_eq_le)
qed

section \<open>uvmunmap\<close>

text \<open>The frames mapped in the \<open>n\<close> pages from \<open>a\<close>.\<close>

definition frames :: "memory \<Rightarrow> u64 \<Rightarrow> nat \<Rightarrow> nat \<Rightarrow> u64 set" where
  "frames m pt b n =
     (\<lambda>v. PTE2PA (pte_at m pt v)) ` {v. b \<le> pn v \<and> pn v < b + n \<and> pte_at m pt v AND PTE_V \<noteq> 0}"

definition frames_ok :: "'z kmem_scheme \<Rightarrow> u64 \<Rightarrow> u64 list \<Rightarrow> nat \<Rightarrow> nat \<Rightarrow> bool" where
  "frames_ok s pt fr b n \<longleftrightarrow>
     (\<forall>f \<in> frames (mem s) pt b n. kpage s f \<and> f \<notin> set fr \<and> f \<notin> pt_nodes (mem s) pt) \<and>
     (\<forall>v v'. b \<le> pn v \<and> pn v < b + n \<and> b \<le> pn v' \<and> pn v' < b + n \<and>
        pte_at (mem s) pt v AND PTE_V \<noteq> 0 \<and> pte_at (mem s) pt v' AND PTE_V \<noteq> 0 \<and>
        PTE2PA (pte_at (mem s) pt v) = PTE2PA (pte_at (mem s) pt v') \<longrightarrow> pn v = pn v')"

definition unmapped_range :: "u64 \<Rightarrow> nat \<Rightarrow> nat \<Rightarrow> 'z kmem_scheme \<Rightarrow> 'z kmem_scheme \<Rightarrow> bool" where
  "unmapped_range pt b n s s' \<longleftrightarrow> (\<forall>v < MAXVA. pte_at (mem s') pt v =
     (if b \<le> pn v \<and> pn v < b + n \<and> pte_at (mem s) pt v AND PTE_V \<noteq> 0 then 0 else pte_at (mem s) pt v))"

definition vm_shrink :: "u64 \<Rightarrow> 'z kmem_scheme \<Rightarrow> u64 list \<Rightarrow> 'z kmem_scheme \<Rightarrow> u64 list \<Rightarrow> bool" where
  "vm_shrink pt s fr s' fs \<longleftrightarrow> vm_ok s' pt (fs @ fr) \<and> pt_nodes (mem s') pt = pt_nodes (mem s) pt \<and>
     (\<forall>x. (\<forall>n \<in> pt_nodes (mem s) pt \<union> set fs. pn x \<noteq> pn n) \<longrightarrow> mem s' x = mem s x) \<and>
     lksame (lk s) (lk s') \<and> kframe s s'"

lemma vm_shrink_trans:
  assumes "vm_shrink pt s fr s1 fs" and "vm_shrink pt s1 (fs @ fr) s2 gs"
  shows "vm_shrink pt s fr s2 (gs @ fs)"
proof -
  have "mem s2 x = mem s x" if "\<forall>n \<in> pt_nodes (mem s) pt \<union> set (gs @ fs). pn x \<noteq> pn n" for x
  proof -
    have "mem s1 x = mem s x" "mem s2 x = mem s1 x" using assms that by (auto simp: vm_shrink_def)
    then show ?thesis by simp
  qed
  then show ?thesis using assms by (auto simp: vm_shrink_def intro: lksame_trans kframe_trans)
qed

lemma vm_ok_lk: "vm_ok s pt fr \<Longrightarrow> lkwf (lk s) \<and> KmemLock \<notin> held (lk s) \<and> freelist_rep s fr \<and> pt_wf (mem s) pt"
  by (simp add: vm_ok_def kmem_avail_def)

lemma kfree_frame:
  assumes ok: "vm_ok s pt fr" and f: "kpage s f" "f \<notin> set fr" "f \<notin> pt_nodes (mem s) pt"
  obtains s' where "kfree f s = Some s'" "vm_shrink pt s fr s' [f]"
    "\<And>v. pte_at (mem s') pt v = pte_at (mem s) pt v" "\<And>v. pt_node (mem s') pt v 2 = pt_node (mem s) pt v 2"
proof -
  obtain s' where k: "kfree f s = Some s'" "freelist_rep s' (f # fr)" "lksame (lk s) (lk s')" "kframe s s'"
      "\<And>x. pn x \<noteq> pn f \<Longrightarrow> mem s' x = mem s x"
    using kfree_step [of s fr f] vm_ok_lk [OF ok] f by metis
  have wf: "pt_wf (mem s) pt" using vm_ok_lk [OF ok] by simp
  have "pages_same (pt_nodes (mem s) pt) (mem s) (mem s')"
  proof (rule pages_sameI)
    fix n x assume "n \<in> pt_nodes (mem s) pt" and "pn x = pn n"
    then show "mem s' x = mem s x"
      using f k(5) [of x] page_eq [of n f] pt_wf_page [OF wf] by (auto simp: kpage_def)
  qed
  note same = pt_untouched [OF this wf]
  have "vm_ok s' pt (f # fr)"
    using k same(1,2) ok f(3) by (auto simp: vm_ok_def kmem_avail_def lksame_def)
  then have "vm_shrink pt s fr s' [f]" using same(2) k by (auto simp: vm_shrink_def)
  then show thesis using that k(1) same(3,4) by simp
qed


lemma pte_at_page:
  assumes "pn v = pn a" and "a < MAXVA" and "v < MAXVA"
  shows "pte_at m pt v = pte_at m pt a"
proof -
  have sp: "same_path 3 a v" using same_path_page [of a v] assms by simp
  then have "PX 0 a = PX 0 v" by (simp add: numeral_3_eq_3 same_path_Suc)
  moreover have "pt_node m pt v 2 = pt_node m pt a 2"
    using pt_node_path [of 2 a v] same_path_mono [OF sp, of 2] by simp
  ultimately show ?thesis by (simp add: pte_at_def slot_def split: option.split)
qed

lemma unmap_page_spec:
  assumes ok: "vm_ok s pt fr" and a: "a < MAXVA"
    and f: "do_free \<and> pte_at (mem s) pt a AND PTE_V \<noteq> 0 \<longrightarrow> kpage s (PTE2PA (pte_at (mem s) pt a)) \<and>
      PTE2PA (pte_at (mem s) pt a) \<notin> set fr \<and> PTE2PA (pte_at (mem s) pt a) \<notin> pt_nodes (mem s) pt"
  shows "\<exists>s' fs. unmap_page pt a do_free s = Some s' \<and> vm_shrink pt s fr s' fs \<and>
    set fs = (if do_free \<and> pte_at (mem s) pt a AND PTE_V \<noteq> 0 then {PTE2PA (pte_at (mem s) pt a)} else {}) \<and>
    unmapped_range pt (pn a) 1 s s'"
proof (cases "pte_at (mem s) pt a AND PTE_V = 0")
  case True
  then have "unmap_page pt a do_free s = Some s"
    using a by (auto simp: unmap_page_def walk_noalloc pte_at_def split: option.splits)
  moreover have "vm_shrink pt s fr s []" using ok by (simp add: vm_shrink_def)
  moreover have "unmapped_range pt (pn a) 1 s s"
    unfolding unmapped_range_def
  proof (intro allI impI)
    fix v assume "v < MAXVA"
    then show "pte_at (mem s) pt v = (if pn a \<le> pn v \<and> pn v < pn a + 1 \<and>
        pte_at (mem s) pt v AND PTE_V \<noteq> 0 then 0 else pte_at (mem s) pt v)"
      using True a pte_at_page [of v a "mem s" pt] by (cases "pn v = pn a") auto
  qed
  ultimately show ?thesis using True by (intro exI [of _ s] exI [of _ "[]"]) simp
next
  case False
  let ?e = "pte_at (mem s) pt a"
  obtain n where n: "pt_node (mem s) pt a 2 = Some n" "?e = read64 (mem s) (slot n 0 a)"
    using False by (auto simp: pte_at_def split: option.splits)
  have nz: "slot n 0 a \<noteq> 0" using vm_ok_node [OF ok n(1)] by (simp add: slot_not_0)
  obtain s1 fs where s1: "(if do_free then kfree (PTE2PA ?e) s else Some s) = Some s1"
      "vm_shrink pt s fr s1 fs" "set fs = (if do_free then {PTE2PA ?e} else {})"
      "\<And>v. pte_at (mem s1) pt v = pte_at (mem s) pt v" "pt_node (mem s1) pt a 2 = Some n"
  proof (cases do_free)
    case True
    with f False ok obtain s1 where "kfree (PTE2PA ?e) s = Some s1" "vm_shrink pt s fr s1 [PTE2PA ?e]"
        "\<And>v. pte_at (mem s1) pt v = pte_at (mem s) pt v" "\<And>v. pt_node (mem s1) pt v 2 = pt_node (mem s) pt v 2"
      using kfree_frame by metis
    with True that n(1) show thesis by simp
  next
    case False
    with that [of s "[]"] ok n(1) show thesis by (simp add: vm_shrink_def)
  qed
  let ?s = "s1\<lparr>mem := write64 (mem s1) (slot n 0 a) 0\<rparr>"
  have ok1: "vm_ok s1 pt (fs @ fr)" using s1(2) by (simp add: vm_shrink_def)
  note leaf = set_leaf [OF ok1 s1(5) refl, where e = 0]
  have "vm_shrink pt s1 (fs @ fr) ?s []"
    using leaf(1) ok1 by (auto simp: vm_shrink_def vm_ext_def)
  with s1(2) have "vm_shrink pt s fr ?s fs" using vm_shrink_trans by fastforce
  moreover have "unmap_page pt a do_free s = Some ?s"
    using a n nz False s1(1) by (auto simp: unmap_page_def walk_noalloc split: if_splits)
  moreover have "unmapped_range pt (pn a) 1 s ?s"
    unfolding unmapped_range_def
  proof (intro allI impI)
    fix v assume "v < MAXVA"
    then show "pte_at (mem ?s) pt v = (if pn a \<le> pn v \<and> pn v < pn a + 1 \<and>
        pte_at (mem s) pt v AND PTE_V \<noteq> 0 then 0 else pte_at (mem s) pt v)"
      using False a pte_at_page [of v a "mem s" pt] leaf(2) [where v = v] s1(4) [of v]
      by (cases "pn v = pn a") auto
  qed
  ultimately show ?thesis using s1(3) False by (intro exI [of _ ?s] exI [of _ fs]) simp
qed


lemma MAXVA_pn: "v < MAXVA \<longleftrightarrow> pn v < 67108864"
  using div_less_iff_less_mult [of 4096 "unat v" 67108864] by (simp add: pn_def MAXVA_val word_less_nat_alt)

lemma pn_bound_MAXVA: "pn v < b + n \<Longrightarrow> b + n \<le> 67108864 \<Longrightarrow> v < MAXVA"
  by (simp add: MAXVA_pn)

lemma unmapped_range_Suc:
  assumes "unmapped_range pt b 1 s s1" and "unmapped_range pt (Suc b) n s1 s2"
  shows "unmapped_range pt b (Suc n) s s2"
  unfolding unmapped_range_def
proof (intro allI impI)
  fix v assume v: "v < MAXVA"
  have "pte_at (mem s1) pt v = (if b \<le> pn v \<and> pn v < b + 1 \<and> pte_at (mem s) pt v AND PTE_V \<noteq> 0
      then 0 else pte_at (mem s) pt v)"
    and "pte_at (mem s2) pt v = (if Suc b \<le> pn v \<and> pn v < Suc b + n \<and> pte_at (mem s1) pt v AND PTE_V \<noteq> 0
      then 0 else pte_at (mem s1) pt v)"
    using assms v by (auto simp: unmapped_range_def)
  then show "pte_at (mem s2) pt v = (if b \<le> pn v \<and> pn v < b + Suc n \<and> pte_at (mem s) pt v AND PTE_V \<noteq> 0
      then 0 else pte_at (mem s) pt v)" by (cases "pn v = b") auto
qed

lemma frames_tail:
  assumes "unmapped_range pt b 1 s s1" and "Suc b + n \<le> 67108864"
  shows "\<And>v. Suc b \<le> pn v \<Longrightarrow> pn v < Suc b + n \<Longrightarrow> pte_at (mem s1) pt v = pte_at (mem s) pt v"
    and "frames (mem s1) pt (Suc b) n = frames (mem s) pt (Suc b) n"
proof -
  show e: "pte_at (mem s1) pt v = pte_at (mem s) pt v" if "Suc b \<le> pn v" "pn v < Suc b + n" for v
    using assms that pn_bound_MAXVA [of v "Suc b" n] by (auto simp: unmapped_range_def)
  show "frames (mem s1) pt (Suc b) n = frames (mem s) pt (Suc b) n"
    unfolding frames_def by (rule image_cong) (auto simp: e cong: conj_cong)
qed

lemma frames_Suc:
  assumes "pn a = b" and "a < MAXVA"
  shows "frames m pt b (Suc n) =
    (if pte_at m pt a AND PTE_V \<noteq> 0 then {PTE2PA (pte_at m pt a)} else {}) \<union> frames m pt (Suc b) n"
proof -
  have e: "pte_at m pt v = pte_at m pt a" if "pn v = b" for v
  proof (rule pte_at_page)
    show "v < MAXVA" using that assms by (simp add: MAXVA_pn)
  qed (use that assms in auto)
  have "{v. b \<le> pn v \<and> pn v < b + Suc n \<and> pte_at m pt v AND PTE_V \<noteq> 0} =
      (if pte_at m pt a AND PTE_V \<noteq> 0 then {v. pn v = b} else {}) \<union>
      {v. Suc b \<le> pn v \<and> pn v < Suc b + n \<and> pte_at m pt v AND PTE_V \<noteq> 0}" (is "?L = ?R")
  proof (rule set_eqI)
    fix v
    show "v \<in> ?L \<longleftrightarrow> v \<in> ?R"
    proof (cases "pn v = b")
      case True
      then show ?thesis using e [of v] by simp
    next
      case False
      then have "b \<le> pn v \<longleftrightarrow> Suc b \<le> pn v" by auto
      with False show ?thesis by simp
    qed
  qed
  moreover have "(\<lambda>v. PTE2PA (pte_at m pt v)) ` {v. pn v = b} = {PTE2PA (pte_at m pt a)}"
  proof -
    have "(\<lambda>v. PTE2PA (pte_at m pt v)) ` {v. pn v = b} = (\<lambda>v. PTE2PA (pte_at m pt a)) ` {v. pn v = b}"
      by (rule image_cong, rule refl) (simp add: e)
    also have "\<dots> = {PTE2PA (pte_at m pt a)}" using assms(1) by auto
    finally show ?thesis .
  qed
  ultimately show ?thesis unfolding frames_def by (simp add: image_Un)
qed


lemma frames_ok_tail:
  assumes "frames_ok s pt fr b (Suc n)" and "unmapped_range pt b 1 s s1" and "vm_shrink pt s fr s1 fs"
    and "Suc b + n \<le> 67108864" and "pn a = b" and "a < MAXVA"
    and "set fs = (if pte_at (mem s) pt a AND PTE_V \<noteq> 0 then {PTE2PA (pte_at (mem s) pt a)} else {})"
  shows "frames_ok s1 pt (fs @ fr) (Suc b) n"
proof -
  note tl = frames_tail [OF assms(2,4)]
  have sub: "frames (mem s) pt (Suc b) n \<subseteq> frames (mem s) pt b (Suc n)"
    using frames_Suc [OF assms(5,6)] by simp
  have k: "kpage s1 f = kpage s f" for f
    using assms(3) kframe_kend by (intro kpage_cong) (auto simp: vm_shrink_def)
  have nodes: "pt_nodes (mem s1) pt = pt_nodes (mem s) pt" using assms(3) by (simp add: vm_shrink_def)
  have inj: "pn v = pn v'" if "b \<le> pn v" "pn v < b + Suc n" "b \<le> pn v'" "pn v' < b + Suc n"
      "pte_at (mem s) pt v AND PTE_V \<noteq> 0" "pte_at (mem s) pt v' AND PTE_V \<noteq> 0"
      "PTE2PA (pte_at (mem s) pt v) = PTE2PA (pte_at (mem s) pt v')" for v v'
    using assms(1) that unfolding frames_ok_def by blast
  have "f \<notin> set fs" if f: "f \<in> frames (mem s) pt (Suc b) n" for f
  proof
    assume "f \<in> set fs"
    then have a: "pte_at (mem s) pt a AND PTE_V \<noteq> 0" "f = PTE2PA (pte_at (mem s) pt a)"
      using assms(7) by (auto split: if_splits)
    from f obtain v where "Suc b \<le> pn v" "pn v < Suc b + n" "pte_at (mem s) pt v AND PTE_V \<noteq> 0"
        "f = PTE2PA (pte_at (mem s) pt v)" by (auto simp: frames_def)
    with inj [of v a] a assms(5) show False by simp
  qed
  with sub assms(1) have "\<forall>f \<in> frames (mem s1) pt (Suc b) n. kpage s1 f \<and> f \<notin> set (fs @ fr) \<and> f \<notin> pt_nodes (mem s1) pt"
    unfolding frames_ok_def tl(2) k nodes by auto
  moreover have "pn v = pn v'" if "Suc b \<le> pn v" "pn v < Suc b + n" "Suc b \<le> pn v'" "pn v' < Suc b + n"
      "pte_at (mem s1) pt v AND PTE_V \<noteq> 0" "pte_at (mem s1) pt v' AND PTE_V \<noteq> 0"
      "PTE2PA (pte_at (mem s1) pt v) = PTE2PA (pte_at (mem s1) pt v')" for v v'
    using that inj [of v v'] tl(1) by simp
  ultimately show ?thesis unfolding frames_ok_def by blast
qed

lemma uvmunmap_loop_spec:
  assumes "vm_ok s pt fr" and "page_aligned a" and "unat a + 4096 * n \<le> 274877906944"
    and "do_free \<longrightarrow> frames_ok s pt fr (pn a) n" and "end_va = a + of_nat n * PGSIZE"
  shows "\<exists>s' fs. uvmunmap_loop pt a end_va do_free s = Some s' \<and> vm_shrink pt s fr s' fs \<and>
    set fs = (if do_free then frames (mem s) pt (pn a) n else {}) \<and> unmapped_range pt (pn a) n s s'"
  using assms
proof (induction n arbitrary: a s fr)
  case 0
  then have "uvmunmap_loop pt a end_va do_free s = Some s" by (simp add: uvmunmap_loop.simps [of pt a])
  moreover have "vm_shrink pt s fr s []" using 0 by (simp add: vm_shrink_def)
  ultimately show ?case by (intro exI [of _ s] exI [of _ "[]"]) (auto simp: frames_def unmapped_range_def)
next
  case (Suc n)
  have a: "a < MAXVA" using Suc.prems by (simp add: MAXVA_val word_less_nat_alt)
  have st: "page_aligned (a + PGSIZE)" "unat (a + PGSIZE) = unat a + 4096" "pn (a + PGSIZE) = Suc (pn a)"
    using page_step Suc.prems by auto
  have lt: "a < end_va"
  proof -
    have "unat (of_nat (Suc n) * PGSIZE :: u64) = Suc n * 4096"
      using Suc.prems(3) by (simp add: unat_word_ariths PGSIZE_def)
    then have "unat end_va = unat a + Suc n * 4096"
      using Suc.prems(3,5) by (simp add: unat_word_ariths)
    then show ?thesis by (simp add: word_less_nat_alt)
  qed
  have b: "Suc (pn a) + n \<le> 67108864"
    using Suc.prems(2,3) by (elim page_alignedE) (simp add: pn_def)
  let ?f = "PTE2PA (pte_at (mem s) pt a)"
  have "do_free \<and> pte_at (mem s) pt a AND PTE_V \<noteq> 0 \<longrightarrow> kpage s ?f \<and> ?f \<notin> set fr \<and> ?f \<notin> pt_nodes (mem s) pt"
    using Suc.prems(4) frames_Suc [OF refl a] by (auto simp: frames_ok_def)
  from unmap_page_spec [OF Suc.prems(1) a this]
  obtain s1 fs where s1: "unmap_page pt a do_free s = Some s1" "vm_shrink pt s fr s1 fs"
      "set fs = (if do_free \<and> pte_at (mem s) pt a AND PTE_V \<noteq> 0 then {?f} else {})"
      "unmapped_range pt (pn a) 1 s s1" by blast
  have "\<exists>s' fs'. uvmunmap_loop pt (a + PGSIZE) end_va do_free s1 = Some s' \<and>
      vm_shrink pt s1 (fs @ fr) s' fs' \<and>
      set fs' = (if do_free then frames (mem s1) pt (pn (a + PGSIZE)) n else {}) \<and>
      unmapped_range pt (pn (a + PGSIZE)) n s1 s'"
  proof (rule Suc.IH)
    show "vm_ok s1 pt (fs @ fr)" using s1(2) by (simp add: vm_shrink_def)
    show "do_free \<longrightarrow> frames_ok s1 pt (fs @ fr) (pn (a + PGSIZE)) n"
      using frames_ok_tail [OF _ s1(4,2) b refl a] Suc.prems(4) s1(3) st(3) by simp
    show "end_va = a + PGSIZE + of_nat n * PGSIZE" using Suc.prems(5) by (simp add: algebra_simps)
  qed (use st Suc.prems in auto)
  then obtain s' fs' where r: "uvmunmap_loop pt (a + PGSIZE) end_va do_free s1 = Some s'"
      "vm_shrink pt s1 (fs @ fr) s' fs'"
      "set fs' = (if do_free then frames (mem s) pt (Suc (pn a)) n else {})"
      "unmapped_range pt (Suc (pn a)) n s1 s'"
    using st(3) frames_tail(2) [OF s1(4) b] by auto
  have "uvmunmap_loop pt a end_va do_free s = Some s'"
    using lt s1(1) r(1) by (simp add: uvmunmap_loop.simps [of pt a])
  moreover have "set (fs' @ fs) = (if do_free then frames (mem s) pt (pn a) (Suc n) else {})"
    using r(3) s1(3) frames_Suc [OF refl a] by auto
  ultimately show ?case
    using vm_shrink_trans [OF s1(2) r(2)] unmapped_range_Suc [OF s1(4) r(4)]
    by (intro exI [of _ s'] exI [of _ "fs' @ fs"] conjI)
qed

lemma uvmunmap_spec:
  assumes "vm_ok s pt fr" and "page_aligned a" and "unat a + 4096 * n \<le> 274877906944"
    and "do_free \<longrightarrow> frames_ok s pt fr (pn a) n"
  obtains s' fs where "uvmunmap pt a (of_nat n) do_free s = Some s'" "vm_shrink pt s fr s' fs"
    "set fs = (if do_free then frames (mem s) pt (pn a) n else {})" "unmapped_range pt (pn a) n s s'"
proof -
  have "uvmunmap pt a (of_nat n) do_free s = uvmunmap_loop pt a (a + of_nat n * PGSIZE) do_free s"
    using assms(2) by (simp add: uvmunmap_def page_aligned_def)
  moreover obtain s' fs where "uvmunmap_loop pt a (a + of_nat n * PGSIZE) do_free s = Some s'"
      "vm_shrink pt s fr s' fs" "set fs = (if do_free then frames (mem s) pt (pn a) n else {})"
      "unmapped_range pt (pn a) n s s'"
    using uvmunmap_loop_spec [OF assms refl] by blast
  ultimately show thesis by (intro that) simp_all
qed


section \<open>Empty page tables\<close>

lemma empty_table:
  assumes "page_aligned pt" and "pt \<noteq> 0" and "\<And>a. pn a = pn pt \<Longrightarrow> aligned8 a \<Longrightarrow> read64 m a = 0"
  shows "pt_nodes m pt = {pt}" and "pt_wf m pt" and "pte_at m pt va = 0"
proof -
  have z: "read64 m (slot pt l va) = 0" for l va using assms by simp
  have one: "pt_node m pt va (Suc d) = None" for va d
    by (induction d) (simp_all add: z)
  then have node: "pt_node m pt va d = Some n \<longleftrightarrow> d = 0 \<and> n = pt" for va d n
    by (cases d) (auto simp del: pt_node.simps(2))
  then show nodes: "pt_nodes m pt = {pt}" by (auto simp: pt_nodes_def)
  show "pt_wf m pt" using assms by (auto simp: pt_wf_def nodes node same_path_def)
  show "pte_at m pt va = 0" using one [of va 1] by (simp add: pte_at_def numeral_2_eq_2 del: pt_node.simps)
qed

section \<open>Properties\<close>

text \<open>
  C10: on a well-formed page table, \<^verbatim>\<open>mappages\<close> of an unmapped page-aligned range below \<^verbatim>\<open>MAXVA\<close>
  terminates; it returns 0 with exactly that range mapped, page by page, to consecutive physical
  pages with the given permissions and every other mapping unchanged, or returns -1, and then
  only because physical memory ran out. The table stays a tree, and memory outside the table's
  own pages is unchanged.
\<close>

theorem mappages_maps_exactly_the_range:
  assumes "vm_ok s pt fr" and "page_aligned va" and "0 < n" and "unat va + 4096 * n \<le> unat MAXVA"
    and "\<forall>v. pn va \<le> pn v \<and> pn v < pn va + n \<longrightarrow> pte_at (mem s) pt v AND PTE_V = 0"
  shows "\<exists>r s' fr'. mappages pt va (of_nat n * PGSIZE) pa perm s = Some (r, s') \<and> vm_ext pt s fr s' fr' \<and>
    (r = 0 \<and> (\<forall>v < MAXVA. pte_at (mem s') pt v =
        (if pn va \<le> pn v \<and> pn v < pn va + n
         then PA2PTE (pa + of_nat (pn v - pn va) * PGSIZE) OR perm OR PTE_V else pte_at (mem s) pt v))
     \<or> r = - 1 \<and> fr' = [] \<and> length fr < 2 * n)"
proof -
  have "unat MAXVA = 274877906944" by (simp add: MAXVA_val)
  with mappages_spec [OF assms(1-3) _ assms(5), of pa perm] assms(4)
  obtain r s' fr' k where "mappages pt va (of_nat n * PGSIZE) pa perm s = Some (r, s')"
      "vm_ext pt s fr s' fr'" "mapped_range pt va k pa perm s s'"
      "r = 0 \<and> k = n \<or> r = - 1 \<and> k < n \<and> fr' = [] \<and> length fr < 2 * n" by auto
  then show ?thesis
    by (intro exI [of _ r] exI [of _ s'] exI [of _ fr']) (auto simp: mapped_range_def map_pte_def)
qed

text \<open>A kernel with an empty page table at \<open>0x80022000\<close> and two free pages.\<close>

definition small_vm :: kmem where
  "small_vm = \<lparr>lk = boot_lk, kend = 0x80020000, freelist = 0x80021000,
     mem = write64 (\<lambda>_. 0) 0x80021000 0x80023000\<rparr>"

lemma small_vm_read:
  "read64 (mem small_vm) a = 0" if "aligned8 a" "a \<noteq> 0x80021000"
  using that by (simp add: small_vm_def read64_write64_other aligned8_def)

lemma small_vm_ok: "vm_ok small_vm 0x80022000 [0x80021000, 0x80023000]"
  and small_vm_unmapped: "pte_at (mem small_vm) 0x80022000 v = 0"
proof -
  have e: "read64 (mem small_vm) a = 0" if "pn a = pn 0x80022000" "aligned8 a" for a
    using that by (intro small_vm_read) (auto simp: pn_def)
  have pt: "page_aligned 0x80022000" by (simp add: page_aligned_def PGSIZE_def)
  note tbl = empty_table [OF pt, of "mem small_vm"]
  have "freelist_rep small_vm [0x80021000, 0x80023000]"
    using small_vm_read [of "0x80023000"]
    by (simp add: freelist_rep_def kpage_def page_aligned_def PGSIZE_def PHYSTOP_def KERNBASE_def aligned8_def)
      (simp add: small_vm_def)
  then show "vm_ok small_vm 0x80022000 [0x80021000, 0x80023000]"
    using tbl(1,2) e by (auto simp: vm_ok_def kmem_avail_def) (simp_all add: small_vm_def)
  show "pte_at (mem small_vm) 0x80022000 v = 0" using tbl(3) e by simp
qed

theorem mappages_maps_exactly_the_range_witness:
  "\<exists>s'. mappages 0x80022000 0x1000 PGSIZE 0x80030000 PTE_R small_vm = Some (0, s') \<and>
     pte_at (mem s') 0x80022000 0x1234 = PA2PTE 0x80030000 OR PTE_R OR PTE_V"
proof -
  have "\<exists>r s' fr'. mappages 0x80022000 0x1000 (of_nat 1 * PGSIZE) 0x80030000 PTE_R small_vm = Some (r, s') \<and>
    vm_ext 0x80022000 small_vm [0x80021000, 0x80023000] s' fr' \<and>
    (r = 0 \<and> (\<forall>v < MAXVA. pte_at (mem s') 0x80022000 v =
        (if pn 0x1000 \<le> pn v \<and> pn v < pn 0x1000 + 1
         then PA2PTE (0x80030000 + of_nat (pn v - pn 0x1000) * PGSIZE) OR PTE_R OR PTE_V
         else pte_at (mem small_vm) 0x80022000 v))
     \<or> r = - 1 \<and> fr' = [] \<and> length [0x80021000 :: u64, 0x80023000] < 2 * 1)"
    by (rule mappages_maps_exactly_the_range [OF small_vm_ok])
      (simp_all add: page_aligned_def PGSIZE_def small_vm_unmapped MAXVA_val)
  then obtain s' where "mappages 0x80022000 0x1000 PGSIZE 0x80030000 PTE_R small_vm = Some (0, s')"
      "\<forall>v < MAXVA. pn v = 1 \<longrightarrow> pte_at (mem s') 0x80022000 v = PA2PTE 0x80030000 OR PTE_R OR PTE_V"
    by (auto simp: pn_def)
  moreover have "(0x1234 :: u64) < MAXVA" "pn 0x1234 = 1" by (simp_all add: MAXVA_val pn_def)
  ultimately show ?thesis by blast
qed



end
