(* ===== verification/Vmframe.thy ===== *)
theory Vmframe
  imports Addrspace
begin

text \<open>
  The memory operations change only the lock state, the memory and the free list, whatever state
  they start from. Components that extend the kernel state use this to carry their own fields
  across calls into \<^verbatim>\<open>vm.c\<close> and \<^verbatim>\<open>kalloc.c\<close>.
\<close>

lemma acquire_kframe: "acquire L s = Some s' \<Longrightarrow> kframe s s'"
  by (elim acquire_SomeE) simp

lemma release_kframe: "release L s = Some s' \<Longrightarrow> kframe s s'"
  by (auto simp: release_def)

lemma kalloc_kframe: "kalloc s = Some (r, s') \<Longrightarrow> kframe s s'"
  unfolding kalloc_def Let_def
  by (auto simp: Option.bind_eq_Some_conv split: if_splits dest!: acquire_kframe release_kframe
      intro: kframe_trans)

lemma kfree_kframe: "kfree p s = Some s' \<Longrightarrow> kframe s s'"
  unfolding kfree_def Let_def
  by (auto simp: Option.bind_eq_Some_conv split: if_splits dest!: acquire_kframe release_kframe
      intro: kframe_trans)

lemma walk_loop_kframe: "walk_loop l pt va alloc s = Some (r, s') \<Longrightarrow> kframe s s'"
proof (induction l pt va alloc s arbitrary: r s' rule: walk_loop.induct)
  case (1 pt va alloc s)
  then show ?case by simp
next
  case (2 l pt va alloc s)
  let ?e = "read64 (mem s) (slot pt (Suc l) va)"
  consider "?e AND PTE_V \<noteq> 0" | "?e AND PTE_V = 0" "\<not> alloc" | "?e AND PTE_V = 0" "alloc" by blast
  then show ?case
  proof cases
    case 1
    then show ?thesis using 2 by (simp add: Let_def)
  next
    case c: 2
    then show ?thesis using 2 by (simp add: Let_def)
  next
    case 3
    then obtain q s1 where k: "kalloc s = Some (q, s1)" using 2(3) by (auto simp: Let_def Option.bind_eq_Some_conv)
    note f = kalloc_kframe [OF k]
    show ?thesis
    proof (cases "q = 0")
      case True
      then show ?thesis using 3 2(3) k f by (simp add: Let_def)
    next
      case False
      let ?s = "s1\<lparr>mem := write64 (memset (mem s1) q 0 4096) (slot pt (Suc l) va) (PA2PTE q OR PTE_V)\<rparr>"
      have "walk_loop l q va alloc ?s = Some (r, s')" using 3 2(3) k False by (simp add: Let_def)
      then have "kframe ?s s'" using 2(2) [OF refl refl] 3 k False by (simp add: Let_def)
      then show ?thesis using f by (simp add: kframe_trans [of s s1])
    qed
  qed
qed

lemma walk_kframe: "walk pt va alloc s = Some (r, s') \<Longrightarrow> kframe s s'"
  by (auto simp: walk_def dest: walk_loop_kframe split: if_splits)

lemma mappages_loop_kframe: "mappages_loop pt a last_a pa perm s = Some (r, s') \<Longrightarrow> kframe s s'"
proof (induction pt a last_a pa perm s arbitrary: r s' rule: mappages_loop.induct)
  case (1 pt a last_a pa perm s)
  from 1(2) obtain q s1 where w: "walk pt a True s = Some (q, s1)"
    by (auto simp: mappages_loop.simps [of pt a] Option.bind_eq_Some_conv)
  note f = walk_kframe [OF w]
  let ?s = "s1\<lparr>mem := write64 (mem s1) q (PA2PTE pa OR perm OR PTE_V)\<rparr>"
  consider "q = 0" | "q \<noteq> 0" "a = last_a" | "q \<noteq> 0" "a \<noteq> last_a" by blast
  then show ?case
  proof cases
    case 1
    then show ?thesis using \<open>mappages_loop pt a last_a pa perm s = Some (r, s')\<close> w f
      by (simp add: mappages_loop.simps [of pt a])
  next
    case 2
    then show ?thesis using \<open>mappages_loop pt a last_a pa perm s = Some (r, s')\<close> w f
      by (auto simp: mappages_loop.simps [of pt last_a] split: if_splits)
  next
    case 3
    then have v: "read64 (mem s1) q AND PTE_V = 0"
      and "mappages_loop pt (a + PGSIZE) last_a (pa + PGSIZE) perm ?s = Some (r, s')"
      using \<open>mappages_loop pt a last_a pa perm s = Some (r, s')\<close> w
      by (auto simp: mappages_loop.simps [of pt a] split: if_splits)
    then have "kframe ?s s'" using 1(1) w 3 by simp
    then show ?thesis using f by (simp add: kframe_trans [of s s1])
  qed
qed

lemma mappages_kframe: "mappages pt va len pa perm s = Some (r, s') \<Longrightarrow> kframe s s'"
  by (auto simp: mappages_def dest: mappages_loop_kframe split: if_splits)

lemma unmap_page_kframe: "unmap_page pt a do_free s = Some s' \<Longrightarrow> kframe s s'"
  by (auto simp: unmap_page_def Option.bind_eq_Some_conv Let_def split: if_splits
      dest!: walk_kframe kfree_kframe intro: kframe_trans)

lemma uvmunmap_loop_kframe: "uvmunmap_loop pt a e do_free s = Some s' \<Longrightarrow> kframe s s'"
proof (induction pt a e do_free s arbitrary: s' rule: uvmunmap_loop.induct)
  case (1 pt a e do_free s)
  show ?case
  proof (cases "a < e")
    case True
    with 1(2) obtain s1 where "unmap_page pt a do_free s = Some s1" "uvmunmap_loop pt (a + PGSIZE) e do_free s1 = Some s'"
      by (auto simp: uvmunmap_loop.simps [of pt a] Option.bind_eq_Some_conv)
    with 1(1) True show ?thesis by (blast intro: unmap_page_kframe kframe_trans)
  next
    case False
    with 1(2) show ?thesis by (simp add: uvmunmap_loop.simps [of pt a])
  qed
qed

lemma uvmunmap_kframe: "uvmunmap pt va n do_free s = Some s' \<Longrightarrow> kframe s s'"
  by (auto simp: uvmunmap_def dest: uvmunmap_loop_kframe split: if_splits)

lemma freewalk_kframe: "freewalk n pt (s :: 'z kmem_scheme) = Some s' \<Longrightarrow> kframe s s'"
proof (induction n arbitrary: pt s s')
  case 0
  then show ?case by simp
next
  case (Suc n)
  let ?b = "\<lambda>i (s :: 'z kmem_scheme). let pte = read64 (mem s) (pt + 8 * of_nat i) in
            if pte AND PTE_V \<noteq> 0 \<and> pte AND (PTE_R OR PTE_W OR PTE_X) = 0
            then do { s \<leftarrow> freewalk n (PTE2PA pte) s;
                      Some (s\<lparr>mem := write64 (mem s) (pt + 8 * of_nat i) 0\<rparr>) }
            else if pte AND PTE_V \<noteq> 0 then None
            else Some s"
  from Suc.prems obtain s1 where s1: "for_each [0..<512] ?b s = Some s1" "kfree pt s1 = Some s'"
    by (auto simp: Option.bind_eq_Some_conv)
  have step: "kframe t t'" if "?b i t = Some t'" for i t t'
    using that by (auto dest: Suc.IH simp: Let_def Option.bind_eq_Some_conv split: if_splits)
  have "kframe s s1"
  proof (rule for_each_partial [OF s1(1), where I = "kframe s"])
    show "kframe s s" by simp
    show "kframe s t'" if "kframe s t" "?b i t = Some t'" for i t t'
      using that(1) step [OF that(2)] by (rule kframe_trans)
  qed
  then show ?case using kfree_kframe [OF s1(2)] by (rule kframe_trans)
qed

lemma uvmfree_kframe: "uvmfree pt sz s = Some s' \<Longrightarrow> kframe s s'"
  unfolding uvmfree_def
  by (auto simp: Option.bind_eq_Some_conv split: if_splits intro: kframe_trans
      dest!: uvmunmap_kframe freewalk_kframe)


end
