(* ===== verification/Proctab.thy ===== *)
theory Proctab
  imports Vmframe
begin

text \<open>
  \<^verbatim>\<open>kernel/proc.h\<close>, \<^verbatim>\<open>kernel/shm.h\<close> (the per-process part) and the globals of \<^verbatim>\<open>kernel/proc.c\<close>: the
  process table and what hangs off it. A pointer into the table is the index of the entry, a
  sleep channel is named by the kernel object whose address the code uses.
\<close>

section \<open>Data\<close>

datatype procstate = UNUSED | USED | SLEEPING | RUNNABLE | RUNNING | ZOMBIE

datatype chan =
    ChProc nat | ChTicks | ChPipeRead u64 | ChPipeWrite u64 | ChLog | ChSleep sleepid
  | ChConsR | ChDisk nat | ChDiskFree | ChTx

record kcontext =
  ctx_ra :: u64
  ctx_sp :: u64
  ctx_s :: "u64 list"

record shmattach =
  sa_key :: int
  sa_uva :: u64
  sa_npages :: int

record proc =
  p_state :: procstate
  p_chan :: "chan option"
  p_killed :: int
  p_xstate :: int
  p_pid :: int
  p_parent :: "nat option"
  p_kstack :: u64
  p_sz :: u64
  p_pagetable :: u64
  p_trapframe :: u64
  p_context :: kcontext
  p_ofile :: "nat option list"
  p_cwd :: "nat option"
  p_name :: "u8 list"
  p_priority :: int
  p_ctime :: u32
  p_rtime :: u32
  p_stime :: u32
  p_shm :: "shmattach list"

definition NPROC :: nat where "NPROC = 64"
definition NOFILE :: nat where "NOFILE = 16"

text \<open>
  \<open>trampoline\<close> and \<open>forkret_addr\<close> are link-time addresses of kernel code.
\<close>

record kproc = kmem +
  procs :: "proc list"
  initproc :: "nat option"
  nextpid :: int
  readcount :: int
  ticks :: u32
  trampoline :: u64
  forkret_addr :: u64

definition upd_proc :: "nat \<Rightarrow> (proc \<Rightarrow> proc) \<Rightarrow> 'z kproc_scheme \<Rightarrow> 'z kproc_scheme" where
  "upd_proc p f s = s\<lparr>procs := (procs s)[p := f (procs s ! p)]\<rparr>"

section \<open>User memory\<close>

text \<open>
  \<^verbatim>\<open>vmfault\<close> maps into the page table of the running process, whichever page table it was asked
  about. Its parameter \<^verbatim>\<open>read\<close> is not used by the code.
\<close>

definition vmfault :: "u64 \<Rightarrow> u64 \<Rightarrow> bool \<Rightarrow> 'z kproc_scheme \<Rightarrow> (u64 \<times> 'z kproc_scheme) option" where
  "vmfault pagetable va read s =
     do { p \<leftarrow> myproc s;
          if va \<ge> p_sz (procs s ! p) then Some (0, s)
          else let va = PGROUNDDOWN va in
            do { (b, s) \<leftarrow> ismapped pagetable va s;
                 if b then Some (0, s)
                 else do { (m, s) \<leftarrow> kalloc s;
                           if m = 0 then Some (0, s)
                           else let s = s\<lparr>mem := memset (mem s) m 0 4096\<rparr> in
                             do { (r, s) \<leftarrow> mappages (p_pagetable (procs s ! p)) va PGSIZE m
                                     (PTE_W OR PTE_U OR PTE_R) s;
                                  if r \<noteq> 0 then do { s \<leftarrow> kfree m s; Some (0, s) }
                                  else Some (m, s) } } } }"

text \<open>The bytes from \<open>a\<close> to the end of its page, at most \<open>len\<close>.\<close>

definition chunk :: "u64 \<Rightarrow> nat \<Rightarrow> nat" where
  "chunk a len = min (unat (PGSIZE - (a - PGROUNDDOWN a))) len"

lemma page_offset: "unat (a - PGROUNDDOWN a) = unat a mod 4096"
proof -
  have "PGROUNDDOWN a \<le> a" by (simp add: word_le_nat_alt unat_PGROUNDDOWN)
  then show ?thesis
    by (simp add: unat_sub unat_PGROUNDDOWN)
qed

lemma chunk_room: "unat (PGSIZE - (a - PGROUNDDOWN a)) = 4096 - unat a mod 4096"
proof -
  have "unat a mod 4096 < 4096" by simp
  then have "a - PGROUNDDOWN a \<le> PGSIZE"
    using page_offset [of a] by (simp add: word_le_nat_alt)
  then show ?thesis by (simp add: unat_sub page_offset)
qed

lemma chunk_pos: "0 < len \<Longrightarrow> 0 < chunk a len"
  by (simp add: chunk_def chunk_room)

lemma chunk_le: "chunk a len \<le> len"
  by (simp add: chunk_def)

text \<open>
  \<^verbatim>\<open>copyout\<close> takes the bytes of the kernel buffer. A null result of its second walk is
  dereferenced by the code; address 0 is not mapped in the kernel, so that is a kernel fault.
\<close>

function copyout :: "u64 \<Rightarrow> u64 \<Rightarrow> u8 list \<Rightarrow> 'z kproc_scheme \<Rightarrow> (int \<times> 'z kproc_scheme) option" where
  "copyout pagetable dstva src s =
     (if length src > 0
      then let va0 = PGROUNDDOWN dstva in
        if va0 \<ge> MAXVA then Some (- 1, s)
        else do { (pa0, s) \<leftarrow> walkaddr pagetable va0 s;
                  (pa0, s) \<leftarrow> (if pa0 = 0 then vmfault pagetable va0 False s else Some (pa0, s));
                  if pa0 = 0 then Some (- 1, s)
                  else do { (pte, s) \<leftarrow> walk pagetable va0 False s;
                            if pte = 0 then None
                            else if read64 (mem s) pte AND PTE_W = 0 then Some (- 1, s)
                            else let n = chunk dstva (length src);
                                     s = s\<lparr>mem := write_bytes (mem s) (pa0 + (dstva - va0)) (take n src)\<rparr>
                                 in copyout pagetable (va0 + PGSIZE) (drop n src) s } }
      else Some (0, s))"
  by pat_completeness auto
termination
  by (relation "measure (\<lambda>(pt, dst, src, s). length src)") (auto simp: chunk_pos)

declare copyout.simps [simp del]

text \<open>\<^verbatim>\<open>copyin\<close> returns the bytes it stored at \<^verbatim>\<open>dst\<close>, also when it fails half way.\<close>

function copyin :: "u64 \<Rightarrow> u64 \<Rightarrow> nat \<Rightarrow> 'z kproc_scheme \<Rightarrow> ((int \<times> u8 list) \<times> 'z kproc_scheme) option" where
  "copyin pagetable srcva len s =
     (if len > 0
      then let va0 = PGROUNDDOWN srcva in
        do { (pa0, s) \<leftarrow> walkaddr pagetable va0 s;
             (pa0, s) \<leftarrow> (if pa0 = 0 then vmfault pagetable va0 False s else Some (pa0, s));
             if pa0 = 0 then Some ((- 1, []), s)
             else let n = chunk srcva len;
                      bs = read_bytes (mem s) (pa0 + (srcva - va0)) n
                  in do { ((r, bs'), s) \<leftarrow> copyin pagetable (va0 + PGSIZE) (len - n) s;
                          Some ((r, bs @ bs'), s) } }
      else Some ((0, []), s))"
  by pat_completeness auto
termination
  by (relation "measure (\<lambda>(pt, src, len, s). len)") (auto simp: chunk_pos)

declare copyin.simps [simp del]

text \<open>The inner loop of \<^verbatim>\<open>copyinstr\<close>: copy up to \<open>n\<close> bytes, stop after a NUL.\<close>

fun copy_to_nul :: "memory \<Rightarrow> u64 \<Rightarrow> nat \<Rightarrow> u8 list \<times> bool" where
  "copy_to_nul m p 0 = ([], False)"
| "copy_to_nul m p (Suc n) =
     (if m p = 0 then ([0], True)
      else let (bs, got_null) = copy_to_nul m (p + 1) n in (m p # bs, got_null))"

function copyinstr :: "u64 \<Rightarrow> u64 \<Rightarrow> nat \<Rightarrow> 'z kproc_scheme \<Rightarrow> ((int \<times> u8 list) \<times> 'z kproc_scheme) option" where
  "copyinstr pagetable srcva maxlen s =
     (if maxlen > 0
      then let va0 = PGROUNDDOWN srcva in
        do { (pa0, s) \<leftarrow> walkaddr pagetable va0 s;
             if pa0 = 0 then Some ((- 1, []), s)
             else let n = chunk srcva maxlen;
                      (bs, got_null) = copy_to_nul (mem s) (pa0 + (srcva - va0)) n
                  in if got_null then Some ((0, bs), s)
                     else do { ((r, bs'), s) \<leftarrow> copyinstr pagetable (va0 + PGSIZE) (maxlen - n) s;
                               Some ((r, bs @ bs'), s) } }
      else Some ((- 1, []), s))"
  by pat_completeness auto
termination
  by (relation "measure (\<lambda>(pt, src, maxlen, s). maxlen)") (auto simp: chunk_pos)

declare copyinstr.simps [simp del]

definition either_copyout :: "bool \<Rightarrow> u64 \<Rightarrow> u8 list \<Rightarrow> 'z kproc_scheme \<Rightarrow> (int \<times> 'z kproc_scheme) option" where
  "either_copyout user_dst dst src s =
     (if user_dst then do { p \<leftarrow> myproc s; copyout (p_pagetable (procs s ! p)) dst src s }
      else Some (0, s\<lparr>mem := write_bytes (mem s) dst src\<rparr>))"

definition either_copyin :: "bool \<Rightarrow> u64 \<Rightarrow> nat \<Rightarrow> 'z kproc_scheme \<Rightarrow> ((int \<times> u8 list) \<times> 'z kproc_scheme) option" where
  "either_copyin user_src src len s =
     (if user_src then do { p \<leftarrow> myproc s; copyin (p_pagetable (procs s ! p)) src len s }
      else Some ((0, read_bytes (mem s) src len), s))"


section \<open>Frames\<close>

lemma kstrip_kproc [simp]:
  "procs (kstrip s) = procs s" "initproc (kstrip s) = initproc s" "nextpid (kstrip s) = nextpid s"
  "readcount (kstrip s) = readcount s" "ticks (kstrip s) = ticks s" "trampoline (kstrip s) = trampoline s"
  "forkret_addr (kstrip s) = forkret_addr s"
  by (simp_all add: kstrip_def)

lemma kframe_kproc:
  assumes "kframe (s :: 'z kproc_scheme) s'"
  shows "procs s' = procs s" "initproc s' = initproc s" "nextpid s' = nextpid s" "readcount s' = readcount s"
    "ticks s' = ticks s" "trampoline s' = trampoline s" "forkret_addr s' = forkret_addr s"
  using assms unfolding kframe_def by (metis kstrip_kproc)+

lemma walkaddr_kframe: "walkaddr pt va s = Some (r, s') \<Longrightarrow> kframe s s'"
  unfolding walkaddr_def
  by (auto simp: Option.bind_eq_Some_conv Let_def split: if_splits dest: walk_kframe)

lemma ismapped_kframe: "ismapped pt va s = Some (r, s') \<Longrightarrow> kframe s s'"
  unfolding ismapped_def
  by (auto simp: Option.bind_eq_Some_conv split: if_splits dest: walk_kframe)

lemma vmfault_kframe: "vmfault pt va rd s = Some (r, s') \<Longrightarrow> kframe s s'"
  unfolding vmfault_def
  by (auto simp: Option.bind_eq_Some_conv Let_def kframe_def split: if_splits
      dest!: ismapped_kframe kalloc_kframe mappages_kframe kfree_kframe)

lemma copyout_kframe: "copyout pt dst src s = Some (r, s') \<Longrightarrow> kframe s s'"
proof (induction pt dst src s arbitrary: r s' rule: copyout.induct)
  case (1 pt dst src s)
  show ?case
  proof (cases "length src > 0 \<and> \<not> PGROUNDDOWN dst \<ge> MAXVA")
    case False
    with 1(2) show ?thesis by (auto simp: copyout.simps [of pt dst] Let_def split: if_splits)
  next
    case True
    with 1(2) obtain pa s1 where w: "walkaddr pt (PGROUNDDOWN dst) s = Some (pa, s1)"
      by (auto simp: copyout.simps [of pt dst] Let_def Option.bind_eq_Some_conv)
    with 1(2) True obtain pa2 s2 where f:
      "(if pa = 0 then vmfault pt (PGROUNDDOWN dst) False s1 else Some (pa, s1)) = Some (pa2, s2)"
      by (auto simp: copyout.simps [of pt dst] Let_def Option.bind_eq_Some_conv split: if_splits)
    have k: "kframe s s2" using walkaddr_kframe [OF w] f
      by (auto dest: vmfault_kframe intro: kframe_trans split: if_splits)
    show ?thesis
    proof (cases "pa2 = 0")
      case True': True
      with 1(2) True w f k show ?thesis
        by (simp add: copyout.simps [of pt dst] Let_def del: Option.bind_eq_Some_conv)
    next
      case pa2: False
      with 1(2) True w f obtain q s3 where q: "walk pt (PGROUNDDOWN dst) False s2 = Some (q, s3)" "q \<noteq> 0"
        by (auto simp: copyout.simps [of pt dst] Let_def Option.bind_eq_Some_conv split: if_splits)
      let ?n = "chunk dst (length src)"
      let ?s = "s3\<lparr>mem := write_bytes (mem s3) (pa2 + (dst - PGROUNDDOWN dst)) (take ?n src)\<rparr>"
      have k3: "kframe s s3" using k walk_kframe [OF q(1)] by (rule kframe_trans)
      show ?thesis
      proof (cases "read64 (mem s3) q AND PTE_W = 0")
        case True': True
        with 1(2) True w f pa2 q k3 show ?thesis by (simp add: copyout.simps [of pt dst] Let_def)
      next
        case rw: False
        have "copyout pt (PGROUNDDOWN dst + PGSIZE) (drop ?n src) ?s = Some (r, s')"
          using 1(2) True w f pa2 q rw by (simp add: copyout.simps [of pt dst] Let_def)
        then have "kframe ?s s'" using 1(1) True w f pa2 q rw by simp
        then show ?thesis using k3 by (simp add: kframe_trans [of s s3])
      qed
    qed
  qed
qed

end
