(* ===== verification/Proc.thy ===== *)
theory Proc
  imports Proctab
begin

text \<open>
  \<^verbatim>\<open>kernel/proc.c\<close>: process allocation and release, the scheduler, sleep and wakeup, wait, the
  priorities, the timing statistics and the process information call. \<^verbatim>\<open>swtch\<close> hands the CPU to
  another kernel thread, so an operation that calls \<^verbatim>\<open>sched\<close> is given in two parts: what it does
  up to the switch, and what it does when it is resumed. The parts of \<^verbatim>\<open>proc.c\<close> that use the file
  system are in a later theory.
\<close>

section \<open>Set-up\<close>

definition proc_mapstacks :: "u64 \<Rightarrow> 'z kproc_scheme \<Rightarrow> 'z kproc_scheme option" where
  "proc_mapstacks kpgtbl s =
     for_each [0..<NPROC] (\<lambda>p s.
       do { (pa, s) \<leftarrow> kalloc s;
            if pa = 0 then None
            else kvmmap kpgtbl (KSTACK p) pa PGSIZE (PTE_R OR PTE_W) s }) s"

definition procinit :: "'z kproc_scheme \<Rightarrow> 'z kproc_scheme" where
  "procinit s =
     (let s = s\<lparr>lk := initlock PidLock ''nextpid'' (lk s)\<rparr>;
          s = s\<lparr>lk := initlock WaitLock ''wait_lock'' (lk s)\<rparr>;
          s = s\<lparr>lk := initlock ReadcountLock ''readcount'' (lk s)\<rparr>
      in fold (\<lambda>p s.
           let s = s\<lparr>lk := initlock (ProcLock p) ''proc'' (lk s)\<rparr>
           in upd_proc p (\<lambda>x. x\<lparr>p_state := UNUSED, p_kstack := KSTACK p\<rparr>) s) [0..<NPROC] s)"

section \<open>Allocating and freeing processes\<close>

definition allocpid :: "'z kproc_scheme \<Rightarrow> (int \<times> 'z kproc_scheme) option" where
  "allocpid s =
     do { s \<leftarrow> acquire PidLock s;
          let pid = nextpid s;
          let s = s\<lparr>nextpid := i32 (nextpid s + 1)\<rparr>;
          s \<leftarrow> release PidLock s;
          Some (pid, s) }"

definition proc_pagetable :: "nat \<Rightarrow> 'z kproc_scheme \<Rightarrow> (u64 \<times> 'z kproc_scheme) option" where
  "proc_pagetable p s =
     do { (pagetable, s) \<leftarrow> uvmcreate s;
          if pagetable = 0 then Some (0, s)
          else do { (r, s) \<leftarrow> mappages pagetable TRAMPOLINE PGSIZE (trampoline s) (PTE_R OR PTE_X) s;
                    if r < 0 then do { s \<leftarrow> uvmfree pagetable 0 s; Some (0, s) }
                    else do { (r, s) \<leftarrow> mappages pagetable TRAPFRAME PGSIZE
                                  (p_trapframe (procs s ! p)) (PTE_R OR PTE_W) s;
                              if r < 0
                              then do { s \<leftarrow> uvmunmap pagetable TRAMPOLINE 1 False s;
                                        s \<leftarrow> uvmfree pagetable 0 s;
                                        Some (0, s) }
                              else Some (pagetable, s) } } }"

definition proc_freepagetable :: "u64 \<Rightarrow> u64 \<Rightarrow> 'z kproc_scheme \<Rightarrow> 'z kproc_scheme option" where
  "proc_freepagetable pagetable sz s =
     do { s \<leftarrow> uvmunmap pagetable TRAMPOLINE 1 False s;
          s \<leftarrow> uvmunmap pagetable TRAPFRAME 1 False s;
          uvmfree pagetable sz s }"

definition freeproc :: "nat \<Rightarrow> 'z kproc_scheme \<Rightarrow> 'z kproc_scheme option" where
  "freeproc p s =
     do { s \<leftarrow> (if p_trapframe (procs s ! p) \<noteq> 0 then kfree (p_trapframe (procs s ! p)) s else Some s);
          let s = upd_proc p (\<lambda>x. x\<lparr>p_trapframe := 0\<rparr>) s;
          s \<leftarrow> (if p_pagetable (procs s ! p) \<noteq> 0
                then proc_freepagetable (p_pagetable (procs s ! p)) (p_sz (procs s ! p)) s else Some s);
          Some (upd_proc p (\<lambda>x. x\<lparr>p_pagetable := 0, p_sz := 0, p_pid := 0, p_parent := None,
            p_name := (p_name x)[0 := 0], p_chan := None, p_killed := 0, p_xstate := 0,
            p_state := UNUSED\<rparr>) s) }"

definition allocproc :: "'z kproc_scheme \<Rightarrow> (nat option \<times> 'z kproc_scheme) option" where
  "allocproc s =
     do { (r, s) \<leftarrow> for_find [0..<NPROC] (\<lambda>p s.
            do { s \<leftarrow> acquire (ProcLock p) s;
                 if p_state (procs s ! p) = UNUSED then Some (Some p, s)
                 else do { s \<leftarrow> release (ProcLock p) s; Some (None, s) } }) s;
          case r of
            None \<Rightarrow> Some (None, s)
          | Some p \<Rightarrow>
              do { (pid, s) \<leftarrow> allocpid s;
                   let s = upd_proc p (\<lambda>x. x\<lparr>p_pid := pid, p_state := USED, p_priority := 10,
                     p_ctime := ticks s, p_rtime := 0, p_stime := 0\<rparr>) s;
                   (tf, s) \<leftarrow> kalloc s;
                   let s = upd_proc p (\<lambda>x. x\<lparr>p_trapframe := tf\<rparr>) s;
                   if tf = 0
                   then do { s \<leftarrow> freeproc p s; s \<leftarrow> release (ProcLock p) s; Some (None, s) }
                   else do { (pt, s) \<leftarrow> proc_pagetable p s;
                             let s = upd_proc p (\<lambda>x. x\<lparr>p_pagetable := pt\<rparr>) s;
                             if pt = 0
                             then do { s \<leftarrow> freeproc p s; s \<leftarrow> release (ProcLock p) s; Some (None, s) }
                             else Some (Some p, upd_proc p (\<lambda>x. x\<lparr>p_context :=
                                    \<lparr>ctx_ra = forkret_addr s, ctx_sp = p_kstack x + PGSIZE,
                                     ctx_s = replicate 12 0\<rparr>\<rparr>) s) } } }"

definition growproc :: "int \<Rightarrow> 'z kproc_scheme \<Rightarrow> (int \<times> 'z kproc_scheme) option" where
  "growproc n s =
     do { p \<leftarrow> myproc s;
          let sz = p_sz (procs s ! p);
          if n > 0 then
            if sz + word_of_int n > TRAPFRAME then Some (- 1, s)
            else do { (sz', s) \<leftarrow> uvmalloc (p_pagetable (procs s ! p)) sz (sz + word_of_int n) PTE_W s;
                      if sz' = 0 then Some (- 1, s)
                      else Some (0, upd_proc p (\<lambda>x. x\<lparr>p_sz := sz'\<rparr>) s) }
          else if n < 0 then
            do { (sz', s) \<leftarrow> uvmdealloc (p_pagetable (procs s ! p)) sz (sz + word_of_int n) s;
                 Some (0, upd_proc p (\<lambda>x. x\<lparr>p_sz := sz'\<rparr>) s) }
          else Some (0, upd_proc p (\<lambda>x. x\<lparr>p_sz := sz\<rparr>) s) }"

section \<open>Switching\<close>

text \<open>
  \<open>sched\<close> runs the checks of \<^verbatim>\<open>sched()\<close> and returns the saved \<^verbatim>\<open>intena\<close> with the state in which the
  CPU goes to its scheduler; \<open>sched_resume\<close> is what \<^verbatim>\<open>sched()\<close> does after \<^verbatim>\<open>swtch\<close> returns.
\<close>

definition sched :: "'z kproc_scheme \<Rightarrow> (bool \<times> 'z kproc_scheme) option" where
  "sched s =
     do { p \<leftarrow> myproc s;
          if \<not> holding (ProcLock p) (lk s) then None
          else if noff (mycpu s) \<noteq> 1 then None
          else if p_state (procs s ! p) = RUNNING then None
          else if sie (lk s) then None
          else Some (intena (mycpu s), s) }"

definition sched_resume :: "bool \<Rightarrow> 'z kproc_scheme \<Rightarrow> 'z kproc_scheme" where
  "sched_resume ie s =
     s\<lparr>lk := (lk s)\<lparr>cpus := (cpus (lk s))(tp (lk s) := (mycpu s)\<lparr>intena := ie\<rparr>)\<rparr>\<rparr>"

definition yield_enter :: "'z kproc_scheme \<Rightarrow> (bool \<times> 'z kproc_scheme) option" where
  "yield_enter s =
     do { p \<leftarrow> myproc s;
          s \<leftarrow> acquire (ProcLock p) s;
          let s = upd_proc p (\<lambda>x. x\<lparr>p_state := RUNNABLE\<rparr>) s;
          sched s }"

definition yield_resume :: "bool \<Rightarrow> 'z kproc_scheme \<Rightarrow> 'z kproc_scheme option" where
  "yield_resume ie s =
     do { let s = sched_resume ie s;
          p \<leftarrow> myproc s;
          release (ProcLock p) s }"

definition sleep_enter :: "chan \<Rightarrow> lock \<Rightarrow> 'z kproc_scheme \<Rightarrow> (bool \<times> 'z kproc_scheme) option" where
  "sleep_enter ch L s =
     do { p \<leftarrow> myproc s;
          s \<leftarrow> acquire (ProcLock p) s;
          s \<leftarrow> release L s;
          let s = upd_proc p (\<lambda>x. x\<lparr>p_chan := Some ch, p_state := SLEEPING\<rparr>) s;
          sched s }"

definition sleep_resume :: "lock \<Rightarrow> bool \<Rightarrow> 'z kproc_scheme \<Rightarrow> 'z kproc_scheme option" where
  "sleep_resume L ie s =
     do { let s = sched_resume ie s;
          p \<leftarrow> myproc s;
          let s = upd_proc p (\<lambda>x. x\<lparr>p_chan := None\<rparr>) s;
          s \<leftarrow> release (ProcLock p) s;
          acquire L s }"

text \<open>
  The result of an operation that may block: it returned, or it sleeps and will be resumed with
  the saved interrupt state.
\<close>

datatype 'a outcome = Done 'a | Asleep bool

definition wakeup :: "chan \<Rightarrow> 'z kproc_scheme \<Rightarrow> 'z kproc_scheme option" where
  "wakeup ch s =
     for_each [0..<NPROC] (\<lambda>p s.
       if Some p \<noteq> myproc s then
         do { s \<leftarrow> acquire (ProcLock p) s;
              let s = (if p_state (procs s ! p) = SLEEPING \<and> p_chan (procs s ! p) = Some ch
                       then upd_proc p (\<lambda>x. x\<lparr>p_state := RUNNABLE\<rparr>) s else s);
              release (ProcLock p) s }
       else Some s) s"

text \<open>
  One round of the loop of \<^verbatim>\<open>scheduler()\<close> up to \<^verbatim>\<open>swtch\<close>, and the code after it. Pass 1 finds the
  best priority, pass 2 the first runnable process that has it.
\<close>

definition sched_best :: "'z kproc_scheme \<Rightarrow> (int \<times> 'z kproc_scheme) option" where
  "sched_best s =
     for_each [0..<NPROC] (\<lambda>p (best_pri, s).
       do { s \<leftarrow> acquire (ProcLock p) s;
            let best_pri = (if p_state (procs s ! p) = RUNNABLE \<and> p_priority (procs s ! p) < best_pri
                            then p_priority (procs s ! p) else best_pri);
            s \<leftarrow> release (ProcLock p) s;
            Some (best_pri, s) }) (21, s)"

definition set_cproc :: "nat option \<Rightarrow> 'z kst_scheme \<Rightarrow> 'z kst_scheme" where
  "set_cproc p s =
     s\<lparr>lk := (lk s)\<lparr>cpus := (cpus (lk s))(tp (lk s) := (mycpu s)\<lparr>c_proc := p\<rparr>)\<rparr>\<rparr>"

definition sched_pick :: "int \<Rightarrow> 'z kproc_scheme \<Rightarrow> (nat option \<times> 'z kproc_scheme) option" where
  "sched_pick best_pri s =
     for_find [0..<NPROC] (\<lambda>p s.
       do { s \<leftarrow> acquire (ProcLock p) s;
            if p_state (procs s ! p) = RUNNABLE \<and> p_priority (procs s ! p) = best_pri
            then let s = upd_proc p (\<lambda>x. x\<lparr>p_state := RUNNING\<rparr>) s;
                     s = set_cproc (Some p) s
                 in Some (Some p, s)
            else do { s \<leftarrow> release (ProcLock p) s; Some (None, s) } }) s"

definition scheduler_round :: "'z kproc_scheme \<Rightarrow> (nat option \<times> 'z kproc_scheme) option" where
  "scheduler_round s =
     do { let s = s\<lparr>lk := (lk s)\<lparr>sie := True\<rparr>\<rparr>;
          let s = s\<lparr>lk := (lk s)\<lparr>sie := False\<rparr>\<rparr>;
          (best_pri, s) \<leftarrow> sched_best s;
          if best_pri \<le> 20 then sched_pick best_pri s else Some (None, s) }"

definition scheduler_back :: "nat \<Rightarrow> 'z kproc_scheme \<Rightarrow> 'z kproc_scheme option" where
  "scheduler_back p s = (let s = set_cproc None s in release (ProcLock p) s)"

section \<open>Signals and waiting\<close>

text \<open>
  The loop that \<^verbatim>\<open>kkill\<close>, \<^verbatim>\<open>setpriority\<close>, \<^verbatim>\<open>getpriority\<close> and \<^verbatim>\<open>getprocinfo\<close> share: look at each entry
  under its lock, run \<open>body\<close> on the first one with the pid, with its lock held, and return what it
  returns; -1 when there is none.
\<close>

definition find_pid ::
  "int \<Rightarrow> (nat \<Rightarrow> 'z kproc_scheme \<Rightarrow> (int \<times> 'z kproc_scheme) option) \<Rightarrow> 'z kproc_scheme
    \<Rightarrow> (int \<times> 'z kproc_scheme) option" where
  "find_pid pid body s =
     do { (r, s) \<leftarrow> for_find [0..<NPROC] (\<lambda>p s.
            do { s \<leftarrow> acquire (ProcLock p) s;
                 if p_pid (procs s ! p) = pid
                 then do { (v, s) \<leftarrow> body p s; Some (Some v, s) }
                 else do { s \<leftarrow> release (ProcLock p) s; Some (None, s) } }) s;
          Some (case r of Some v \<Rightarrow> v | None \<Rightarrow> - 1, s) }"

definition kkill :: "int \<Rightarrow> 'z kproc_scheme \<Rightarrow> (int \<times> 'z kproc_scheme) option" where
  "kkill pid s = find_pid pid (\<lambda>p s.
     let s = upd_proc p (\<lambda>x. x\<lparr>p_killed := 1\<rparr>) s;
         s = (if p_state (procs s ! p) = SLEEPING
              then upd_proc p (\<lambda>x. x\<lparr>p_state := RUNNABLE\<rparr>) s else s)
     in do { s \<leftarrow> release (ProcLock p) s; Some (0, s) }) s"

definition setkilled :: "nat \<Rightarrow> 'z kproc_scheme \<Rightarrow> 'z kproc_scheme option" where
  "setkilled p s =
     do { s \<leftarrow> acquire (ProcLock p) s;
          let s = upd_proc p (\<lambda>x. x\<lparr>p_killed := 1\<rparr>) s;
          release (ProcLock p) s }"

definition killed :: "nat \<Rightarrow> 'z kproc_scheme \<Rightarrow> (int \<times> 'z kproc_scheme) option" where
  "killed p s =
     do { s \<leftarrow> acquire (ProcLock p) s;
          let k = p_killed (procs s ! p);
          s \<leftarrow> release (ProcLock p) s;
          Some (k, s) }"

definition reparent :: "nat \<Rightarrow> 'z kproc_scheme \<Rightarrow> 'z kproc_scheme option" where
  "reparent p s =
     for_each [0..<NPROC] (\<lambda>pp s.
       if p_parent (procs s ! pp) = Some p then
         do { let s = upd_proc pp (\<lambda>x. x\<lparr>p_parent := initproc s\<rparr>) s;
              ip \<leftarrow> initproc s;
              wakeup (ChProc ip) s }
       else Some s) s"

definition bytes_of_int :: "int \<Rightarrow> u8 list" where
  "bytes_of_int i = bytes_of_word 4 (word_of_int i :: u32)"

text \<open>
  The scan of the process table in \<^verbatim>\<open>kwait\<close>, for \<open>reap\<close> the work done on a zombie child. The
  result is the value to return, or \<^term>\<open>None\<close> with whether there was a child.
\<close>

definition wait_scan ::
  "nat \<Rightarrow> (nat \<Rightarrow> 'z kproc_scheme \<Rightarrow> (int \<times> 'z kproc_scheme) option) \<Rightarrow> 'z kproc_scheme
    \<Rightarrow> (int option \<times> bool \<times> 'z kproc_scheme) option" where
  "wait_scan p reap s =
     for_find [0..<NPROC] (\<lambda>pp (havekids, s).
       if p_parent (procs s ! pp) = Some p then
         do { s \<leftarrow> acquire (ProcLock pp) s;
              if p_state (procs s ! pp) = ZOMBIE
              then do { (r, s) \<leftarrow> reap pp s; Some (Some r, True, s) }
              else do { s \<leftarrow> release (ProcLock pp) s; Some (None, True, s) } }
       else Some (None, havekids, s)) (False, s)"

definition wait_finish ::
  "nat \<Rightarrow> (int option \<times> bool \<times> 'z kproc_scheme) \<Rightarrow> (int outcome \<times> 'z kproc_scheme) option" where
  "wait_finish p = (\<lambda>(r, havekids, s).
     case r of
       Some v \<Rightarrow> Some (Done v, s)
     | None \<Rightarrow>
         do { (stop, s) \<leftarrow> (if \<not> havekids then Some (True, s)
                           else do { (k, s) \<leftarrow> killed p s; Some (k \<noteq> 0, s) });
              if stop then do { s \<leftarrow> release WaitLock s; Some (Done (- 1), s) }
              else do { (ie, s) \<leftarrow> sleep_enter (ChProc p) WaitLock s; Some (Asleep ie, s) } })"

definition kwait_reap :: "nat \<Rightarrow> u64 \<Rightarrow> nat \<Rightarrow> 'z kproc_scheme \<Rightarrow> (int \<times> 'z kproc_scheme) option" where
  "kwait_reap p addr pp s =
     do { let pid = p_pid (procs s ! pp);
          (c, s) \<leftarrow> (if addr \<noteq> 0
             then copyout (p_pagetable (procs s ! p)) addr (bytes_of_int (p_xstate (procs s ! pp))) s
             else Some (0, s));
          if c < 0
          then do { s \<leftarrow> release (ProcLock pp) s; s \<leftarrow> release WaitLock s; Some (- 1, s) }
          else do { s \<leftarrow> freeproc pp s;
                    s \<leftarrow> release (ProcLock pp) s;
                    s \<leftarrow> release WaitLock s;
                    Some (pid, s) } }"

definition kwait_round :: "u64 \<Rightarrow> 'z kproc_scheme \<Rightarrow> (int outcome \<times> 'z kproc_scheme) option" where
  "kwait_round addr s =
     do { p \<leftarrow> myproc s; r \<leftarrow> wait_scan p (kwait_reap p addr) s; wait_finish p r }"

definition kwait :: "u64 \<Rightarrow> 'z kproc_scheme \<Rightarrow> (int outcome \<times> 'z kproc_scheme) option" where
  "kwait addr s = do { s \<leftarrow> acquire WaitLock s; kwait_round addr s }"

definition kwait_resume :: "u64 \<Rightarrow> bool \<Rightarrow> 'z kproc_scheme \<Rightarrow> (int outcome \<times> 'z kproc_scheme) option" where
  "kwait_resume addr ie s = do { s \<leftarrow> sleep_resume WaitLock ie s; kwait_round addr s }"

text \<open>\<^verbatim>\<open>kwait_stat\<close>: three values are copied out, in this order, before the child is freed.\<close>

definition kwait_stat_reap ::
  "nat \<Rightarrow> u64 \<Rightarrow> u64 \<Rightarrow> u64 \<Rightarrow> nat \<Rightarrow> 'z kproc_scheme \<Rightarrow> (int \<times> 'z kproc_scheme) option" where
  "kwait_stat_reap p wtime_addr rtime_addr status_addr pp s =
     (let fail = (\<lambda>s. do { s \<leftarrow> release (ProcLock pp) s; s \<leftarrow> release WaitLock s; Some (- 1, s) }) in
      do { let pid = p_pid (procs s ! pp);
           (c, s) \<leftarrow> (if wtime_addr \<noteq> 0
              then copyout (p_pagetable (procs s ! p)) wtime_addr (bytes_of_word 4 (p_stime (procs s ! pp))) s
              else Some (0, s));
           if c < 0 then fail s
           else do { (c, s) \<leftarrow> (if rtime_addr \<noteq> 0
                       then copyout (p_pagetable (procs s ! p)) rtime_addr (bytes_of_word 4 (p_rtime (procs s ! pp))) s
                       else Some (0, s));
                     if c < 0 then fail s
                     else do { (c, s) \<leftarrow> (if status_addr \<noteq> 0
                                 then copyout (p_pagetable (procs s ! p)) status_addr (bytes_of_int (p_xstate (procs s ! pp))) s
                                 else Some (0, s));
                               if c < 0 then fail s
                               else do { s \<leftarrow> freeproc pp s;
                                         s \<leftarrow> release (ProcLock pp) s;
                                         s \<leftarrow> release WaitLock s;
                                         Some (pid, s) } } } })"

definition kwait_stat_round ::
  "u64 \<Rightarrow> u64 \<Rightarrow> u64 \<Rightarrow> 'z kproc_scheme \<Rightarrow> (int outcome \<times> 'z kproc_scheme) option" where
  "kwait_stat_round wtime_addr rtime_addr status_addr s =
     do { p \<leftarrow> myproc s;
          r \<leftarrow> wait_scan p (kwait_stat_reap p wtime_addr rtime_addr status_addr) s;
          wait_finish p r }"

definition kwait_stat ::
  "u64 \<Rightarrow> u64 \<Rightarrow> u64 \<Rightarrow> 'z kproc_scheme \<Rightarrow> (int outcome \<times> 'z kproc_scheme) option" where
  "kwait_stat wtime_addr rtime_addr status_addr s =
     do { s \<leftarrow> acquire WaitLock s; kwait_stat_round wtime_addr rtime_addr status_addr s }"

definition kwait_stat_resume ::
  "u64 \<Rightarrow> u64 \<Rightarrow> u64 \<Rightarrow> bool \<Rightarrow> 'z kproc_scheme \<Rightarrow> (int outcome \<times> 'z kproc_scheme) option" where
  "kwait_stat_resume wtime_addr rtime_addr status_addr ie s =
     do { s \<leftarrow> sleep_resume WaitLock ie s; kwait_stat_round wtime_addr rtime_addr status_addr s }"

section \<open>Counters, priorities, process information\<close>

definition increment_readcount :: "'z kproc_scheme \<Rightarrow> 'z kproc_scheme option" where
  "increment_readcount s =
     do { s \<leftarrow> acquire ReadcountLock s;
          let s = s\<lparr>readcount := i32 (readcount s + 1)\<rparr>;
          release ReadcountLock s }"

definition getreadcount :: "'z kproc_scheme \<Rightarrow> (int \<times> 'z kproc_scheme) option" where
  "getreadcount s =
     do { s \<leftarrow> acquire ReadcountLock s;
          let n = readcount s;
          s \<leftarrow> release ReadcountLock s;
          Some (n, s) }"

definition update_time_stats :: "'z kproc_scheme \<Rightarrow> 'z kproc_scheme option" where
  "update_time_stats s =
     for_each [0..<NPROC] (\<lambda>p s.
       do { s \<leftarrow> acquire (ProcLock p) s;
            let s = (if p_state (procs s ! p) = RUNNING
                     then upd_proc p (\<lambda>x. x\<lparr>p_rtime := p_rtime x + 1\<rparr>) s
                     else if p_state (procs s ! p) = RUNNABLE
                     then upd_proc p (\<lambda>x. x\<lparr>p_stime := p_stime x + 1\<rparr>) s
                     else s);
            release (ProcLock p) s }) s"

definition setpriority :: "int \<Rightarrow> int \<Rightarrow> 'z kproc_scheme \<Rightarrow> (int \<times> 'z kproc_scheme) option" where
  "setpriority pid priority s =
     (if priority < 1 \<or> priority > 20 then Some (- 1, s)
      else find_pid pid (\<lambda>p s.
        let s = upd_proc p (\<lambda>x. x\<lparr>p_priority := priority\<rparr>) s
        in do { s \<leftarrow> release (ProcLock p) s; Some (0, s) }) s)"

definition getpriority :: "int \<Rightarrow> 'z kproc_scheme \<Rightarrow> (int \<times> 'z kproc_scheme) option" where
  "getpriority pid s = find_pid pid (\<lambda>p s.
     let pri = p_priority (procs s ! p)
     in do { s \<leftarrow> release (ProcLock p) s; Some (pri, s) }) s"

text \<open>
  \<^verbatim>\<open>struct procinfo\<close> is a 40-byte local variable: \<^verbatim>\<open>pid\<close>, \<^verbatim>\<open>ppid\<close>, \<^verbatim>\<open>state\<close> at 0, 4 and 8, four bytes of
  padding, \<^verbatim>\<open>sz\<close> at 16, \<^verbatim>\<open>name\<close> at 24. \<open>junk\<close> is what the stack held before.
\<close>

definition state_code :: "procstate \<Rightarrow> int" where
  "state_code st = (case st of UNUSED \<Rightarrow> 0 | USED \<Rightarrow> 1 | SLEEPING \<Rightarrow> 2 | RUNNABLE \<Rightarrow> 3 | RUNNING \<Rightarrow> 4
     | ZOMBIE \<Rightarrow> 5)"

definition fill_procinfo :: "u8 list \<Rightarrow> nat \<Rightarrow> 'z kproc_scheme \<Rightarrow> u8 list option" where
  "fill_procinfo junk p s =
     (let x = procs s ! p in
      do { name \<leftarrow> safestrcpy (drop 24 junk) (p_name x) 16;
           Some (bytes_of_int (p_pid x)
             @ bytes_of_int (case p_parent x of None \<Rightarrow> 0 | Some q \<Rightarrow> p_pid (procs s ! q))
             @ bytes_of_int (state_code (p_state x))
             @ take 4 (drop 12 junk)
             @ bytes_of_word 8 (p_sz x)
             @ name) })"

definition getprocinfo :: "u8 list \<Rightarrow> int \<Rightarrow> u64 \<Rightarrow> 'z kproc_scheme \<Rightarrow> (int \<times> 'z kproc_scheme) option" where
  "getprocinfo junk pid addr s = find_pid pid (\<lambda>p s.
     do { info \<leftarrow> fill_procinfo junk p s;
          s \<leftarrow> release (ProcLock p) s;
          me \<leftarrow> myproc s;
          (c, s) \<leftarrow> copyout (p_pagetable (procs s ! me)) addr info s;
          Some (if c < 0 then - 1 else 0, s) }) s"

end
