(* ===== verification/Procprops.thy ===== *)
theory Procprops
  imports Proc
begin

text \<open>
  What the operations of \<^verbatim>\<open>kernel/proc.c\<close> do to the process table. The loops of \<^verbatim>\<open>proc.c\<close> visit the
  table under one \<^verbatim>\<open>p->lock\<close> at a time; \<open>sweep_all\<close> and \<open>sweep_find\<close> turn such a loop into a map over
  the table or a search for its first matching entry, with the locks as they were.
\<close>

section \<open>Loops over the table\<close>

definition procs_ready :: "'z kproc_scheme \<Rightarrow> bool" where
  "procs_ready s \<longleftrightarrow> lkwf (lk s) \<and> (\<forall>p < NPROC. ProcLock p \<notin> held (lk s)) \<and> length (procs s) = NPROC"

lemma procs_readyD:
  assumes "procs_ready s"
  shows "lkwf (lk s)" and "p < NPROC \<Longrightarrow> ProcLock p \<notin> held (lk s)" and "length (procs s) = NPROC"
  using assms by (auto simp: procs_ready_def)

lemma procs_ready_step:
  "procs_ready s \<Longrightarrow> lksame (lk s) l \<Longrightarrow> length ps = NPROC \<Longrightarrow> procs_ready (s\<lparr>lk := l, procs := ps\<rparr>)"
  by (auto simp: procs_ready_def lksame_def)

lemma procs_ready_lk: "procs_ready s \<Longrightarrow> lksame (lk s) l \<Longrightarrow> procs_ready (s\<lparr>lk := l\<rparr>)"
  by (auto simp: procs_ready_def lksame_def)

lemma sweep_all:
  assumes "procs_ready s"
    and step: "\<And>p t. p < NPROC \<Longrightarrow> procs_ready t \<Longrightarrow> myproc t = myproc s \<Longrightarrow>
      \<exists>l. b p t = Some (t\<lparr>lk := l, procs := (procs t)[p := f p (procs t ! p)]\<rparr>) \<and> lksame (lk t) l"
  shows "\<exists>l. for_each [0..<NPROC] b s =
      Some (s\<lparr>lk := l, procs := map (\<lambda>p. f p (procs s ! p)) [0..<NPROC]\<rparr>) \<and> lksame (lk s) l"
proof -
  have len: "length (procs s) = NPROC" using assms(1) by (rule procs_readyD)
  have "\<exists>l. for_each [0..<n] b s =
      Some (s\<lparr>lk := l, procs := map (\<lambda>p. f p (procs s ! p)) [0..<n] @ drop n (procs s)\<rparr>) \<and>
      lksame (lk s) l" if "n \<le> NPROC" for n
    using that
  proof (induction n)
    case 0
    then show ?case by (intro exI [of _ "lk s"]) simp
  next
    case (Suc n)
    let ?ps = "map (\<lambda>p. f p (procs s ! p)) [0..<n] @ drop n (procs s)"
    obtain l where l: "for_each [0..<n] b s = Some (s\<lparr>lk := l, procs := ?ps\<rparr>)" "lksame (lk s) l"
      using Suc by auto
    let ?t = "s\<lparr>lk := l, procs := ?ps\<rparr>"
    have "procs_ready ?t" using procs_ready_step [OF assms(1) l(2)] len Suc.prems by simp
    moreover have "myproc ?t = myproc s" using lksame_myproc [of s ?t] l(2) by simp
    ultimately obtain l' where l': "b n ?t = Some (?t\<lparr>lk := l', procs := ?ps[n := f n (?ps ! n)]\<rparr>)"
        "lksame l l'" using step [of n ?t] Suc.prems by auto
    have "?ps[n := f n (?ps ! n)] = map (\<lambda>p. f p (procs s ! p)) [0..<Suc n] @ drop (Suc n) (procs s)"
      using Suc.prems len by (simp add: nth_append list_update_append Cons_nth_drop_Suc [symmetric])
    then show ?case
      using l l' by (auto simp: for_each_append intro: lksame_trans)
  qed
  from this [of NPROC] show ?thesis using len by simp
qed

lemma sweep_find:
  assumes "procs_ready s" and "n \<le> NPROC"
    and skip: "\<And>p l. p < n \<Longrightarrow> lksame (lk s) l \<Longrightarrow>
      \<exists>l'. b p (s\<lparr>lk := l\<rparr>) = Some (None, s\<lparr>lk := l'\<rparr>) \<and> lksame l l'"
  shows "\<exists>l. for_find ([0..<n] @ ps) b s = for_find ps b (s\<lparr>lk := l\<rparr>) \<and> lksame (lk s) l"
  using assms(2,3)
proof (induction n arbitrary: ps)
  case 0
  then show ?case by (intro exI [of _ "lk s"]) simp
next
  case (Suc n)
  have "\<exists>l. for_find ([0..<n] @ (n # ps)) b s = for_find (n # ps) b (s\<lparr>lk := l\<rparr>) \<and> lksame (lk s) l"
    using Suc.prems by (intro Suc.IH) auto
  then obtain l where l: "for_find ([0..<n] @ (n # ps)) b s = for_find (n # ps) b (s\<lparr>lk := l\<rparr>)"
      "lksame (lk s) l" by blast
  obtain l' where l': "b n (s\<lparr>lk := l\<rparr>) = Some (None, s\<lparr>lk := l'\<rparr>)" "lksame l l'"
    using Suc.prems(2) [of n l] l(2) by auto
  then have "for_find (n # ps) b (s\<lparr>lk := l\<rparr>) = for_find ps b (s\<lparr>lk := l'\<rparr>)" by simp
  with l l'(2) show ?case by (auto intro: lksame_trans)
qed

text \<open>The body of a search that skips entries: take the lock, look, release it.\<close>

lemma look_and_skip:
  assumes "procs_ready s" and "lksame (lk s) l" and "p < NPROC"
  shows "do { t \<leftarrow> acquire (ProcLock p) (s\<lparr>lk := l\<rparr>); t \<leftarrow> release (ProcLock p) t; Some (r, t) } =
      Some (r, s\<lparr>lk := lktouch (ProcLock p) l\<rparr>)"
    and "lksame l (lktouch (ProcLock p) l)"
proof -
  have "lkwf l" "ProcLock p \<notin> held l"
    using assms by (auto simp: procs_ready_def lksame_def)
  then show "do { t \<leftarrow> acquire (ProcLock p) (s\<lparr>lk := l\<rparr>); t \<leftarrow> release (ProcLock p) t; Some (r, t) } =
      Some (r, s\<lparr>lk := lktouch (ProcLock p) l\<rparr>)" and "lksame l (lktouch (ProcLock p) l)"
    by (simp_all add: lktouch_def)
qed


section \<open>wakeup and the time statistics\<close>

definition woken :: "chan \<Rightarrow> nat option \<Rightarrow> nat \<Rightarrow> proc \<Rightarrow> proc" where
  "woken ch me p x = (if Some p \<noteq> me \<and> p_state x = SLEEPING \<and> p_chan x = Some ch
     then x\<lparr>p_state := RUNNABLE\<rparr> else x)"

lemma wakeup_exact:
  assumes "procs_ready s"
  shows "\<exists>l. wakeup ch s = Some (s\<lparr>lk := l, procs := map (\<lambda>p. woken ch (myproc s) p (procs s ! p)) [0..<NPROC]\<rparr>) \<and>
    lksame (lk s) l"
  unfolding wakeup_def
proof (rule sweep_all [OF assms])
  fix p and t :: "'a kproc_scheme"
  assume p: "p < NPROC" and t: "procs_ready t" and me: "myproc t = myproc s"
  let ?b = "\<lambda>p s. if Some p \<noteq> myproc s then
      do { s \<leftarrow> acquire (ProcLock p) s;
           let s = (if p_state (procs s ! p) = SLEEPING \<and> p_chan (procs s ! p) = Some ch
                    then upd_proc p (\<lambda>x. x\<lparr>p_state := RUNNABLE\<rparr>) s else s);
           release (ProcLock p) s }
    else Some s"
  note r = procs_readyD [OF t]
  show "\<exists>l. ?b p t = Some (t\<lparr>lk := l, procs := (procs t)[p := woken ch (myproc s) p (procs t ! p)]\<rparr>) \<and>
      lksame (lk t) l"
  proof (cases "Some p = myproc s")
    case True
    then show ?thesis using me by (intro exI [of _ "lk t"]) (simp add: woken_def)
  next
    case False
    then show ?thesis using r p me
      by (intro exI [of _ "lktouch (ProcLock p) (lk t)"]) (simp add: woken_def upd_proc_def lktouch_def)
  qed
qed

definition ticked :: "proc \<Rightarrow> proc" where
  "ticked x = (if p_state x = RUNNING then x\<lparr>p_rtime := p_rtime x + 1\<rparr>
     else if p_state x = RUNNABLE then x\<lparr>p_stime := p_stime x + 1\<rparr> else x)"

lemma update_time_stats_exact:
  assumes "procs_ready s"
  shows "\<exists>l. update_time_stats s = Some (s\<lparr>lk := l, procs := map (\<lambda>p. ticked (procs s ! p)) [0..<NPROC]\<rparr>) \<and>
    lksame (lk s) l"
  unfolding update_time_stats_def
proof (rule sweep_all [OF assms, where f = "\<lambda>p. ticked"])
  fix p and t :: "'a kproc_scheme"
  assume p: "p < NPROC" and t: "procs_ready t"
  note r = procs_readyD [OF t]
  show "\<exists>l. do { s \<leftarrow> acquire (ProcLock p) t;
            let s = (if p_state (procs s ! p) = RUNNING
                     then upd_proc p (\<lambda>x. x\<lparr>p_rtime := p_rtime x + 1\<rparr>) s
                     else if p_state (procs s ! p) = RUNNABLE
                     then upd_proc p (\<lambda>x. x\<lparr>p_stime := p_stime x + 1\<rparr>) s
                     else s);
            release (ProcLock p) s } =
      Some (t\<lparr>lk := l, procs := (procs t)[p := ticked (procs t ! p)]\<rparr>) \<and> lksame (lk t) l"
    using r p by (intro exI [of _ "lktouch (ProcLock p) (lk t)"]) (simp add: ticked_def upd_proc_def lktouch_def)
qed

section \<open>Search by process id\<close>

text \<open>
  The searches of \<^verbatim>\<open>kkill\<close>, \<^verbatim>\<open>setpriority\<close>, \<^verbatim>\<open>getpriority\<close> and \<^verbatim>\<open>getprocinfo\<close> stop at the first
  entry with the given pid.
\<close>

definition pid_slot :: "int \<Rightarrow> 'z kproc_scheme \<Rightarrow> nat option" where
  "pid_slot pid s = find (\<lambda>p. p_pid (procs s ! p) = pid) [0..<NPROC]"

lemma pid_slot_SomeD: "pid_slot pid s = Some p \<Longrightarrow> p < NPROC \<and> p_pid (procs s ! p) = pid"
  by (auto simp: pid_slot_def find_upt_first)

lemma find_pid_exact:
  assumes "procs_ready s"
  shows "\<exists>l. find_pid pid body s =
    (case pid_slot pid s of
       None \<Rightarrow> Some (- 1, s\<lparr>lk := l\<rparr>)
     | Some p \<Rightarrow> body p (s\<lparr>lk := acq (ProcLock p) l\<rparr>)) \<and> lksame (lk s) l"
proof -
  let ?b = "\<lambda>p s. do { s \<leftarrow> acquire (ProcLock p) s;
     if p_pid (procs s ! p) = pid then do { (v, s) \<leftarrow> body p s; Some (Some v, s) }
     else do { s \<leftarrow> release (ProcLock p) s; Some (None, s) } }"
  have skip: "\<exists>l'. ?b p (s\<lparr>lk := l\<rparr>) = Some (None, s\<lparr>lk := l'\<rparr>) \<and> lksame l l'"
    if "p < NPROC" "p_pid (procs s ! p) \<noteq> pid" "lksame (lk s) l" for p l
    using look_and_skip [OF assms that(3,1)] that(2)
      procs_readyD(1,2) [OF procs_ready_lk [OF assms that(3)]] that(1) by auto
  show ?thesis
  proof (cases "pid_slot pid s")
    case None
    then have "p_pid (procs s ! p) \<noteq> pid" if "p < NPROC" for p
      using that by (auto simp: pid_slot_def find_None_iff)
    then show ?thesis
      using sweep_find [OF assms order_refl, of ?b "[]"] skip None by (force simp: find_pid_def)
  next
    case (Some p)
    then have p: "p < NPROC" "p_pid (procs s ! p) = pid" "\<forall>q<p. p_pid (procs s ! q) \<noteq> pid"
      by (auto simp: pid_slot_def find_upt_first)
    then obtain l where l: "for_find ([0..<p] @ [p..<NPROC]) ?b s = for_find [p..<NPROC] ?b (s\<lparr>lk := l\<rparr>)"
        "lksame (lk s) l"
      using sweep_find [OF assms, of p ?b "[p..<NPROC]"] skip by force
    have split: "[0..<p] @ [p..<NPROC] = [0..<NPROC]" "[p..<NPROC] = p # [Suc p..<NPROC]"
      using p(1) upt_add_eq_append [of 0 p "NPROC - p"] by (simp, simp add: upt_conv_Cons)
    have "acquire (ProcLock p) (s\<lparr>lk := l\<rparr>) = Some (s\<lparr>lk := acq (ProcLock p) l\<rparr>)"
      using procs_readyD(2) [OF procs_ready_lk [OF assms l(2)] p(1)] by simp
    then have "for_find [p..<NPROC] ?b (s\<lparr>lk := l\<rparr>) =
       do { (v, t) \<leftarrow> body p (s\<lparr>lk := acq (ProcLock p) l\<rparr>); Some (Some v, t) }"
      using p(2) unfolding split(2) by (cases "body p (s\<lparr>lk := acq (ProcLock p) l\<rparr>)") auto
    then have "find_pid pid body s = body p (s\<lparr>lk := acq (ProcLock p) l\<rparr>)"
      using l(1) unfolding find_pid_def split(1) by (cases "body p (s\<lparr>lk := acq (ProcLock p) l\<rparr>)") auto
    with l(2) Some show ?thesis by (intro exI [of _ l]) simp
  qed
qed

lemma find_pid_none:
  assumes "procs_ready s" and "pid_slot pid s = None"
  shows "\<exists>l. find_pid pid body s = Some (- 1, s\<lparr>lk := l\<rparr>) \<and> lksame (lk s) l"
  using find_pid_exact [OF assms(1), of pid body] assms(2) by simp

lemma find_pid_some:
  assumes "procs_ready s" and "pid_slot pid s = Some p"
    and "\<And>l. lkwf l \<Longrightarrow> ProcLock p \<notin> held l \<Longrightarrow>
      body p (s\<lparr>lk := acq (ProcLock p) l\<rparr>) = Some (v, g (rel (ProcLock p) (acq (ProcLock p) l)))"
  shows "\<exists>l. find_pid pid body s = Some (v, g l) \<and> lksame (lk s) l"
proof -
  obtain l where l: "find_pid pid body s = body p (s\<lparr>lk := acq (ProcLock p) l\<rparr>)" "lksame (lk s) l"
    using find_pid_exact [OF assms(1), of pid body] assms(2) by auto
  have "lkwf l" "ProcLock p \<notin> held l"
    using l(2) assms(1) pid_slot_SomeD [OF assms(2)] by (auto simp: procs_ready_def lksame_def)
  then show ?thesis
    using l assms(3) [of l] lksame_trans [OF l(2) lksame_acq_rel]
    by (intro exI [of _ "rel (ProcLock p) (acq (ProcLock p) l)"]) simp
qed

text \<open>Priorities and kill act on the entry that the search finds, and on nothing else.\<close>

lemma setpriority_exact:
  assumes "procs_ready s" and "1 \<le> priority" and "priority \<le> 20"
  shows "pid_slot pid s = None \<Longrightarrow> \<exists>l. setpriority pid priority s = Some (- 1, s\<lparr>lk := l\<rparr>) \<and> lksame (lk s) l"
    and "pid_slot pid s = Some p \<Longrightarrow> \<exists>l. setpriority pid priority s =
      Some (0, s\<lparr>lk := l, procs := (procs s)[p := (procs s ! p)\<lparr>p_priority := priority\<rparr>]\<rparr>) \<and> lksame (lk s) l"
proof -
  have e: "setpriority pid priority s = find_pid pid (\<lambda>p s.
        let s = upd_proc p (\<lambda>x. x\<lparr>p_priority := priority\<rparr>) s
        in do { s \<leftarrow> release (ProcLock p) s; Some (0, s) }) s"
    using assms(2,3) by (simp add: setpriority_def)
  show "\<exists>l. setpriority pid priority s = Some (- 1, s\<lparr>lk := l\<rparr>) \<and> lksame (lk s) l" if "pid_slot pid s = None"
    unfolding e by (rule find_pid_none [OF assms(1) that])
  show "\<exists>l. setpriority pid priority s =
      Some (0, s\<lparr>lk := l, procs := (procs s)[p := (procs s ! p)\<lparr>p_priority := priority\<rparr>]\<rparr>) \<and> lksame (lk s) l"
    if "pid_slot pid s = Some p"
    unfolding e by (rule find_pid_some [OF assms(1) that]) (simp add: Let_def upd_proc_def)
qed

lemma getpriority_exact:
  assumes "procs_ready s"
  shows "\<exists>l. getpriority pid s =
    Some (case pid_slot pid s of None \<Rightarrow> - 1 | Some p \<Rightarrow> p_priority (procs s ! p), s\<lparr>lk := l\<rparr>) \<and>
    lksame (lk s) l"
proof (cases "pid_slot pid s")
  case None
  then show ?thesis unfolding getpriority_def using find_pid_none [OF assms] by simp
next
  case (Some p)
  then show ?thesis unfolding getpriority_def option.case(2) Some
    by (intro find_pid_some [OF assms Some]) (simp add: Let_def)
qed

lemma kkill_exact:
  assumes "procs_ready s"
  shows "\<exists>l. kkill pid s = (case pid_slot pid s of
      None \<Rightarrow> Some (- 1, s\<lparr>lk := l\<rparr>)
    | Some p \<Rightarrow> Some (0, s\<lparr>lk := l, procs := (procs s)[p := (procs s ! p)\<lparr>p_killed := 1,
        p_state := (if p_state (procs s ! p) = SLEEPING then RUNNABLE else p_state (procs s ! p))\<rparr>]\<rparr>)) \<and>
    lksame (lk s) l"
proof (cases "pid_slot pid s")
  case None
  then show ?thesis unfolding kkill_def using find_pid_none [OF assms] by simp
next
  case (Some p)
  have "p < length (procs s)" using pid_slot_SomeD [OF Some] assms by (simp add: procs_ready_def)
  then show ?thesis unfolding kkill_def option.case(2) Some
    by (intro find_pid_some [OF assms Some]) (simp add: Let_def upd_proc_def)
qed


section \<open>The scheduler\<close>

definition runnable :: "'z kproc_scheme \<Rightarrow> nat \<Rightarrow> bool" where
  "runnable s p \<longleftrightarrow> p_state (procs s ! p) = RUNNABLE"

definition prio :: "'z kproc_scheme \<Rightarrow> nat \<Rightarrow> int" where
  "prio s p = p_priority (procs s ! p)"

definition best_upto :: "nat \<Rightarrow> 'z kproc_scheme \<Rightarrow> int" where
  "best_upto n s = fold (\<lambda>p b. if runnable s p \<and> prio s p < b then prio s p else b) [0..<n] 21"

lemma best_upto_spec:
  "best_upto n s \<le> 21" "p < n \<Longrightarrow> runnable s p \<Longrightarrow> best_upto n s \<le> prio s p"
  "best_upto n s = 21 \<or> (\<exists>p<n. runnable s p \<and> prio s p = best_upto n s)"
proof (induction n)
  case 0
  {
    case 1
    show ?case by (simp add: best_upto_def)
  next
    case 2
    then show ?case by simp
  next
    case 3
    show ?case by (simp add: best_upto_def)
  }
next
  case (Suc n)
  have e: "best_upto (Suc n) s = (if runnable s n \<and> prio s n < best_upto n s then prio s n else best_upto n s)"
    by (simp add: best_upto_def)
  {
    case 1
    show ?case using Suc.IH(1) by (simp add: e)
  next
    case 2
    then show ?case using Suc.IH(2) by (cases "p = n") (auto simp: e less_Suc_eq)
  next
    case 3
    show ?case using Suc.IH(3) by (auto simp: e less_Suc_eq)
  }
qed

lemma sched_best_exact:
  assumes "procs_ready s"
  shows "\<exists>l. sched_best s = Some (best_upto NPROC s, s\<lparr>lk := l\<rparr>) \<and> lksame (lk s) l"
proof -
  let ?b = "\<lambda>p (best_pri, s). do { s \<leftarrow> acquire (ProcLock p) s;
            let best_pri = (if p_state (procs s ! p) = RUNNABLE \<and> p_priority (procs s ! p) < best_pri
                            then p_priority (procs s ! p) else best_pri);
            s \<leftarrow> release (ProcLock p) s;
            Some (best_pri, s) }"
  have "\<exists>l. for_each [0..<n] ?b (21, s) = Some (best_upto n s, s\<lparr>lk := l\<rparr>) \<and> lksame (lk s) l"
    if "n \<le> NPROC" for n
    using that
  proof (induction n)
    case 0
    then show ?case by (intro exI [of _ "lk s"]) (simp add: best_upto_def)
  next
    case (Suc n)
    then obtain l where l: "for_each [0..<n] ?b (21, s) = Some (best_upto n s, s\<lparr>lk := l\<rparr>)" "lksame (lk s) l"
      by auto
    have "lkwf l" "ProcLock n \<notin> held l"
      using l(2) assms Suc.prems by (auto simp: procs_ready_def lksame_def)
    then show ?case
      using l lksame_trans [OF l(2) lksame_acq_rel]
      by (intro exI [of _ "rel (ProcLock n) (acq (ProcLock n) l)"])
        (simp add: for_each_append best_upto_def runnable_def prio_def)
  qed
  from this [of NPROC] show ?thesis by (simp add: sched_best_def)
qed

lemma sched_pick_exact:
  assumes "procs_ready s" and "p < NPROC" and "runnable s p" and "prio s p = b"
    and "\<And>q. q < p \<Longrightarrow> \<not> (runnable s q \<and> prio s q = b)"
  shows "\<exists>l. sched_pick b s = Some (Some p, set_cproc (Some p)
      (s\<lparr>lk := acq (ProcLock p) l, procs := (procs s)[p := (procs s ! p)\<lparr>p_state := RUNNING\<rparr>]\<rparr>)) \<and> lksame (lk s) l"
proof -
  let ?b = "\<lambda>p s. do { s \<leftarrow> acquire (ProcLock p) s;
            if p_state (procs s ! p) = RUNNABLE \<and> p_priority (procs s ! p) = b
            then let s = upd_proc p (\<lambda>x. x\<lparr>p_state := RUNNING\<rparr>) s;
                     s = set_cproc (Some p) s
                 in Some (Some p, s)
            else do { s \<leftarrow> release (ProcLock p) s; Some (None, s) } }"
  have "\<exists>l'. ?b q (s\<lparr>lk := l\<rparr>) = Some (None, s\<lparr>lk := l'\<rparr>) \<and> lksame l l'"
    if "q < p" "lksame (lk s) l" for q l
  proof -
    have "lkwf l" "ProcLock q \<notin> held l"
      using that assms(1,2) by (auto simp: procs_ready_def lksame_def)
    then show ?thesis using assms(5) [OF that(1)]
      by (intro exI [of _ "rel (ProcLock q) (acq (ProcLock q) l)"]) (auto simp: runnable_def prio_def)
  qed
  then obtain l where l: "for_find ([0..<p] @ [p..<NPROC]) ?b s = for_find [p..<NPROC] ?b (s\<lparr>lk := l\<rparr>)"
      "lksame (lk s) l"
    using sweep_find [OF assms(1), of p ?b "[p..<NPROC]"] assms(2) by auto
  have split: "[0..<p] @ [p..<NPROC] = [0..<NPROC]" "[p..<NPROC] = p # [Suc p..<NPROC]"
    using assms(2) upt_add_eq_append [of 0 p "NPROC - p"] by (simp, simp add: upt_conv_Cons)
  have "ProcLock p \<notin> held l" using l(2) assms(1,2) by (auto simp: procs_ready_def lksame_def)
  moreover have "sched_pick b s = for_find [p..<NPROC] ?b (s\<lparr>lk := l\<rparr>)"
    using l(1) by (simp only: split(1) sched_pick_def)
  ultimately show ?thesis
    using l(2) assms(3,4) unfolding split(2)
    by (intro exI [of _ l]) (simp add: runnable_def prio_def upd_proc_def Let_def)
qed

text \<open>The process the scheduler owes the CPU: best priority, then lowest table index.\<close>

definition due :: "'z kproc_scheme \<Rightarrow> nat \<Rightarrow> bool" where
  "due s p \<longleftrightarrow> p < NPROC \<and> runnable s p \<and> (\<forall>q < NPROC. runnable s q \<longrightarrow> prio s p \<le> prio s q) \<and>
     (\<forall>q < p. runnable s q \<longrightarrow> prio s p < prio s q)"

lemma due_exists:
  assumes "\<exists>p < NPROC. runnable s p"
  shows "\<exists>p. due s p"
proof -
  let ?R = "\<lambda>p. p < NPROC \<and> runnable s p"
  have fin: "finite {p. ?R p}" by simp
  define b where "b = Min (prio s ` {p. ?R p})"
  have "b \<in> prio s ` {p. ?R p}" unfolding b_def using assms fin by (intro Min_in) auto
  then have ex: "\<exists>p. ?R p \<and> prio s p = b" by auto
  define p where "p = (LEAST p. ?R p \<and> prio s p = b)"
  have p: "?R p \<and> prio s p = b" unfolding p_def using ex by (rule LeastI_ex)
  have le: "b \<le> prio s q" if "?R q" for q unfolding b_def using that fin by (intro Min_le) auto
  have "prio s p < prio s q" if "q < p" "runnable s q" for q
  proof -
    have "?R q" using that p by auto
    moreover have "prio s q \<noteq> b" using not_less_Least [of q "\<lambda>p. ?R p \<and> prio s p = b"] that(1) \<open>?R q\<close>
      by (auto simp: p_def)
    ultimately show ?thesis using le [of q] p by auto
  qed
  then show ?thesis using p le by (auto simp: due_def)
qed

lemma set_cproc_simps [simp]:
  "held (lk (set_cproc p s)) = held (lk s)" "myproc (set_cproc p s) = p"
  "procs (set_cproc p t) = procs t" "lkwf (lk s) \<Longrightarrow> lkwf (lk (set_cproc p s))"
  by (auto simp: set_cproc_def held_def myproc_def mycpu_def lkwf_def)

lemma scheduler_picks_due:
  assumes "procs_ready s" and "due s p" and "prio s p \<le> 20"
  shows "\<exists>s'. scheduler_round s = Some (Some p, s') \<and>
    procs s' = (procs s)[p := (procs s ! p)\<lparr>p_state := RUNNING\<rparr>] \<and> myproc s' = Some p \<and>
    held (lk s') = insert (ProcLock p) (held (lk s))"
proof -
  let ?s = "s\<lparr>lk := (lk s)\<lparr>sie := False\<rparr>\<rparr>"
  have h: "held ((lk s)\<lparr>sie := False\<rparr>) = held (lk s)" by (simp add: held_def)
  have "lkwf ((lk s)\<lparr>sie := False\<rparr>)"
    using assms(1) h by (simp add: procs_ready_def lkwf_def)
  with h have r: "procs_ready ?s" using assms(1) by (simp add: procs_ready_def)
  obtain l where l: "sched_best ?s = Some (best_upto NPROC ?s, ?s\<lparr>lk := l\<rparr>)" "lksame (lk ?s) l"
    using sched_best_exact [OF r] by blast
  let ?t = "s\<lparr>lk := l\<rparr>"
  have same: "runnable ?s = runnable s" "prio ?s = prio s" "runnable ?t = runnable s" "prio ?t = prio s"
    by (simp_all add: runnable_def prio_def fun_eq_iff)
  have p: "p < NPROC" "runnable s p" using assms(2) by (simp_all add: due_def)
  have b: "best_upto NPROC ?s = prio s p"
  proof (rule antisym)
    show "best_upto NPROC ?s \<le> prio s p"
      using best_upto_spec(2) [of p NPROC ?s] p by (simp add: same)
    show "prio s p \<le> best_upto NPROC ?s"
      using best_upto_spec(3) [of NPROC ?s] assms(2,3) by (auto simp: same due_def)
  qed
  have t: "procs_ready ?t" using procs_ready_lk [OF r l(2)] by simp
  have first: "\<not> (runnable ?t q \<and> prio ?t q = prio s p)" if "q < p" for q
    using assms(2) that by (auto simp: due_def same)
  have "runnable ?t p" "prio ?t p = prio s p" using p by (simp_all add: same)
  from sched_pick_exact [OF t p(1) this first] obtain l' where l': "sched_pick (prio s p) ?t = Some (Some p, set_cproc (Some p)
      (?t\<lparr>lk := acq (ProcLock p) l', procs := (procs s)[p := (procs s ! p)\<lparr>p_state := RUNNING\<rparr>]\<rparr>))"
      "lksame l l'"
    by auto
  have hl: "held l' = held (lk s)" using l(2) l'(2) h by (simp add: lksame_def)
  moreover have "ProcLock p \<notin> held l'" using hl assms(1) p(1) by (simp add: procs_ready_def)
  moreover have "scheduler_round s = Some (Some p, set_cproc (Some p)
      (?t\<lparr>lk := acq (ProcLock p) l', procs := (procs s)[p := (procs s ! p)\<lparr>p_state := RUNNING\<rparr>]\<rparr>))"
    using l(1) l'(1) assms(3) b by (simp add: scheduler_round_def)
  ultimately show ?thesis by simp
qed


section \<open>Waiting for children\<close>

definition has_child :: "nat \<Rightarrow> 'z kproc_scheme \<Rightarrow> bool" where
  "has_child p s \<longleftrightarrow> (\<exists>q < NPROC. p_parent (procs s ! q) = Some p)"

definition zombie_child :: "nat \<Rightarrow> 'z kproc_scheme \<Rightarrow> nat \<Rightarrow> bool" where
  "zombie_child p s q \<longleftrightarrow> p_parent (procs s ! q) = Some p \<and> p_state (procs s ! q) = ZOMBIE"

lemma wait_scan_prefix:
  assumes "procs_ready s" and "n \<le> NPROC" and "\<And>q. q < n \<Longrightarrow> \<not> zombie_child p s q"
  shows "\<exists>l. for_find ([0..<n] @ qs) (\<lambda>pp (havekids, s).
       if p_parent (procs s ! pp) = Some p then
         do { s \<leftarrow> acquire (ProcLock pp) s;
              if p_state (procs s ! pp) = ZOMBIE
              then do { (r, s) \<leftarrow> reap pp s; Some (Some r, True, s) }
              else do { s \<leftarrow> release (ProcLock pp) s; Some (None, True, s) } }
       else Some (None, havekids, s)) (False, s) =
    for_find qs (\<lambda>pp (havekids, s).
       if p_parent (procs s ! pp) = Some p then
         do { s \<leftarrow> acquire (ProcLock pp) s;
              if p_state (procs s ! pp) = ZOMBIE
              then do { (r, s) \<leftarrow> reap pp s; Some (Some r, True, s) }
              else do { s \<leftarrow> release (ProcLock pp) s; Some (None, True, s) } }
       else Some (None, havekids, s)) (\<exists>q < n. p_parent (procs s ! q) = Some p, s\<lparr>lk := l\<rparr>) \<and>
    lksame (lk s) l" (is "\<exists>l. for_find _ ?b _ = _ l \<and> _")
  using assms(2,3)
proof (induction n arbitrary: qs)
  case 0
  then show ?case by (intro exI [of _ "lk s"]) simp
next
  case (Suc n)
  obtain l where l: "for_find ([0..<n] @ (n # qs)) ?b (False, s) =
      for_find (n # qs) ?b (\<exists>q < n. p_parent (procs s ! q) = Some p, s\<lparr>lk := l\<rparr>)" "lksame (lk s) l"
    using Suc.IH [of "n # qs"] Suc.prems by auto
  have w: "lkwf l" "ProcLock n \<notin> held l"
    using l(2) assms(1) Suc.prems(1) by (auto simp: procs_ready_def lksame_def)
  have h: "(\<exists>q < Suc n. p_parent (procs s ! q) = Some p) \<longleftrightarrow>
      (\<exists>q < n. p_parent (procs s ! q) = Some p) \<or> p_parent (procs s ! n) = Some p" by (auto simp: less_Suc_eq)
  show ?case
  proof (cases "p_parent (procs s ! n) = Some p")
    case True
    then have "p_state (procs s ! n) \<noteq> ZOMBIE" using Suc.prems(2) [of n] by (simp add: zombie_child_def)
    with True l(1) w h have "for_find ([0..<Suc n] @ qs) ?b (False, s) =
        for_find qs ?b (\<exists>q < Suc n. p_parent (procs s ! q) = Some p,
          s\<lparr>lk := rel (ProcLock n) (acq (ProcLock n) l)\<rparr>)" by simp
    with lksame_trans [OF l(2) lksame_acq_rel [OF w]] show ?thesis by blast
  next
    case False
    with l h show ?thesis by (intro exI [of _ l]) simp
  qed
qed

lemma wait_scan_none:
  assumes "procs_ready s" and "\<And>q. q < NPROC \<Longrightarrow> \<not> zombie_child p s q"
  shows "\<exists>l. wait_scan p reap s = Some (None, has_child p s, s\<lparr>lk := l\<rparr>) \<and> lksame (lk s) l"
  using wait_scan_prefix [OF assms(1) order_refl assms(2), of "[]"]
  by (simp add: wait_scan_def has_child_def)

text \<open>The first zombie child in table order is handed to the reaping code, with its lock held.\<close>

lemma wait_scan_zombie:
  assumes "procs_ready s" and "q < NPROC" and "zombie_child p s q" and "\<And>r. r < q \<Longrightarrow> \<not> zombie_child p s r"
  shows "\<exists>l. wait_scan p reap s =
      do { (r, s) \<leftarrow> reap q (s\<lparr>lk := acq (ProcLock q) l\<rparr>); Some (Some r, True, s) } \<and> lksame (lk s) l"
proof -
  have split: "[0..<q] @ [q..<NPROC] = [0..<NPROC]" "[q..<NPROC] = q # [Suc q..<NPROC]"
    using assms(2) upt_add_eq_append [of 0 q "NPROC - q"] by (simp, simp add: upt_conv_Cons)
  obtain l where l: "wait_scan p reap s = for_find [q..<NPROC] (\<lambda>pp (havekids, s).
       if p_parent (procs s ! pp) = Some p then
         do { s \<leftarrow> acquire (ProcLock pp) s;
              if p_state (procs s ! pp) = ZOMBIE
              then do { (r, s) \<leftarrow> reap pp s; Some (Some r, True, s) }
              else do { s \<leftarrow> release (ProcLock pp) s; Some (None, True, s) } }
       else Some (None, havekids, s)) (\<exists>r < q. p_parent (procs s ! r) = Some p, s\<lparr>lk := l\<rparr>)"
      "lksame (lk s) l"
    using wait_scan_prefix [OF assms(1) _ assms(4), of q "[q..<NPROC]" reap] assms(2)
    unfolding split(1) wait_scan_def by auto
  have "ProcLock q \<notin> held l" using l(2) assms(1,2) by (auto simp: procs_ready_def lksame_def)
  with l assms(3) show ?thesis unfolding split(2)
    by (intro exI [of _ l], cases "reap q (s\<lparr>lk := acq (ProcLock q) l\<rparr>)") (auto simp: zombie_child_def)
qed


text \<open>Going to sleep: the condition lock is given up and only \<^verbatim>\<open>p->lock\<close> is held at the switch.\<close>

lemma sleep_enter_exact:
  assumes "lkwf (lk s)" and "held (lk s) = {L}" and "noff (mycpu s) = 1" and "L \<noteq> ProcLock p"
    and "myproc s = Some p" and "p < length (procs s)"
  shows "\<exists>ie l. sleep_enter ch L s =
      Some (ie, s\<lparr>lk := l, procs := (procs s)[p := (procs s ! p)\<lparr>p_chan := Some ch, p_state := SLEEPING\<rparr>]\<rparr>) \<and>
    held l = {ProcLock p} \<and> lkwf l \<and> same_hart (lk s) l"
proof -
  let ?l = "rel L (acq (ProcLock p) (lk s))"
  have a: "ProcLock p \<notin> held (lk s)" "L \<in> held (acq (ProcLock p) (lk s))" "lkwf (acq (ProcLock p) (lk s))"
    using assms by auto
  have tp: "tp ?l = tp (lk s)" using a by (simp add: rel_fields acq_fields)
  have noff: "noff (cpus ?l (tp (lk s))) = 1"
    using rel_fields(4) [OF a(3,2)] a assms(3) by (simp add: acq_fields mycpu_def)
  have h: "held ?l = {ProcLock p}" using a assms by auto
  have w: "lkwf ?l" using a by simp
  have cp: "c_proc (cpus ?l h) = c_proc (cpus (lk s) h)" for h using a by (simp add: rel_fields acq_fields)
  have "\<not> sie ?l" using w noff tp by (simp add: lkwf_def)
  moreover have "holding (ProcLock p) ?l" using lkwf_holding [OF w] h by simp
  ultimately show ?thesis
    using assms a tp noff h w cp
    by (auto simp: sleep_enter_def sched_def upd_proc_def myproc_def mycpu_def same_hart_def)
qed

lemma kwait_scan_start:
  assumes "procs_ready s" and "WaitLock \<notin> held (lk s)"
  shows "procs_ready (s\<lparr>lk := acq WaitLock (lk s)\<rparr>)" "myproc (s\<lparr>lk := acq WaitLock (lk s)\<rparr>) = myproc s"
  using assms by (auto simp: procs_ready_def)

lemma kwait_no_children:
  assumes "procs_ready s" and "WaitLock \<notin> held (lk s)" and "myproc s = Some p" and "\<not> has_child p s"
  shows "\<exists>l. kwait addr s = Some (Done (- 1), s\<lparr>lk := l\<rparr>) \<and> lksame (lk s) l"
proof -
  let ?s = "s\<lparr>lk := acq WaitLock (lk s)\<rparr>"
  note st = kwait_scan_start [OF assms(1,2)]
  have c: "\<not> has_child p ?s" using assms(4) by (simp add: has_child_def)
  have "\<not> zombie_child p ?s q" if "q < NPROC" for q
    using that assms(4) by (auto simp: zombie_child_def has_child_def)
  then obtain l where l: "wait_scan p (kwait_reap p addr) ?s = Some (None, has_child p ?s, ?s\<lparr>lk := l\<rparr>)"
      "lksame (lk ?s) l"
    using wait_scan_none [OF st(1)] by blast
  have w: "lkwf (lk s)" using assms(1) by (simp add: procs_ready_def)
  then have "WaitLock \<in> held l" "lkwf l" using l(2) assms(2) by (auto simp: lksame_def)
  moreover from this have "lksame (lk s) (rel WaitLock l)"
    using l(2) assms(2) w by (intro lksame_release [OF w assms(2)]) simp_all
  ultimately show ?thesis
    using l(1) c st assms(2,3)
    by (auto simp: kwait_def kwait_round_def wait_finish_def intro!: exI [of _ "rel WaitLock l"])
qed


lemma kwait_sleeps:
  assumes "procs_ready s" and "held (lk s) = {}" and "noff (mycpu s) = 0" and "myproc s = Some p" and "p < NPROC"
    and "has_child p s" and "\<And>q. q < NPROC \<Longrightarrow> \<not> zombie_child p s q" and "p_killed (procs s ! p) = 0"
  shows "\<exists>ie l. kwait addr s = Some (Asleep ie,
      s\<lparr>lk := l, procs := (procs s)[p := (procs s ! p)\<lparr>p_chan := Some (ChProc p), p_state := SLEEPING\<rparr>]\<rparr>) \<and>
    held l = {ProcLock p}"
proof -
  let ?s = "s\<lparr>lk := acq WaitLock (lk s)\<rparr>"
  have w: "lkwf (lk s)" "WaitLock \<notin> held (lk s)" using assms(1,2) by (auto simp: procs_ready_def)
  note st = kwait_scan_start [OF assms(1) w(2)]
  have c: "has_child p ?s" "\<And>q. q < NPROC \<Longrightarrow> \<not> zombie_child p ?s q"
    using assms(6,7) by (auto simp: zombie_child_def has_child_def)
  obtain l where l: "wait_scan p (kwait_reap p addr) ?s = Some (None, True, ?s\<lparr>lk := l\<rparr>)" "lksame (lk ?s) l"
    using wait_scan_none [OF st(1) c(2)] c(1) by auto
  have l1: "lkwf l" "held l = {WaitLock}" using l(2) w assms(2) by (auto simp: lksame_def)
  let ?l = "rel (ProcLock p) (acq (ProcLock p) l)"
  have k: "killed p (s\<lparr>lk := l\<rparr>) = Some (0, s\<lparr>lk := ?l\<rparr>)" using l1 assms(8) by (simp add: killed_def)
  have same: "lksame (acq WaitLock (lk s)) ?l" using lksame_trans [OF _ lksame_acq_rel] l(2) l1 by auto
  have "lkwf ?l" "held ?l = {WaitLock}" using same w assms(2) by (auto simp: lksame_def)
  moreover have "noff (mycpu (s\<lparr>lk := ?l\<rparr>)) = 1"
    using same w(2) assms(3) by (auto simp: mycpu_def lksame_def same_hart_def acq_fields)
  moreover have "myproc (s\<lparr>lk := ?l\<rparr>) = Some p"
    using same w(2) assms(4) by (auto simp: myproc_def mycpu_def lksame_def same_hart_def acq_fields)
  moreover have "p < length (procs s)" using assms(1,5) by (simp add: procs_ready_def)
  ultimately obtain ie l' where "sleep_enter (ChProc p) WaitLock (s\<lparr>lk := ?l\<rparr>) = Some (ie,
      s\<lparr>lk := l', procs := (procs s)[p := (procs s ! p)\<lparr>p_chan := Some (ChProc p), p_state := SLEEPING\<rparr>]\<rparr>)"
      "held l' = {ProcLock p}"
    using sleep_enter_exact [of "s\<lparr>lk := ?l\<rparr>" WaitLock p "ChProc p"] by auto
  then show ?thesis
    using l(1) k w(2) assms(4) st
    by (intro exI [of _ ie] exI [of _ l']) (simp add: kwait_def kwait_round_def wait_finish_def)
qed

section \<open>Process ids\<close>

lemma allocpid_exact:
  assumes "lkwf (lk s)" and "PidLock \<notin> held (lk s)"
  shows "allocpid s = Some (nextpid s, s\<lparr>lk := lktouch PidLock (lk s), nextpid := i32 (nextpid s + 1)\<rparr>)"
  using assms by (simp add: allocpid_def lktouch_def)

fun alloc_pids :: "nat \<Rightarrow> 'z kproc_scheme \<Rightarrow> (int list \<times> 'z kproc_scheme) option" where
  "alloc_pids 0 s = Some ([], s)"
| "alloc_pids (Suc n) s = do { (p, s) \<leftarrow> allocpid s; (ps, s) \<leftarrow> alloc_pids n s; Some (p # ps, s) }"

lemma alloc_pids_consecutive:
  assumes "lkwf (lk s)" and "PidLock \<notin> held (lk s)" and "nextpid s + int n < 2147483648" and "0 < nextpid s"
  shows "\<exists>s'. alloc_pids n s = Some (map (\<lambda>i. nextpid s + int i) [0..<n], s') \<and> nextpid s' = nextpid s + int n"
  using assms
proof (induction n arbitrary: s)
  case 0
  then show ?case by simp
next
  case (Suc n)
  let ?s = "s\<lparr>lk := lktouch PidLock (lk s), nextpid := nextpid s + 1\<rparr>"
  have e: "allocpid s = Some (nextpid s, ?s)"
    using Suc.prems allocpid_exact [of s] by (simp add: is_i32_def)
  have "lksame (lk s) (lk ?s)" using Suc.prems by simp
  then have "lkwf (lk ?s)" "PidLock \<notin> held (lk ?s)" using Suc.prems by (auto simp: lksame_def)
  with Suc.IH [of ?s] Suc.prems obtain s' where
    "alloc_pids n ?s = Some (map (\<lambda>i. nextpid s + 1 + int i) [0..<n], s')" "nextpid s' = nextpid s + 1 + int n"
    by auto
  with e show ?case
    by (simp add: upt_conv_Cons map_Suc_upt [symmetric] add.assoc del: upt_Suc)
qed


section \<open>Properties\<close>

text \<open>
  C1: in each round the scheduler hands the CPU to the runnable process with the best priority
  (the smallest number), the first in the table among equals, marks it running, and reaches the
  switch with that process's lock held; when nothing is runnable it leaves the table alone.
\<close>

theorem scheduler_runs_best_priority:
  assumes "procs_ready s" and "\<forall>p < NPROC. runnable s p \<longrightarrow> prio s p \<le> 20"
  shows "if \<exists>p < NPROC. runnable s p
    then \<exists>p s'. scheduler_round s = Some (Some p, s') \<and> due s p \<and>
      procs s' = (procs s)[p := (procs s ! p)\<lparr>p_state := RUNNING\<rparr>] \<and> myproc s' = Some p \<and>
      held (lk s') = insert (ProcLock p) (held (lk s))
    else \<exists>s'. scheduler_round s = Some (None, s') \<and> procs s' = procs s \<and> held (lk s') = held (lk s)"
proof (cases "\<exists>p < NPROC. runnable s p")
  case True
  then obtain p where p: "due s p" using due_exists by blast
  then have "prio s p \<le> 20" using assms(2) by (simp add: due_def)
  with scheduler_picks_due [OF assms(1) p] p True show ?thesis by auto
next
  case False
  let ?s = "s\<lparr>lk := (lk s)\<lparr>sie := False\<rparr>\<rparr>"
  have h: "held ((lk s)\<lparr>sie := False\<rparr>) = held (lk s)" by (simp add: held_def)
  then have r: "procs_ready ?s" using assms(1) by (simp add: procs_ready_def lkwf_def)
  have "best_upto NPROC ?s = 21"
    using best_upto_spec(3) [of NPROC ?s] False by (auto simp: runnable_def)
  then show ?thesis
    using sched_best_exact [OF r] False h by (auto simp: scheduler_round_def lksame_def)
qed

text \<open>A kernel whose table is empty but for the given entries.\<close>

definition blank_proc :: proc where
  "blank_proc = \<lparr>p_state = UNUSED, p_chan = None, p_killed = 0, p_xstate = 0, p_pid = 0, p_parent = None,
     p_kstack = 0, p_sz = 0, p_pagetable = 0, p_trapframe = 0,
     p_context = \<lparr>ctx_ra = 0, ctx_sp = 0, ctx_s = replicate 12 0\<rparr>, p_ofile = replicate 16 None, p_cwd = None,
     p_name = replicate 16 0, p_priority = 0, p_ctime = 0, p_rtime = 0, p_stime = 0,
     p_shm = replicate 8 \<lparr>sa_key = 0, sa_uva = 0, sa_npages = 0\<rparr>\<rparr>"

lemma blank_proc_simps [simp]:
  "p_state blank_proc = UNUSED" "p_chan blank_proc = None" "p_killed blank_proc = 0" "p_pid blank_proc = 0"
  "p_parent blank_proc = None" "p_stime blank_proc = 0" "p_rtime blank_proc = 0" "p_sz blank_proc = 0"
  "p_pagetable blank_proc = 0" "p_trapframe blank_proc = 0"
  by (simp_all add: blank_proc_def)

definition sample_kernel :: "proc list \<Rightarrow> kproc" where
  "sample_kernel ps = \<lparr>lk = boot_lk, kend = 0x80020000, freelist = 0, mem = (\<lambda>_. 0),
     procs = ps @ replicate (64 - length ps) blank_proc, initproc = Some 0, nextpid = 10,
     readcount = 0, ticks = 0, trampoline = 0x80007000, forkret_addr = 0x80001000\<rparr>"

lemma sample_kernel_simps [simp]:
  "lk (sample_kernel ps) = boot_lk" "nextpid (sample_kernel ps) = 10"
  "readcount (sample_kernel ps) = 0" "mem (sample_kernel ps) = (\<lambda>_. 0)"
  "myproc (sample_kernel ps) = None"
  by (simp_all add: sample_kernel_def myproc_def mycpu_def boot_lk_def)

lemma sample_kernel_procs:
  "length ps \<le> 64 \<Longrightarrow> procs (sample_kernel ps) ! i =
     (if i < length ps then ps ! i else if i < 64 then blank_proc else procs (sample_kernel ps) ! i)"
  by (simp add: sample_kernel_def nth_append)

lemma sample_kernel_ready: "length ps \<le> 64 \<Longrightarrow> procs_ready (sample_kernel ps)"
  by (simp add: procs_ready_def NPROC_def) (simp add: sample_kernel_def)

definition two_runnable :: kproc where
  "two_runnable = sample_kernel
     [blank_proc\<lparr>p_state := RUNNABLE, p_pid := 1, p_priority := 10\<rparr>,
      blank_proc\<lparr>p_state := RUNNABLE, p_pid := 2, p_priority := 3\<rparr>]"

lemma two_runnable_at:
  "i < 64 \<Longrightarrow> procs two_runnable ! i =
    (if i = 0 then blank_proc\<lparr>p_state := RUNNABLE, p_pid := 1, p_priority := 10\<rparr>
     else if i = 1 then blank_proc\<lparr>p_state := RUNNABLE, p_pid := 2, p_priority := 3\<rparr> else blank_proc)"
  by (auto simp: two_runnable_def sample_kernel_procs nth_Cons')

lemma two_runnable_ready: "procs_ready two_runnable"
  by (simp add: two_runnable_def sample_kernel_ready)

theorem scheduler_runs_best_priority_witness:
  "\<exists>s'. scheduler_round two_runnable = Some (Some 1, s') \<and> myproc s' = Some 1"
proof -
  have r: "runnable two_runnable p \<longleftrightarrow> p = 0 \<or> p = 1" if "p < NPROC" for p
    using that by (simp add: runnable_def two_runnable_at NPROC_def)
  have pr: "prio two_runnable 0 = 10" "prio two_runnable 1 = 3"
    by (simp_all add: prio_def two_runnable_at)
  have pre: "\<forall>p < NPROC. runnable two_runnable p \<longrightarrow> prio two_runnable p \<le> 20" using r pr by auto
  have ex: "\<exists>p < NPROC. runnable two_runnable p" using r [of 0] by (intro exI [of _ 0]) (simp add: NPROC_def)
  obtain p s' where p: "scheduler_round two_runnable = Some (Some p, s')" "due two_runnable p" "myproc s' = Some p"
    using scheduler_runs_best_priority [OF two_runnable_ready pre] ex by auto
  have "p = 1"
  proof -
    have "p = 0 \<or> p = 1" using p(2) r [of p] by (simp add: due_def)
    moreover have "prio two_runnable p \<le> prio two_runnable 1"
      using p(2) r [of 1] by (simp add: due_def NPROC_def)
    ultimately show ?thesis using pr by auto
  qed
  with p show ?thesis by auto
qed



text \<open>
  C17: \<^verbatim>\<open>wakeup\<close> makes runnable exactly the other processes that sleep on the channel, changes no
  other entry and no other field, and returns with the locks as they were.
\<close>

theorem wakeup_wakes_exactly_the_sleepers:
  assumes "procs_ready s"
  shows "\<exists>s'. wakeup ch s = Some s' \<and> lksame (lk s) (lk s') \<and>
    (\<forall>p < NPROC. procs s' ! p =
      (if Some p \<noteq> myproc s \<and> p_state (procs s ! p) = SLEEPING \<and> p_chan (procs s ! p) = Some ch
       then (procs s ! p)\<lparr>p_state := RUNNABLE\<rparr> else procs s ! p))"
  using wakeup_exact [OF assms, of ch] by (auto simp: woken_def)

theorem wakeup_wakes_exactly_the_sleepers_witness:
  "\<exists>s'. wakeup ChTicks (sample_kernel [blank_proc\<lparr>p_state := SLEEPING, p_chan := Some ChTicks\<rparr>]) = Some s' \<and>
     p_state (procs s' ! 0) = RUNNABLE"
  using wakeup_wakes_exactly_the_sleepers
      [OF sample_kernel_ready, of "[blank_proc\<lparr>p_state := SLEEPING, p_chan := Some ChTicks\<rparr>]" ChTicks]
  by (auto simp: sample_kernel_procs NPROC_def)

text \<open>
  C19: a clock tick adds one to the running time of every running process and one to the waiting
  time of every runnable process, in 32-bit arithmetic, and changes nothing else in the table.
\<close>

theorem update_time_stats_accounts_each_tick:
  assumes "procs_ready s"
  shows "\<exists>s'. update_time_stats s = Some s' \<and> lksame (lk s) (lk s') \<and>
    (\<forall>p < NPROC. procs s' ! p = (case p_state (procs s ! p) of
        RUNNING \<Rightarrow> (procs s ! p)\<lparr>p_rtime := p_rtime (procs s ! p) + 1\<rparr>
      | RUNNABLE \<Rightarrow> (procs s ! p)\<lparr>p_stime := p_stime (procs s ! p) + 1\<rparr>
      | _ \<Rightarrow> procs s ! p))"
  using update_time_stats_exact [OF assms] by (auto simp: ticked_def split: procstate.split)

theorem update_time_stats_accounts_each_tick_witness:
  "\<exists>s'. update_time_stats two_runnable = Some s' \<and> p_stime (procs s' ! 0) = 1 \<and> p_rtime (procs s' ! 0) = 0"
  using update_time_stats_accounts_each_tick [OF two_runnable_ready]
  by (auto simp: NPROC_def two_runnable_at)



text \<open>
  C33: process ids handed out by successive \<^verbatim>\<open>allocpid\<close> calls are positive and pairwise different,
  as long as the 32-bit counter does not overflow.
\<close>

theorem allocpid_never_repeats:
  assumes "lkwf (lk s)" and "PidLock \<notin> held (lk s)" and "nextpid s + int n < 2147483648" and "0 < nextpid s"
  shows "\<exists>pids s'. alloc_pids n s = Some (pids, s') \<and> length pids = n \<and> distinct pids \<and> (\<forall>i \<in> set pids. 0 < i)"
  using alloc_pids_consecutive [OF assms] assms(4) by (auto simp: distinct_map inj_on_def)

theorem allocpid_never_repeats_witness:
  "\<exists>a b s'. alloc_pids 2 (sample_kernel []) = Some ([a, b], s') \<and> a \<noteq> b"
  using allocpid_never_repeats [of "sample_kernel []" 2]
  by (fastforce simp: length_Suc_conv numeral_2_eq_2 simp del: alloc_pids.simps)

end
