(* ===== verification/Shm.thy ===== *)
theory Shm
  imports Procprops "HOL-Library.Signed_Division"
begin

text \<open>
  \<^verbatim>\<open>kernel/shm.c\<close>: shared memory regions. The table of regions is global and protected by
  \<^verbatim>\<open>shm_lock\<close>; each process keeps the list of its attachments in \<^verbatim>\<open>p->shm\<close>.
\<close>

section \<open>State\<close>

definition SHM_SLOTS :: nat where "SHM_SLOTS = 8"
definition SHM_MAXPGS :: int where "SHM_MAXPGS = 4"
definition PROC_SHM_SLOTS :: nat where "PROC_SHM_SLOTS = 8"

record shmregion =
  sr_key :: int
  sr_npages :: int
  sr_pages :: "u64 list"
  sr_refcount :: int

record kshm = kproc +
  shm_table :: "shmregion list"

definition upd_shm :: "nat \<Rightarrow> (shmregion \<Rightarrow> shmregion) \<Rightarrow> 'z kshm_scheme \<Rightarrow> 'z kshm_scheme" where
  "upd_shm i f s = s\<lparr>shm_table := (shm_table s)[i := f (shm_table s ! i)]\<rparr>"

definition find_key :: "int \<Rightarrow> 'z kshm_scheme \<Rightarrow> nat option" where
  "find_key key s = find (\<lambda>i. sr_key (shm_table s ! i) = key) [0..<SHM_SLOTS]"

definition find_pslot :: "int \<Rightarrow> nat \<Rightarrow> 'z kproc_scheme \<Rightarrow> nat option" where
  "find_pslot key p s = find (\<lambda>i. sa_key (p_shm (procs s ! p) ! i) = key) [0..<PROC_SHM_SLOTS]"

section \<open>Operations\<close>

definition shminit :: "'z kshm_scheme \<Rightarrow> 'z kshm_scheme" where
  "shminit s =
     (let s = s\<lparr>lk := initlock ShmLock ''shm'' (lk s)\<rparr>
      in fold (\<lambda>i. upd_shm i (\<lambda>r. r\<lparr>sr_key := 0\<rparr>)) [0..<SHM_SLOTS] s)"

text \<open>
  Allocating the pages of a new region in slot \<open>i\<close>; \<^term>\<open>True\<close> when memory ran out and the pages
  were given back.
\<close>

definition shm_alloc :: "nat \<Rightarrow> int \<Rightarrow> 'z kshm_scheme \<Rightarrow> (bool \<times> 'z kshm_scheme) option" where
  "shm_alloc i npages s =
     do { (r, s) \<leftarrow> for_find [0..<nat npages] (\<lambda>j s.
            do { (pa, s) \<leftarrow> kalloc s;
                 if pa = 0
                 then do { s \<leftarrow> for_each [0..<j] (\<lambda>k s. kfree (sr_pages (shm_table s ! i) ! k) s) s;
                           Some (Some (), upd_shm i (\<lambda>r. r\<lparr>sr_key := 0\<rparr>) s) }
                 else let s = s\<lparr>mem := memset (mem s) pa 0 4096\<rparr>
                      in Some (None, upd_shm i (\<lambda>r. r\<lparr>sr_pages := (sr_pages r)[j := pa]\<rparr>) s) }) s;
          Some (r \<noteq> None, s) }"

text \<open>Mapping the pages of the region in slot \<open>i\<close>; \<^term>\<open>True\<close> when it failed and was undone.\<close>

definition shm_map :: "nat \<Rightarrow> nat \<Rightarrow> u64 \<Rightarrow> 'z kshm_scheme \<Rightarrow> (bool \<times> 'z kshm_scheme) option" where
  "shm_map p i uva s =
     do { (r, s) \<leftarrow> for_find [0..<nat (sr_npages (shm_table s ! i))] (\<lambda>j s.
            do { (c, s) \<leftarrow> mappages (p_pagetable (procs s ! p)) (uva + of_nat j * PGSIZE) PGSIZE
                    (sr_pages (shm_table s ! i) ! j) (PTE_R OR PTE_W OR PTE_U) s;
                 if c < 0
                 then do { s \<leftarrow> uvmunmap (p_pagetable (procs s ! p)) uva (of_nat j) False s;
                           Some (Some (), s) }
                 else Some (None, s) }) s;
          Some (r \<noteq> None, s) }"

text \<open>\<^verbatim>\<open>shm_open\<close> once the slot of the region is known (line 84 on).\<close>

definition shm_attach :: "nat \<Rightarrow> nat \<Rightarrow> int \<Rightarrow> 'z kshm_scheme \<Rightarrow> (u64 \<times> 'z kshm_scheme) option" where
  "shm_attach p i key s =
     (case find_pslot key p s of
        Some k \<Rightarrow> do { s \<leftarrow> release ShmLock s; Some (sa_uva (p_shm (procs s ! p) ! k), s) }
      | None \<Rightarrow>
          (case find_pslot 0 p s of
             None \<Rightarrow> do { s \<leftarrow> release ShmLock s; Some (- 1, s) }
           | Some pslot \<Rightarrow>
               let uva = PGROUNDUP (p_sz (procs s ! p));
                   map_size = word_of_int (sr_npages (shm_table s ! i)) * PGSIZE
               in if uva + map_size > TRAPFRAME
                  then do { s \<leftarrow> release ShmLock s; Some (- 1, s) }
                  else do { (failed, s) \<leftarrow> shm_map p i uva s;
                            if failed then do { s \<leftarrow> release ShmLock s; Some (- 1, s) }
                            else let s = upd_proc p (\<lambda>x. x\<lparr>p_sz := uva + map_size,
                                       p_shm := (p_shm x)[pslot := \<lparr>sa_key = key, sa_uva = uva,
                                         sa_npages = sr_npages (shm_table s ! i)\<rparr>]\<rparr>) s;
                                     s = upd_shm i (\<lambda>r. r\<lparr>sr_refcount := i32 (sr_refcount r + 1)\<rparr>) s
                                 in do { s \<leftarrow> release ShmLock s; Some (uva, s) } }))"

definition shm_pages :: "int \<Rightarrow> int" where
  "shm_pages size_arg =
     (let npages = i32 (size_arg + 4096 - 1) sdiv 4096
      in if npages > SHM_MAXPGS then SHM_MAXPGS else npages)"

definition shm_open :: "int \<Rightarrow> int \<Rightarrow> 'z kshm_scheme \<Rightarrow> (u64 \<times> 'z kshm_scheme) option" where
  "shm_open key size_arg s =
     do { p \<leftarrow> myproc s;
          if key \<le> 0 \<or> size_arg \<le> 0 then Some (- 1, s)
          else let npages = shm_pages size_arg in
            do { s \<leftarrow> acquire ShmLock s;
                 case find_key key s of
                   Some i \<Rightarrow> shm_attach p i key s
                 | None \<Rightarrow>
                     (case find_key 0 s of
                        None \<Rightarrow> do { s \<leftarrow> release ShmLock s; Some (- 1, s) }
                      | Some i \<Rightarrow>
                          let s = upd_shm i (\<lambda>r. r\<lparr>sr_key := key, sr_npages := npages, sr_refcount := 0\<rparr>) s
                          in do { (failed, s) \<leftarrow> shm_alloc i npages s;
                                  if failed then do { s \<leftarrow> release ShmLock s; Some (- 1, s) }
                                  else shm_attach p i key s }) } }"

definition shm_close :: "int \<Rightarrow> 'z kshm_scheme \<Rightarrow> (int \<times> 'z kshm_scheme) option" where
  "shm_close key s =
     do { p \<leftarrow> myproc s;
          if key \<le> 0 then Some (- 1, s)
          else do { s \<leftarrow> acquire ShmLock s;
                    case find_pslot key p s of
                      None \<Rightarrow> do { s \<leftarrow> release ShmLock s; Some (- 1, s) }
                    | Some pslot \<Rightarrow>
                        (case find_key key s of
                           None \<Rightarrow> do { s \<leftarrow> release ShmLock s; Some (- 1, s) }
                         | Some i \<Rightarrow>
                             let a = p_shm (procs s ! p) ! pslot in
                             do { s \<leftarrow> uvmunmap (p_pagetable (procs s ! p)) (sa_uva a) (word_of_int (sa_npages a)) False s;
                                  let s = upd_proc p (\<lambda>x. x\<lparr>p_shm := (p_shm x)[pslot :=
                                    \<lparr>sa_key = 0, sa_uva = 0, sa_npages = 0\<rparr>]\<rparr>) s;
                                  let s = upd_shm i (\<lambda>r. r\<lparr>sr_refcount := i32 (sr_refcount r - 1)\<rparr>) s;
                                  s \<leftarrow> (if sr_refcount (shm_table s ! i) \<le> 0
                                        then do { s \<leftarrow> for_each [0..<nat (sr_npages (shm_table s ! i))]
                                                    (\<lambda>j s. kfree (sr_pages (shm_table s ! i) ! j) s) s;
                                                  Some (upd_shm i (\<lambda>r. r\<lparr>sr_key := 0, sr_npages := 0,
                                                    sr_refcount := 0\<rparr>) s) }
                                        else Some s);
                                  s \<leftarrow> release ShmLock s;
                                  Some (0, s) }) } }"

end
