(* ===== verification/Shmprops.thy ===== *)
theory Shmprops
  imports Shm
begin

text \<open>
  Shared memory: what \<^verbatim>\<open>shm_open\<close> and \<^verbatim>\<open>shm_close\<close> do to the page table, the region table and the
  process, on success and on every error branch.
\<close>

unbundle bit_operations_syntax

lemma kstrip_kshm [simp]: "shm_table (kstrip s) = shm_table s"
  by (simp add: kstrip_def)

lemma kframe_kshm: "kframe (s :: 'z kshm_scheme) s' \<Longrightarrow> shm_table s' = shm_table s"
  unfolding kframe_def by (metis kstrip_kshm)

section \<open>Mapping a region\<close>

definition shm_pte :: "u64 list \<Rightarrow> u64 \<Rightarrow> u64 \<Rightarrow> u64" where
  "shm_pte pages uva v = PA2PTE (pages ! (pn v - pn uva)) OR (PTE_R OR PTE_W OR PTE_U) OR PTE_V"

definition region_mapped :: "u64 \<Rightarrow> u64 \<Rightarrow> u64 list \<Rightarrow> nat \<Rightarrow> memory \<Rightarrow> memory \<Rightarrow> bool" where
  "region_mapped pt uva pages k m m' \<longleftrightarrow> (\<forall>v < MAXVA. pte_at m' pt v =
     (if pn uva \<le> pn v \<and> pn v < pn uva + k then shm_pte pages uva v else pte_at m pt v))"

lemma region_mapped_0: "region_mapped pt uva pages 0 m m' \<longleftrightarrow> (\<forall>v < MAXVA. pte_at m' pt v = pte_at m pt v)"
  unfolding region_mapped_def by (intro all_cong) auto

definition shm_map_body where
  "shm_map_body p i uva j s =
     do { (c, s) \<leftarrow> mappages (p_pagetable (procs s ! p)) (uva + of_nat j * PGSIZE) PGSIZE
             (sr_pages (shm_table s ! i) ! j) (PTE_R OR PTE_W OR PTE_U) s;
          if c < 0
          then do { s \<leftarrow> uvmunmap (p_pagetable (procs s ! p)) uva (of_nat j) False s; Some (Some (), s) }
          else Some (None, s) }"

lemma nth_page:
  assumes "page_aligned uva" and "unat uva + 4096 * n \<le> 274877906944" and "j < n"
  shows "page_aligned (uva + of_nat j * PGSIZE)" and "pn (uva + of_nat j * PGSIZE) = pn uva + j"
    and "unat (uva + of_nat j * PGSIZE) + 4096 \<le> 274877906944"
proof -
  have "unat (of_nat j * PGSIZE :: u64) = j * 4096"
    using assms(2,3) by (simp add: unat_word_ariths PGSIZE_def)
  then have u: "unat (uva + of_nat j * PGSIZE) = unat uva + j * 4096"
    using assms(2,3) by (simp add: unat_word_ariths)
  obtain k where k: "unat uva = 4096 * k" using assms(1) by (rule page_alignedE)
  show "page_aligned (uva + of_nat j * PGSIZE)" using k by (simp add: page_aligned_unat u)
  show "pn (uva + of_nat j * PGSIZE) = pn uva + j" using k by (simp add: pn_def u)
  show "unat (uva + of_nat j * PGSIZE) + 4096 \<le> 274877906944" using u assms(2,3) by simp
qed

lemma mappages_one:
  assumes "vm_ok s pt fr" and "page_aligned a" and "unat a + 4096 \<le> 274877906944"
    and "pte_at (mem s) pt a AND PTE_V = 0"
  shows "\<exists>r s' fr'. mappages pt a PGSIZE pa perm s = Some (r, s') \<and> vm_ext pt s fr s' fr' \<and>
    (r = 0 \<and> (\<forall>v < MAXVA. pte_at (mem s') pt v = (if pn v = pn a then PA2PTE pa OR perm OR PTE_V else pte_at (mem s) pt v))
     \<or> r = - 1 \<and> fr' = [] \<and> length fr < 2 \<and> (\<forall>v < MAXVA. pte_at (mem s') pt v = pte_at (mem s) pt v)) \<and>
    length fr \<le> length fr' + 2"
proof -
  have a: "a < MAXVA" using assms(3) by (simp add: MAXVA_val word_less_nat_alt)
  have "mappages pt a PGSIZE pa perm s = mappages_loop pt a a pa perm s"
    using assms(2) by (simp add: mappages_def page_aligned_def) (simp add: PGSIZE_def)
  with map_step [OF assms(1) a assms(4)] show ?thesis
  proof cases
    case (1 s1)
    then show ?thesis using \<open>mappages pt a PGSIZE pa perm s = mappages_loop pt a a pa perm s\<close>
      by (auto simp: mappages_loop.simps [of pt a] vm_grow_def intro!: exI [of _ "[]"])
  next
    case (2 r s1 fr1)
    then show ?thesis using \<open>mappages pt a PGSIZE pa perm s = mappages_loop pt a a pa perm s\<close>
      by (auto simp: mappages_loop.simps [of pt a] intro!: exI [of _ fr1])
  qed
qed


lemma shrink_nothing_ext: "vm_shrink pt s fr s' [] \<Longrightarrow> vm_ext pt s fr s' fr"
  by (auto simp: vm_shrink_def vm_ext_def)

lemma shm_pte_valid [simp]: "shm_pte pages uva v AND PTE_V \<noteq> 0"
  by (simp add: shm_pte_def)

text \<open>The failure branch of the loop takes the mappings made so far out again.\<close>

lemma shm_unmap_undoes:
  assumes "vm_ok s1 pt fr1" and "region_mapped pt uva pages j m (mem s1)"
    and "page_aligned uva" and "unat uva + 4096 * j \<le> 274877906944"
    and "\<forall>v < MAXVA. pn uva \<le> pn v \<and> pn v < pn uva + j \<longrightarrow> pte_at m pt v = 0"
  obtains s2 where "uvmunmap pt uva (of_nat j) False s1 = Some s2" "vm_ext pt s1 fr1 s2 fr1"
    "region_mapped pt uva pages 0 m (mem s2)"
proof -
  obtain s2 fs where u: "uvmunmap pt uva (of_nat j) False s1 = Some s2" "vm_shrink pt s1 fr1 s2 fs"
      "set fs = {}" "unmapped_range pt (pn uva) j s1 s2"
    using uvmunmap_spec [OF assms(1,3,4), of False] by auto
  then have "vm_ext pt s1 fr1 s2 fr1" using shrink_nothing_ext by simp
  moreover have "region_mapped pt uva pages 0 m (mem s2)"
    unfolding region_mapped_def
  proof (intro allI impI)
    fix v assume v: "v < MAXVA"
    have "pte_at (mem s1) pt v = (if pn uva \<le> pn v \<and> pn v < pn uva + j then shm_pte pages uva v else pte_at m pt v)"
      using assms(2) v by (simp add: region_mapped_def)
    moreover have "pte_at (mem s2) pt v = (if pn uva \<le> pn v \<and> pn v < pn uva + j \<and> pte_at (mem s1) pt v AND PTE_V \<noteq> 0
        then 0 else pte_at (mem s1) pt v)" using u(4) v by (simp add: unmapped_range_def)
    ultimately show "pte_at (mem s2) pt v =
        (if pn uva \<le> pn v \<and> pn v < pn uva + 0 then shm_pte pages uva v else pte_at m pt v)"
      using assms(5) v by (cases "pn uva \<le> pn v \<and> pn v < pn uva + j") auto
  qed
  ultimately show thesis using u(1) that by blast
qed

lemma shm_map_prefix:
  fixes s :: "'z kshm_scheme"
  assumes ok: "vm_ok s pt fr" and pt: "pt = p_pagetable (procs s ! p)" and pg: "pages = sr_pages (shm_table s ! i)"
    and al: "page_aligned uva" and top: "unat uva + 4096 * n \<le> 274877906944"
    and un: "\<forall>v < MAXVA. pn uva \<le> pn v \<and> pn v < pn uva + n \<longrightarrow> pte_at (mem s) pt v = 0" and "k \<le> n"
  shows "\<exists>r s' fr'. for_find [0..<k] (shm_map_body p i uva) s = Some (r, s') \<and> vm_ext pt s fr s' fr' \<and>
    (r = None \<and> region_mapped pt uva pages k (mem s) (mem s') \<and> length fr \<le> length fr' + 2 * k \<or>
     r = Some () \<and> region_mapped pt uva pages 0 (mem s) (mem s') \<and> length fr < 2 * k)"
  using assms(7)
proof (induction k)
  case 0
  have "vm_ext pt s fr s fr" using vm_grow_refl [OF ok] by (simp add: vm_grow_def)
  then show ?case by (intro exI [of _ None] exI [of _ s] exI [of _ fr]) (auto simp: region_mapped_def)
next
  case (Suc k)
  then obtain r s1 fr1 where r: "for_find [0..<k] (shm_map_body p i uva) s = Some (r, s1)" "vm_ext pt s fr s1 fr1"
    "r = None \<and> region_mapped pt uva pages k (mem s) (mem s1) \<and> length fr \<le> length fr1 + 2 * k \<or>
     r = Some () \<and> region_mapped pt uva pages 0 (mem s) (mem s1) \<and> length fr < 2 * k" by auto
  show ?case
  proof (cases r)
    case (Some u)
    then show ?thesis using r by (intro exI [of _ r] exI [of _ s1] exI [of _ fr1]) (auto simp: for_find_append)
  next
    case None
    let ?a = "uva + of_nat k * PGSIZE"
    note a = nth_page [OF al top, of k]
    have k: "k < n" using Suc.prems by simp
    have fr: "procs s1 = procs s" "shm_table s1 = shm_table s"
      using r(2) kframe_kproc(1) kframe_kshm by (auto simp: vm_ext_def)
    have aM: "?a < MAXVA" using a(3) [OF k] by (simp add: MAXVA_val word_less_nat_alt)
    have rm: "region_mapped pt uva pages k (mem s) (mem s1)" using r(3) None by simp
    then have "pte_at (mem s1) pt ?a = 0"
      using un aM a(2) [OF k] k by (simp add: region_mapped_def)
    then obtain c s2 fr2 where m: "mappages pt ?a PGSIZE (pages ! k) (PTE_R OR PTE_W OR PTE_U) s1 = Some (c, s2)"
        "vm_ext pt s1 fr1 s2 fr2" "length fr1 \<le> length fr2 + 2"
        "c = 0 \<and> (\<forall>v < MAXVA. pte_at (mem s2) pt v = (if pn v = pn ?a then
            PA2PTE (pages ! k) OR (PTE_R OR PTE_W OR PTE_U) OR PTE_V else pte_at (mem s1) pt v))
         \<or> c = - 1 \<and> fr2 = [] \<and> length fr1 < 2 \<and> (\<forall>v < MAXVA. pte_at (mem s2) pt v = pte_at (mem s1) pt v)"
      using mappages_one [OF vm_ext_ok [OF r(2)] a(1) [OF k] a(3) [OF k]] by fastforce
    have ext: "vm_ext pt s fr s2 fr2" using r(2) m(2) by (rule vm_ext_trans)
    have fr2: "procs s2 = procs s" using ext kframe_kproc(1) by (auto simp: vm_ext_def)
    show ?thesis
    proof (cases "c = 0")
      case True
      then have "\<forall>v < MAXVA. pte_at (mem s2) pt v = (if pn v = pn uva + k then shm_pte pages uva v else pte_at (mem s1) pt v)"
        using m(4) a(2) [OF k] by (simp add: shm_pte_def)
      then have "region_mapped pt uva pages (Suc k) (mem s) (mem s2)"
        using rm by (auto simp: region_mapped_def less_Suc_eq)
      moreover have "for_find [0..<Suc k] (shm_map_body p i uva) s = Some (None, s2)"
        using r(1) None m(1) True fr pt pg by (simp add: for_find_append shm_map_body_def)
      ultimately show ?thesis using ext m(3) r(3) None by (intro exI [of _ None] exI [of _ s2] exI [of _ fr2]) auto
    next
      case False
      then have c: "c = - 1" "length fr1 < 2" "\<forall>v < MAXVA. pte_at (mem s2) pt v = pte_at (mem s1) pt v" using m(4) by auto
      have "region_mapped pt uva pages k (mem s) (mem s2)" using rm c(3) by (simp add: region_mapped_def)
      then obtain s3 where u: "uvmunmap pt uva (of_nat k) False s2 = Some s3" "vm_ext pt s2 fr2 s3 fr2"
          "region_mapped pt uva pages 0 (mem s) (mem s3)"
        using shm_unmap_undoes [OF vm_ext_ok [OF ext] _ al] top un k by force
      have "for_find [0..<Suc k] (shm_map_body p i uva) s = Some (Some (), s3)"
        using r(1) None m(1) c(1) u(1) fr fr2 pt pg by (simp add: for_find_append shm_map_body_def)
      moreover have "vm_ext pt s fr s3 fr2" using ext u(2) by (rule vm_ext_trans)
      ultimately show ?thesis using u(3) r(3) None c(2)
        by (intro exI [of _ "Some ()"] exI [of _ s3] exI [of _ fr2]) auto
    qed
  qed
qed


lemma shm_map_spec:
  assumes "vm_ok s pt fr" and "pt = p_pagetable (procs s ! p)" and "n = nat (sr_npages (shm_table s ! i))"
    and "page_aligned uva" and "unat uva + 4096 * n \<le> 274877906944"
    and "\<forall>v < MAXVA. pn uva \<le> pn v \<and> pn v < pn uva + n \<longrightarrow> pte_at (mem s) pt v = 0"
  shows "\<exists>failed s' fr'. shm_map p i uva s = Some (failed, s') \<and> vm_ext pt s fr s' fr' \<and>
    region_mapped pt uva (sr_pages (shm_table s ! i)) (if failed then 0 else n) (mem s) (mem s') \<and>
    (failed \<longrightarrow> length fr < 2 * n)"
proof -
  have eq: "shm_map p i uva s =
      do { (r, s) \<leftarrow> for_find [0..<n] (shm_map_body p i uva) s; Some (r \<noteq> None, s) }"
    unfolding shm_map_def assms(3) shm_map_body_def [abs_def] ..
  obtain r s' fr' where "for_find [0..<n] (shm_map_body p i uva) s = Some (r, s')" "vm_ext pt s fr s' fr'"
      "region_mapped pt uva (sr_pages (shm_table s ! i)) (if r = None then n else 0) (mem s) (mem s')"
      "r \<noteq> None \<longrightarrow> length fr < 2 * n"
    using shm_map_prefix [OF assms(1,2) refl [of "sr_pages (shm_table s ! i)"] assms(4,5,6) order_refl] by auto
  then show ?thesis by (cases r; intro exI [of _ "r \<noteq> None"] exI [of _ s'] exI [of _ fr']; simp add: eq)
qed

section \<open>Attaching\<close>

lemma shm_attach_again:
  assumes "find_pslot key p s = Some k" and "lkwf (lk s)" and "ShmLock \<in> held (lk s)"
  shows "shm_attach p i key s = Some (sa_uva (p_shm (procs s ! p) ! k), s\<lparr>lk := rel ShmLock (lk s)\<rparr>)"
  using assms by (simp add: shm_attach_def)

lemma shm_attach_full:
  assumes "find_pslot key p s = None" and "find_pslot 0 p s = None" and "lkwf (lk s)" and "ShmLock \<in> held (lk s)"
  shows "shm_attach p i key s = Some (- 1, s\<lparr>lk := rel ShmLock (lk s)\<rparr>)"
  using assms by (simp add: shm_attach_def)

lemma shm_attach_no_room:
  assumes "find_pslot key p s = None" and "find_pslot 0 p s = Some k" and "lkwf (lk s)" and "ShmLock \<in> held (lk s)"
    and "PGROUNDUP (p_sz (procs s ! p)) + word_of_int (sr_npages (shm_table s ! i)) * PGSIZE > TRAPFRAME"
  shows "shm_attach p i key s = Some (- 1, s\<lparr>lk := rel ShmLock (lk s)\<rparr>)"
  using assms by (simp add: shm_attach_def Let_def)

definition attached :: "nat \<Rightarrow> nat \<Rightarrow> int \<Rightarrow> nat \<Rightarrow> u64 \<Rightarrow> 'z kshm_scheme \<Rightarrow> 'z kshm_scheme \<Rightarrow> bool" where
  "attached p i key pslot uva s s' \<longleftrightarrow>
     procs s' = (procs s)[p := (procs s ! p)\<lparr>
       p_sz := uva + word_of_int (sr_npages (shm_table s ! i)) * PGSIZE,
       p_shm := (p_shm (procs s ! p))[pslot := \<lparr>sa_key = key, sa_uva = uva,
         sa_npages = sr_npages (shm_table s ! i)\<rparr>]\<rparr>] \<and>
     shm_table s' = (shm_table s)[i := (shm_table s ! i)\<lparr>
       sr_refcount := i32 (sr_refcount (shm_table s ! i) + 1)\<rparr>]"

lemma shm_attach_maps:
  assumes "vm_ok s pt fr" and "pt = p_pagetable (procs s ! p)" and "n = nat (sr_npages (shm_table s ! i))"
    and uva: "uva = PGROUNDUP (p_sz (procs s ! p))"
    and room: "unat uva + 4096 * n \<le> unat TRAPFRAME" and "0 \<le> sr_npages (shm_table s ! i)"
    and un: "\<forall>v < MAXVA. pn uva \<le> pn v \<and> pn v < pn uva + n \<longrightarrow> pte_at (mem s) pt v = 0"
    and slots: "find_pslot key p s = None" "find_pslot 0 p s = Some pslot" and held: "ShmLock \<in> held (lk s)"
  shows "\<exists>r s' fr' l. shm_attach p i key s = Some (r, s') \<and> lksame (lk s) l \<and> lk s' = rel ShmLock l \<and>
    freelist_rep s' fr' \<and> pt_wf (mem s') pt \<and>
    (r = uva \<and> region_mapped pt uva (sr_pages (shm_table s ! i)) n (mem s) (mem s') \<and> attached p i key pslot uva s s' \<or>
     r = - 1 \<and> region_mapped pt uva (sr_pages (shm_table s ! i)) 0 (mem s) (mem s') \<and> procs s' = procs s \<and>
       shm_table s' = shm_table s \<and> length fr < 2 * n)"
proof -
  have tf: "unat TRAPFRAME = 274877898752" by (simp add: TRAPFRAME_val)
  have np: "word_of_int (sr_npages (shm_table s ! i)) * PGSIZE = (of_nat n * PGSIZE :: u64)"
    using assms(3,6) by simp
  have "unat (of_nat n * PGSIZE :: u64) = n * 4096"
    using room tf by (simp add: unat_word_ariths PGSIZE_def)
  then have "unat (uva + of_nat n * PGSIZE) = unat uva + n * 4096"
    using room tf by (simp add: unat_word_ariths)
  then have le: "\<not> TRAPFRAME < uva + word_of_int (sr_npages (shm_table s ! i)) * PGSIZE"
    using room by (simp add: np word_less_nat_alt)
  have al: "page_aligned uva" by (simp add: uva)
  obtain failed s1 fr1 where m: "shm_map p i uva s = Some (failed, s1)" "vm_ext pt s fr s1 fr1"
      "region_mapped pt uva (sr_pages (shm_table s ! i)) (if failed then 0 else n) (mem s) (mem s1)"
      "failed \<longrightarrow> length fr < 2 * n"
    using shm_map_spec [OF assms(1-3) al _ un] room tf by auto
  have fr: "procs s1 = procs s" "shm_table s1 = shm_table s" and lk: "lksame (lk s) (lk s1)"
    and ok: "vm_ok s1 pt fr1"
    using m(2) kframe_kproc(1) kframe_kshm by (auto simp: vm_ext_def)
  have l: "lkwf (lk s1)" "ShmLock \<in> held (lk s1)"
    using lk held assms(1) by (auto simp: lksame_def vm_ok_def kmem_avail_def)
  show ?thesis
  proof (cases failed)
    case True
    have "shm_attach p i key s = Some (- 1, s1\<lparr>lk := rel ShmLock (lk s1)\<rparr>)"
      using slots le m(1) True l uva by (simp add: shm_attach_def Let_def)
    then show ?thesis using m(3,4) True fr lk ok
      by (intro exI [of _ "- 1"] exI exI [of _ fr1] exI [of _ "lk s1"]) (auto simp: vm_ok_def kmem_avail_def)
  next
    case False
    let ?s = "upd_shm i (\<lambda>r. r\<lparr>sr_refcount := i32 (sr_refcount r + 1)\<rparr>)
        (upd_proc p (\<lambda>x. x\<lparr>p_sz := uva + word_of_int (sr_npages (shm_table s ! i)) * PGSIZE,
           p_shm := (p_shm x)[pslot := \<lparr>sa_key = key, sa_uva = uva,
             sa_npages = sr_npages (shm_table s1 ! i)\<rparr>]\<rparr>) s1)"
    have "shm_attach p i key s = Some (uva, ?s\<lparr>lk := rel ShmLock (lk s1)\<rparr>)"
      using slots le m(1) False l uva by (simp add: shm_attach_def Let_def upd_shm_def upd_proc_def)
    moreover have "freelist_rep (?s\<lparr>lk := rel ShmLock (lk s1)\<rparr>) fr1"
      using ok by (auto simp: vm_ok_def kmem_avail_def upd_shm_def upd_proc_def freelist_rep_def kpage_def)
    moreover have "attached p i key pslot uva s (?s\<lparr>lk := rel ShmLock (lk s1)\<rparr>)"
      by (simp add: attached_def upd_shm_def upd_proc_def fr)
    moreover have "mem (?s\<lparr>lk := rel ShmLock (lk s1)\<rparr>) = mem s1" by (simp add: upd_shm_def upd_proc_def)
    ultimately show ?thesis using m(3) False lk ok
      by (intro exI [of _ uva] exI [of _ "?s\<lparr>lk := rel ShmLock (lk s1)\<rparr>"] exI [of _ fr1] exI [of _ "lk s1"])
        (auto simp: vm_ok_def)
  qed
qed

section \<open>Detaching\<close>

lemma vm_ok_update:
  assumes "vm_ok s pt fr" and "lkwf (lk s')" and "KmemLock \<notin> held (lk s')" and "mem s' = mem s"
    and "freelist s' = freelist s" and "kend s' = kend s"
  shows "vm_ok s' pt fr"
  using assms freelist_rep_cong [of s fr s'] by (simp add: vm_ok_def kmem_avail_def)

lemma upd_shm_simps [simp]:
  "lk (upd_shm i f s) = lk s" "mem (upd_shm i f s) = mem s" "freelist (upd_shm i f s) = freelist s"
  "kend (upd_shm i f s) = kend s" "procs (upd_shm i f s) = procs s"
  "shm_table (upd_shm i f s) = (shm_table s)[i := f (shm_table s ! i)]"
  by (simp_all add: upd_shm_def)

lemma upd_proc_shm [simp]:
  "shm_table (upd_proc p f s) = shm_table s" "lk (upd_proc p f s) = lk s" "mem (upd_proc p f s) = mem s"
  "freelist (upd_proc p f s) = freelist s" "kend (upd_proc p f s) = kend s"
  by (simp_all add: upd_proc_def)

lemma find_lk [simp]:
  "find_pslot key p (s\<lparr>lk := l\<rparr>) = find_pslot key p s" "find_key key (t\<lparr>lk := l\<rparr>) = find_key key t"
  by (simp_all add: find_pslot_def find_key_def)

definition region_pages :: "shmregion \<Rightarrow> u64 list" where
  "region_pages r = take (nat (sr_npages r)) (sr_pages r)"

lemma shm_free_prefix:
  fixes s :: "'z kshm_scheme"
  assumes ok: "vm_ok s pt fr" and pages: "distinct pages" "\<forall>q \<in> set pages. kpage s q \<and> q \<notin> set fr \<and> q \<notin> pt_nodes (mem s) pt"
    and i: "\<forall>j < length pages. sr_pages (shm_table s ! i) ! j = pages ! j" and "k \<le> length pages"
  shows "\<exists>s'. for_each [0..<k] (\<lambda>j s. kfree (sr_pages (shm_table s ! i) ! j) s) s = Some s' \<and>
    vm_shrink pt s fr s' (rev (take k pages)) \<and> (\<forall>v. pte_at (mem s') pt v = pte_at (mem s) pt v)"
  using assms(5)
proof (induction k)
  case 0
  then show ?case using ok by (simp add: vm_shrink_def)
next
  case (Suc k)
  then obtain s1 where s1: "for_each [0..<k] (\<lambda>j s. kfree (sr_pages (shm_table s ! i) ! j) s) s = Some s1"
      "vm_shrink pt s fr s1 (rev (take k pages))" "\<forall>v. pte_at (mem s1) pt v = pte_at (mem s) pt v"
    by auto
  let ?q = "pages ! k"
  have k: "k < length pages" using Suc.prems by simp
  then have "?q \<notin> set (take k pages)" using pages(1) by (auto simp: in_set_conv_nth nth_eq_iff_index_eq)
  moreover have "kpage s1 ?q" "?q \<notin> set fr" "?q \<notin> pt_nodes (mem s1) pt"
    using pages(2) k s1(2) kframe_kend [of s s1] kpage_cong [of s1 s] by (auto simp: vm_shrink_def)
  moreover have ok1: "vm_ok s1 pt (rev (take k pages) @ fr)" using s1(2) by (simp add: vm_shrink_def)
  ultimately obtain s2 where s2: "kfree ?q s1 = Some s2" "vm_shrink pt s1 (rev (take k pages) @ fr) s2 [?q]"
      "\<And>v. pte_at (mem s2) pt v = pte_at (mem s1) pt v"
    using kfree_frame [OF ok1, of ?q] by (metis Un_iff set_append set_rev)
  have "sr_pages (shm_table s1 ! i) ! k = ?q"
    using i k s1(2) kframe_kshm [of s s1] by (simp add: vm_shrink_def)
  then have "for_each [0..<Suc k] (\<lambda>j s. kfree (sr_pages (shm_table s ! i) ! j) s) s = Some s2"
    using s1(1) s2(1) by (simp add: for_each_append)
  moreover have "vm_shrink pt s fr s2 (rev (take (Suc k) pages))"
    using vm_shrink_trans [OF s1(2) s2(2)] k by (simp add: take_Suc_conv_app_nth)
  ultimately show ?case using s2(3) s1(3) by auto
qed

definition detached :: "nat \<Rightarrow> nat \<Rightarrow> 'z kshm_scheme \<Rightarrow> 'z kshm_scheme \<Rightarrow> bool" where
  "detached p k s s' \<longleftrightarrow> procs s' = (procs s)[p := (procs s ! p)\<lparr>p_shm :=
     (p_shm (procs s ! p))[k := \<lparr>sa_key = 0, sa_uva = 0, sa_npages = 0\<rparr>]\<rparr>]"

definition region_free :: "'z kshm_scheme \<Rightarrow> u64 \<Rightarrow> u64 list \<Rightarrow> nat \<Rightarrow> bool" where
  "region_free s pt fr i \<longleftrightarrow> i < length (shm_table s) \<and>
     0 \<le> sr_npages (shm_table s ! i) \<and> nat (sr_npages (shm_table s ! i)) \<le> length (sr_pages (shm_table s ! i)) \<and>
     distinct (region_pages (shm_table s ! i)) \<and>
     (\<forall>q \<in> set (region_pages (shm_table s ! i)). kpage s q \<and> q \<notin> set fr \<and> q \<notin> pt_nodes (mem s) pt) \<and>
     0 < sr_refcount (shm_table s ! i) \<and> is_i32 (sr_refcount (shm_table s ! i))"

text \<open>The part of \<^verbatim>\<open>shm_close\<close> up to the test of the reference count.\<close>

definition close_end :: "nat \<Rightarrow> 'z kshm_scheme \<Rightarrow> (int \<times> 'z kshm_scheme) option" where
  "close_end i s =
     do { s \<leftarrow> (if sr_refcount (shm_table s ! i) \<le> 0
            then do { s \<leftarrow> for_each [0..<nat (sr_npages (shm_table s ! i))] (\<lambda>j s. kfree (sr_pages (shm_table s ! i) ! j) s) s;
                      Some (upd_shm i (\<lambda>r. r\<lparr>sr_key := 0, sr_npages := 0, sr_refcount := 0\<rparr>) s) }
            else Some s);
          s \<leftarrow> release ShmLock s; Some (0, s) }"

lemma shm_close_unmaps:
  fixes s :: "'z kshm_scheme"
  assumes p: "myproc s = Some p" and key: "0 < key" and l: "ShmLock \<notin> held (lk s)"
    and k: "find_pslot key p s = Some k" and i: "find_key key s = Some i"
    and a: "a = p_shm (procs s ! p) ! k" and pt: "pt = p_pagetable (procs s ! p)" and ok: "vm_ok s pt fr"
    and n: "sa_npages a = int n" "page_aligned (sa_uva a)" "unat (sa_uva a) + 4096 * n \<le> 274877906944"
  obtains s' where "shm_close key s = close_end i s'" "vm_ok s' pt fr" "lksame (acq ShmLock (lk s)) (lk s')"
    "detached p k s s'" "unmapped_range pt (pn (sa_uva a)) n s s'" "pt_nodes (mem s') pt = pt_nodes (mem s) pt"
    "kend s' = kend s" "shm_table s' = (shm_table s)[i := (shm_table s ! i)\<lparr>sr_refcount := i32 (sr_refcount (shm_table s ! i) - 1)\<rparr>]"
proof -
  let ?s0 = "s\<lparr>lk := acq ShmLock (lk s)\<rparr>"
  have lw: "lkwf (lk s)" "KmemLock \<notin> held (lk s)" using vm_ok_lk [OF ok] by auto
  have ok0: "vm_ok ?s0 pt fr" by (rule vm_ok_update [OF ok]) (use lw l in \<open>simp_all add: acq_fields\<close>)
  obtain s1 fs where u: "uvmunmap pt (sa_uva a) (of_nat n) False ?s0 = Some s1" "vm_shrink pt ?s0 fr s1 fs"
      "set fs = {}" "unmapped_range pt (pn (sa_uva a)) n ?s0 s1"
    using uvmunmap_spec [OF ok0 n(2,3), of False] by auto
  then have ok1: "vm_ok s1 pt fr" and lk1: "lksame (acq ShmLock (lk s)) (lk s1)" and kf: "kframe s s1"
    and nodes: "pt_nodes (mem s1) pt = pt_nodes (mem s) pt" by (auto simp: vm_shrink_def)
  let ?s2 = "upd_shm i (\<lambda>r. r\<lparr>sr_refcount := i32 (sr_refcount r - 1)\<rparr>) (upd_proc p (\<lambda>x. x\<lparr>p_shm := (p_shm x)[k :=
      \<lparr>sa_key = 0, sa_uva = 0, sa_npages = 0\<rparr>]\<rparr>) s1)"
  have tab: "procs s1 = procs s" "shm_table s1 = shm_table s" "kend s1 = kend s"
    using kframe_kproc(1) [OF kf] kframe_kshm [OF kf] kframe_kend [OF kf] by auto
  have l1: "lkwf (lk s1)" "KmemLock \<notin> held (lk s1)"
    using lk1 lw l by (auto simp: lksame_def acq_fields)
  have "vm_ok ?s2 pt fr" by (rule vm_ok_update [OF ok1]) (use l1 in simp_all)
  moreover have "shm_close key s = close_end i ?s2"
    using p key l lw k i u(1) n(1) a pt by (simp add: shm_close_def Let_def close_end_def cong: if_cong)
  moreover have "detached p k s ?s2" by (simp add: detached_def tab) (simp add: upd_proc_def tab)
  moreover have "unmapped_range pt (pn (sa_uva a)) n s ?s2" using u(4) by (simp add: unmapped_range_def)
  ultimately show thesis using nodes lk1 by (intro that [of ?s2]) (simp_all add: tab)
qed

lemma close_end_shared:
  assumes "\<not> sr_refcount (shm_table s ! i) \<le> 0" and "lkwf (lk s)" and "ShmLock \<in> held (lk s)"
  shows "close_end i s = Some (0, s\<lparr>lk := rel ShmLock (lk s)\<rparr>)"
  using assms by (simp add: close_end_def)

lemma close_end_last:
  fixes s :: "'z kshm_scheme"
  assumes "sr_refcount (shm_table s ! i) \<le> 0" and "ShmLock \<in> held (lk s)" and ok: "vm_ok s pt fr"
    and i: "i < length (shm_table s)" "region_pages (shm_table s ! i) = pages"
       "nat (sr_npages (shm_table s ! i)) \<le> length (sr_pages (shm_table s ! i))"
    and pages: "distinct pages" "\<forall>q \<in> set pages. kpage s q \<and> q \<notin> set fr \<and> q \<notin> pt_nodes (mem s) pt"
  shows "\<exists>s' l. close_end i s = Some (0, s') \<and> lksame (lk s) l \<and> lk s' = rel ShmLock l \<and>
    freelist_rep s' (rev pages @ fr) \<and> (\<forall>v. pte_at (mem s') pt v = pte_at (mem s) pt v) \<and> procs s' = procs s \<and>
    shm_table s' = (shm_table s)[i := (shm_table s ! i)\<lparr>sr_key := 0, sr_npages := 0, sr_refcount := 0\<rparr>]"
proof -
  have len: "length pages = nat (sr_npages (shm_table s ! i))" using i(2,3) by (auto simp: region_pages_def)
  have "\<forall>j < length pages. sr_pages (shm_table s ! i) ! j = pages ! j"
    using i(2) by (auto simp: region_pages_def)
  from shm_free_prefix [OF ok pages this order_refl]
  obtain s1 where s1: "for_each [0..<length pages] (\<lambda>j s. kfree (sr_pages (shm_table s ! i) ! j) s) s = Some s1"
      "vm_shrink pt s fr s1 (rev pages)" "\<forall>v. pte_at (mem s1) pt v = pte_at (mem s) pt v" by auto
  then have lk: "lksame (lk s) (lk s1)" and kf: "kframe s s1" and rep: "freelist_rep s1 (rev pages @ fr)"
    by (auto simp: vm_shrink_def vm_ok_def kmem_avail_def)
  let ?s = "upd_shm i (\<lambda>r. r\<lparr>sr_key := 0, sr_npages := 0, sr_refcount := 0\<rparr>) s1"
  have "lkwf (lk s1)" "ShmLock \<in> held (lk s1)"
    using lk assms(2) vm_ok_lk [OF ok] by (auto simp: lksame_def)
  then have "close_end i s = Some (0, ?s\<lparr>lk := rel ShmLock (lk s1)\<rparr>)"
    using s1(1) assms(1) by (simp add: close_end_def len)
  moreover have "freelist_rep (?s\<lparr>lk := rel ShmLock (lk s1)\<rparr>) (rev pages @ fr)"
    using freelist_rep_cong [OF rep, of "?s\<lparr>lk := rel ShmLock (lk s1)\<rparr>"] by simp
  ultimately show ?thesis using lk s1(3) kframe_kproc(1) [OF kf] kframe_kshm [OF kf]
    by (intro exI [of _ "?s\<lparr>lk := rel ShmLock (lk s1)\<rparr>"] exI [of _ "lk s1"]) simp
qed

text \<open>
  C11: \<^verbatim>\<open>shm_close\<close> of a key the process is attached to takes exactly the region's pages out of the
  process' page table and clears the attachment. While others are attached the reference count
  drops by one and the pages stay allocated; the last detach returns every page of the region to
  the free list and empties the slot of the region.
\<close>

theorem shm_close_detaches_and_last_frees:
  fixes s :: "'z kshm_scheme"
  assumes p: "myproc s = Some p" and key: "0 < key" and l: "ShmLock \<notin> held (lk s)"
    and k: "find_pslot key p s = Some k" and i: "find_key key s = Some i"
    and a: "a = p_shm (procs s ! p) ! k" and pt: "pt = p_pagetable (procs s ! p)" and ok: "vm_ok s pt fr"
    and n: "sa_npages a = int n" "page_aligned (sa_uva a)" "unat (sa_uva a) + 4096 * n \<le> 274877906944"
    and r: "region_free s pt fr i"
  shows "\<exists>s'. shm_close key s = Some (0, s') \<and> lksame (lk s) (lk s') \<and> detached p k s s' \<and>
    unmapped_range pt (pn (sa_uva a)) n s s' \<and>
    (if 1 < sr_refcount (shm_table s ! i)
     then freelist_rep s' fr \<and> shm_table s' = (shm_table s)[i := (shm_table s ! i)\<lparr>
       sr_refcount := sr_refcount (shm_table s ! i) - 1\<rparr>]
     else freelist_rep s' (rev (region_pages (shm_table s ! i)) @ fr) \<and> shm_table s' =
       (shm_table s)[i := (shm_table s ! i)\<lparr>sr_key := 0, sr_npages := 0, sr_refcount := 0\<rparr>])"
proof -
  let ?R = "shm_table s ! i"
  have rc: "i32 (sr_refcount ?R - 1) = sr_refcount ?R - 1" and len: "i < length (shm_table s)"
    using r by (auto simp: region_free_def is_i32_def intro!: i32_id)
  obtain s1 where s1: "shm_close key s = close_end i s1" "vm_ok s1 pt fr" "lksame (acq ShmLock (lk s)) (lk s1)"
      "detached p k s s1" "unmapped_range pt (pn (sa_uva a)) n s s1" "pt_nodes (mem s1) pt = pt_nodes (mem s) pt"
      "kend s1 = kend s" "shm_table s1 = (shm_table s)[i := ?R\<lparr>sr_refcount := sr_refcount ?R - 1\<rparr>]"
    using shm_close_unmaps [OF p key l k i a pt ok n] unfolding rc by blast
  have lw: "lkwf (lk s)" using vm_ok_lk [OF ok] by simp
  then have l1: "lkwf (lk s1)" "ShmLock \<in> held (lk s1)" using s1(3) l by (auto simp: lksame_def acq_fields)
  have at: "shm_table s1 ! i = ?R\<lparr>sr_refcount := sr_refcount ?R - 1\<rparr>" using s1(8) len by simp
  show ?thesis
  proof (cases "1 < sr_refcount ?R")
    case True
    then have "shm_close key s = Some (0, s1\<lparr>lk := rel ShmLock (lk s1)\<rparr>)"
      using close_end_shared [of s1 i] s1(1) l1 by (simp add: at)
    then show ?thesis using True s1(2-8) lksame_release [OF lw l s1(3)]
      by (auto simp: detached_def unmapped_range_def vm_ok_def kmem_avail_def)
  next
    case False
    have "sr_refcount (shm_table s1 ! i) \<le> 0" "region_pages (shm_table s1 ! i) = region_pages ?R"
      using False by (simp_all add: at region_pages_def)
    then obtain s2 l2 where s2: "close_end i s1 = Some (0, s2)" "lksame (lk s1) l2" "lk s2 = rel ShmLock l2"
        "freelist_rep s2 (rev (region_pages ?R) @ fr)" "\<forall>v. pte_at (mem s2) pt v = pte_at (mem s1) pt v"
        "procs s2 = procs s1" "shm_table s2 = (shm_table s1)[i := (shm_table s1 ! i)\<lparr>sr_key := 0, sr_npages := 0, sr_refcount := 0\<rparr>]"
      using close_end_last [of s1 i pt fr "region_pages ?R"] r l1(2) s1(2,6,7,8) kpage_cong [OF s1(7)]
      by (auto simp: at region_free_def)
    moreover have "lksame (lk s) (lk s2)" using lksame_release [OF lw l lksame_trans [OF s1(3) s2(2)]] s2(3) by simp
    ultimately show ?thesis using False s1(1,4,5,8) len
      by (auto simp: detached_def unmapped_range_def)
  qed
qed

text \<open>
  A kernel whose first region slot holds a one-page region with key 7, running process 0 with an
  empty page table and the attachment table \<open>att\<close>.
\<close>

definition shm_sample :: "shmattach list \<Rightarrow> kshm" where
  "shm_sample att = \<lparr>lk = boot_lk\<lparr>cpus := (\<lambda>_. \<lparr>c_proc = Some 0, noff = 0, intena = False\<rparr>)\<rparr>,
     kend = kend small_vm, freelist = freelist small_vm, mem = mem small_vm,
     procs = blank_proc\<lparr>p_state := RUNNING, p_pid := 1, p_sz := 0x1800, p_pagetable := 0x80022000, p_shm := att\<rparr> #
       replicate 63 blank_proc, initproc = Some 0, nextpid = 10, readcount = 0, ticks = 0,
     trampoline = 0x80007000, forkret_addr = 0x80001000,
     shm_table = \<lparr>sr_key = 7, sr_npages = 1, sr_pages = [0x80024000, 0, 0, 0], sr_refcount = 1\<rparr> #
       replicate 7 \<lparr>sr_key = 0, sr_npages = 0, sr_pages = [0, 0, 0, 0], sr_refcount = 0\<rparr>\<rparr>"

definition no_att :: shmattach where "no_att = \<lparr>sa_key = 0, sa_uva = 0, sa_npages = 0\<rparr>"

lemma shm_sample_simps [simp]:
  "myproc (shm_sample att) = Some 0" "lkwf (lk (shm_sample att))" "held (lk (shm_sample att)) = {}"
  "mem (shm_sample att) = mem small_vm" "kend (shm_sample att) = 0x80020000"
  "procs (shm_sample att) ! 0 = blank_proc\<lparr>p_state := RUNNING, p_pid := 1, p_sz := 0x1800,
     p_pagetable := 0x80022000, p_shm := att\<rparr>"
  "shm_table (shm_sample att) ! 0 = \<lparr>sr_key = 7, sr_npages = 1, sr_pages = [0x80024000, 0, 0, 0], sr_refcount = 1\<rparr>"
  "find_key 7 (shm_sample att) = Some 0" "length (shm_table (shm_sample att)) = 8"
  by (auto simp: shm_sample_def myproc_def mycpu_def boot_lk_def lkwf_def held_def small_vm_def find_key_def
      SHM_SLOTS_def upt_rec)

lemma shm_sample_ok: "vm_ok (shm_sample att) 0x80022000 [0x80021000, 0x80023000]"
proof -
  have "freelist_rep (shm_sample att) [0x80021000, 0x80023000]"
    using small_vm_ok by (simp add: vm_ok_def kmem_avail_def freelist_rep_def kpage_def) (simp add: shm_sample_def small_vm_def)
  then show ?thesis using small_vm_ok by (simp add: vm_ok_def kmem_avail_def)
qed

lemma shm_sample_nodes: "pt_nodes (mem small_vm) 0x80022000 = {0x80022000}"
proof -
  have "read64 (mem small_vm) a = 0" if "pn a = pn 0x80022000" "aligned8 a" for a
    using that by (intro small_vm_read) (auto simp: pn_def)
  then show ?thesis
    using empty_table(1) [of "0x80022000" "mem small_vm"] by (simp add: page_aligned_def PGSIZE_def)
qed

theorem shm_close_detaches_and_last_frees_witness:
  "\<exists>s'. shm_close 7 (shm_sample (\<lparr>sa_key = 7, sa_uva = 0x2000, sa_npages = 1\<rparr> # replicate 7 no_att)) = Some (0, s') \<and>
     freelist_rep s' [0x80024000, 0x80021000, 0x80023000] \<and> sr_key (shm_table s' ! 0) = 0"
proof -
  let ?s = "shm_sample (\<lparr>sa_key = 7, sa_uva = 0x2000, sa_npages = 1\<rparr> # replicate 7 no_att)"
  have "find_pslot 7 0 ?s = Some 0" by (simp add: find_pslot_def PROC_SHM_SLOTS_def upt_rec)
  moreover have "region_free ?s 0x80022000 [0x80021000, 0x80023000] 0"
    by (simp add: region_free_def region_pages_def is_i32_def shm_sample_nodes kpage_def page_aligned_def
        PGSIZE_def PHYSTOP_def KERNBASE_def)
  ultimately have "\<exists>s'. shm_close 7 ?s = Some (0, s') \<and>
      freelist_rep s' (rev (region_pages (shm_table ?s ! 0)) @ [0x80021000, 0x80023000]) \<and>
      shm_table s' = (shm_table ?s)[0 := (shm_table ?s ! 0)\<lparr>sr_key := 0, sr_npages := 0, sr_refcount := 0\<rparr>]"
    using shm_close_detaches_and_last_frees [of ?s 0 7 0 0 _ "0x80022000" "[0x80021000, 0x80023000]" 1, OF _ _ _ _ _ refl]
      shm_sample_ok by (simp add: page_aligned_def PGSIZE_def) blast
  then show ?thesis by (auto simp: region_pages_def)
qed

text \<open>
  C6: \<^verbatim>\<open>shm_open\<close> of a key that some process created maps exactly that region's physical pages,
  readable, writable and for user mode, at the first page boundary after the caller's memory,
  and returns that address, so every process that opens the key reaches the same pages; the
  region's reference count grows by one. When page-table pages run out it returns -1 and page
  table, process and regions are as before.
\<close>

theorem shm_open_shares_the_region:
  fixes s :: "'z kshm_scheme"
  assumes p: "myproc s = Some p" and args: "0 < key" "0 < size_arg" and l: "ShmLock \<notin> held (lk s)"
    and k: "find_key key s = Some i" "find_pslot key p s = None" "find_pslot 0 p s = Some k"
    and pt: "pt = p_pagetable (procs s ! p)" and ok: "vm_ok s pt fr"
    and n: "sr_npages (shm_table s ! i) = int n" and uva: "uva = PGROUNDUP (p_sz (procs s ! p))"
    and room: "unat uva + 4096 * n \<le> unat TRAPFRAME"
    and un: "\<forall>v < MAXVA. pn uva \<le> pn v \<and> pn v < pn uva + n \<longrightarrow> pte_at (mem s) pt v = 0"
  shows "\<exists>r s' fr'. shm_open key size_arg s = Some (r, s') \<and> lksame (lk s) (lk s') \<and>
    freelist_rep s' fr' \<and> pt_wf (mem s') pt \<and>
    (r = uva \<and> attached p i key k uva s s' \<and> (\<forall>v < MAXVA. pte_at (mem s') pt v =
        (if pn uva \<le> pn v \<and> pn v < pn uva + n
         then PA2PTE (sr_pages (shm_table s ! i) ! (pn v - pn uva)) OR (PTE_R OR PTE_W OR PTE_U) OR PTE_V
         else pte_at (mem s) pt v)) \<or>
     r = - 1 \<and> length fr < 2 * n \<and> procs s' = procs s \<and> shm_table s' = shm_table s \<and>
       (\<forall>v < MAXVA. pte_at (mem s') pt v = pte_at (mem s) pt v))"
proof -
  let ?s0 = "s\<lparr>lk := acq ShmLock (lk s)\<rparr>"
  have lw: "lkwf (lk s)" "KmemLock \<notin> held (lk s)" using vm_ok_lk [OF ok] by auto
  have ok0: "vm_ok ?s0 pt fr" by (rule vm_ok_update [OF ok]) (use lw l in \<open>simp_all add: acq_fields\<close>)
  have "shm_open key size_arg s = shm_attach p i key ?s0"
    using p args l lw k by (simp add: shm_open_def Let_def)
  moreover obtain r s' fr' l' where a: "shm_attach p i key ?s0 = Some (r, s')" "lksame (lk ?s0) l'"
      "lk s' = rel ShmLock l'" "freelist_rep s' fr'" "pt_wf (mem s') pt"
      "r = uva \<and> region_mapped pt uva (sr_pages (shm_table ?s0 ! i)) n (mem ?s0) (mem s') \<and> attached p i key k uva ?s0 s' \<or>
       r = - 1 \<and> region_mapped pt uva (sr_pages (shm_table ?s0 ! i)) 0 (mem ?s0) (mem s') \<and> procs s' = procs ?s0 \<and>
         shm_table s' = shm_table ?s0 \<and> length fr < 2 * n"
    using shm_attach_maps [OF ok0, of p n i uva key k] pt n uva room un k l lw by (auto simp: acq_fields)
  moreover have "lksame (lk s) (lk s')" using lksame_release [of "lk s" ShmLock l'] lw l a(2,3) by simp
  moreover have "r = uva \<and> attached p i key k uva s s' \<and> region_mapped pt uva (sr_pages (shm_table s ! i)) n (mem s) (mem s') \<or>
     r = - 1 \<and> length fr < 2 * n \<and> procs s' = procs s \<and> shm_table s' = shm_table s \<and>
       (\<forall>v < MAXVA. pte_at (mem s') pt v = pte_at (mem s) pt v)"
    using a(6) unfolding region_mapped_0 attached_def by (elim disjE) simp_all
  ultimately show ?thesis unfolding region_mapped_def shm_pte_def
    by (intro exI [of _ r] exI [of _ s'] exI [of _ fr'] conjI) simp_all
qed

theorem shm_open_shares_the_region_witness:
  "\<exists>s'. shm_open 7 100 (shm_sample (replicate 8 no_att)) = Some (0x2000, s') \<and>
     pte_at (mem s') 0x80022000 0x2abc = PA2PTE 0x80024000 OR (PTE_R OR PTE_W OR PTE_U) OR PTE_V"
proof -
  let ?s = "shm_sample (replicate 8 no_att)"
  have f: "find_pslot 7 0 ?s = None" "find_pslot 0 0 ?s = Some 0"
    by (simp_all add: find_pslot_def PROC_SHM_SLOTS_def upt_rec no_att_def nth_Cons')
  have r: "PGROUNDUP 0x1800 = 0x2000" by (simp add: PGROUNDUP_def PGSIZE_def)
  have v: "(0x2abc :: u64) < MAXVA" "pn 0x2abc = 2" "pn 0x2000 = 2" by (simp_all add: MAXVA_val pn_def)
  show ?thesis
    using shm_open_shares_the_region [of ?s 0 7 100 0 0 "0x80022000" "[0x80021000, 0x80023000]" 1 "0x2000"]
      shm_sample_ok f v by (auto simp: r TRAPFRAME_val small_vm_unmapped)
qed

lemma shm_open_errors:
  assumes "myproc s = Some p" and "lkwf (lk s)" and "ShmLock \<notin> held (lk s)"
  shows "key \<le> 0 \<or> size_arg \<le> 0 \<Longrightarrow> shm_open key size_arg s = Some (- 1, s)"
    and "0 < key \<Longrightarrow> 0 < size_arg \<Longrightarrow> find_key key s = None \<Longrightarrow> find_key 0 s = None \<Longrightarrow>
      shm_open key size_arg s = Some (- 1, s\<lparr>lk := lktouch ShmLock (lk s)\<rparr>)"
    and "0 < key \<Longrightarrow> 0 < size_arg \<Longrightarrow> find_key key s = Some i \<Longrightarrow> find_pslot key p s = Some k \<Longrightarrow>
      shm_open key size_arg s = Some (sa_uva (p_shm (procs s ! p) ! k), s\<lparr>lk := lktouch ShmLock (lk s)\<rparr>)"
    and "0 < key \<Longrightarrow> 0 < size_arg \<Longrightarrow> find_key key s = Some i \<Longrightarrow> find_pslot key p s = None \<Longrightarrow>
      find_pslot 0 p s = None \<or>
        PGROUNDUP (p_sz (procs s ! p)) + word_of_int (sr_npages (shm_table s ! i)) * PGSIZE > TRAPFRAME \<Longrightarrow>
      shm_open key size_arg s = Some (- 1, s\<lparr>lk := lktouch ShmLock (lk s)\<rparr>)"
proof -
  let ?s = "s\<lparr>lk := acq ShmLock (lk s)\<rparr>"
  have l: "lkwf (lk ?s)" "ShmLock \<in> held (lk ?s)" using assms by (simp_all add: acq_fields)
  have found: "shm_open key size_arg s = shm_attach p i key ?s"
    if "0 < key" "0 < size_arg" "find_key key s = Some i" for i
    using that assms by (simp add: shm_open_def Let_def)
  show "key \<le> 0 \<or> size_arg \<le> 0 \<Longrightarrow> shm_open key size_arg s = Some (- 1, s)"
    using assms by (simp add: shm_open_def)
  show "shm_open key size_arg s = Some (- 1, s\<lparr>lk := lktouch ShmLock (lk s)\<rparr>)"
    if "0 < key" "0 < size_arg" "find_key key s = None" "find_key 0 s = None"
    using that assms by (simp add: shm_open_def Let_def lktouch_def)
  show "shm_open key size_arg s = Some (sa_uva (p_shm (procs s ! p) ! k), s\<lparr>lk := lktouch ShmLock (lk s)\<rparr>)"
    if "0 < key" "0 < size_arg" "find_key key s = Some i" "find_pslot key p s = Some k"
    using that found shm_attach_again [of key p ?s k i] l by (simp add: lktouch_def)
  show "shm_open key size_arg s = Some (- 1, s\<lparr>lk := lktouch ShmLock (lk s)\<rparr>)"
    if "0 < key" "0 < size_arg" "find_key key s = Some i" "find_pslot key p s = None"
      "find_pslot 0 p s = None \<or>
        PGROUNDUP (p_sz (procs s ! p)) + word_of_int (sr_npages (shm_table s ! i)) * PGSIZE > TRAPFRAME"
    using that found shm_attach_full [of key p ?s i] shm_attach_no_room [of key p ?s _ i] l
    by (cases "find_pslot 0 p s") (auto simp: lktouch_def)
qed



end
