(* ===== verification/Sysproc.thy ===== *)
theory Sysproc
  imports Shmprops
begin

text \<open>
  The argument-fetching part of \<^verbatim>\<open>kernel/syscall.c\<close> and \<^verbatim>\<open>kernel/sysproc.c\<close>: the process-related
  system calls and the user-level mutexes. Arguments are read from the saved registers in the
  trap frame page of the running process.
\<close>

section \<open>Arguments\<close>

text \<open>The address of a saved register: \<^verbatim>\<open>a0\<close> is at offset 112 of \<^verbatim>\<open>struct trapframe\<close>, \<^verbatim>\<open>a7\<close> at 168.\<close>

definition tf_a :: "nat \<Rightarrow> nat \<Rightarrow> 'z kproc_scheme \<Rightarrow> u64" where
  "tf_a n p s = p_trapframe (procs s ! p) + of_nat (112 + 8 * n)"

definition argraw :: "nat \<Rightarrow> 'z kproc_scheme \<Rightarrow> u64 option" where
  "argraw n s =
     do { p \<leftarrow> myproc s;
          if n \<le> 5 then Some (read64 (mem s) (tf_a n p s)) else None }"

definition argint :: "nat \<Rightarrow> 'z kproc_scheme \<Rightarrow> int option" where
  "argint n s = do { w \<leftarrow> argraw n s; Some (i32 (uint w)) }"

definition argaddr :: "nat \<Rightarrow> 'z kproc_scheme \<Rightarrow> u64 option" where
  "argaddr n s = argraw n s"

text \<open>The second component is the value stored in \<^verbatim>\<open>*ip\<close>; callers do not read it after an error.\<close>

definition fetchaddr :: "u64 \<Rightarrow> 'z kproc_scheme \<Rightarrow> ((int \<times> u64) \<times> 'z kproc_scheme) option" where
  "fetchaddr addr s =
     do { p \<leftarrow> myproc s;
          if addr \<ge> p_sz (procs s ! p) \<or> addr + 8 > p_sz (procs s ! p) then Some ((- 1, 0), s)
          else do { ((c, bs), s) \<leftarrow> copyin (p_pagetable (procs s ! p)) addr 8 s;
                    if c \<noteq> 0 then Some ((- 1, 0), s)
                    else Some ((0, word_of_bytes bs), s) } }"

text \<open>The string is returned with its terminating NUL, as the buffer holds it.\<close>

definition fetchstr :: "u64 \<Rightarrow> nat \<Rightarrow> 'z kproc_scheme \<Rightarrow> ((int \<times> u8 list) \<times> 'z kproc_scheme) option" where
  "fetchstr addr max_len s =
     do { p \<leftarrow> myproc s;
          ((c, bs), s) \<leftarrow> copyinstr (p_pagetable (procs s ! p)) addr max_len s;
          if c < 0 then Some ((- 1, bs), s)
          else do { n \<leftarrow> strlen bs; Some ((int n, bs), s) } }"

definition argstr :: "nat \<Rightarrow> nat \<Rightarrow> 'z kproc_scheme \<Rightarrow> ((int \<times> u8 list) \<times> 'z kproc_scheme) option" where
  "argstr n max_len s = do { addr \<leftarrow> argaddr n s; fetchstr addr max_len s }"

section \<open>System calls on processes\<close>

text \<open>
  Each returns the \<^verbatim>\<open>uint64\<close> that \<^verbatim>\<open>syscall()\<close> stores in \<^verbatim>\<open>a0\<close>; calls that can sleep return an
  \<open>outcome\<close>. \<open>ret\<close> is the conversion of an \<^verbatim>\<open>int\<close> result.
\<close>

definition ret :: "(int \<times> 'z kproc_scheme) option \<Rightarrow> (u64 \<times> 'z kproc_scheme) option" where
  "ret x = do { (r, s) \<leftarrow> x; Some (word_of_int r, s) }"

definition ret_outcome :: "(int outcome \<times> 'z kproc_scheme) option \<Rightarrow> (u64 outcome \<times> 'z kproc_scheme) option" where
  "ret_outcome x = do { (r, s) \<leftarrow> x; Some (map_outcome word_of_int r, s) }"

definition sys_getpid :: "'z kproc_scheme \<Rightarrow> (u64 \<times> 'z kproc_scheme) option" where
  "sys_getpid s = do { p \<leftarrow> myproc s; Some (word_of_int (p_pid (procs s ! p)), s) }"

definition sys_wait :: "'z kproc_scheme \<Rightarrow> (u64 outcome \<times> 'z kproc_scheme) option" where
  "sys_wait s = do { p \<leftarrow> argaddr 0 s; ret_outcome (kwait p s) }"

definition SBRK_EAGER :: int where "SBRK_EAGER = 1"

definition sys_sbrk :: "'z kproc_scheme \<Rightarrow> (u64 \<times> 'z kproc_scheme) option" where
  "sys_sbrk s =
     do { n \<leftarrow> argint 0 s;
          t \<leftarrow> argint 1 s;
          p \<leftarrow> myproc s;
          let addr = p_sz (procs s ! p);
          if t = SBRK_EAGER \<or> n < 0
          then do { (r, s) \<leftarrow> growproc n s; if r < 0 then Some (- 1, s) else Some (addr, s) }
          else if addr + word_of_int n < addr then Some (- 1, s)
          else if addr + word_of_int n > TRAPFRAME then Some (- 1, s)
          else Some (addr, upd_proc p (\<lambda>x. x\<lparr>p_sz := p_sz x + word_of_int n\<rparr>) s) }"

text \<open>
  The loop of \<^verbatim>\<open>sys_pause\<close>: \<open>ticks0\<close> and \<open>n\<close> are its locals, kept while it sleeps. The comparison is
  unsigned.
\<close>

definition pause_round :: "u32 \<Rightarrow> int \<Rightarrow> 'z kproc_scheme \<Rightarrow> (u64 outcome \<times> 'z kproc_scheme) option" where
  "pause_round ticks0 n s =
     (if ticks s - ticks0 < word_of_int n
      then do { p \<leftarrow> myproc s;
                (k, s) \<leftarrow> killed p s;
                if k \<noteq> 0 then do { s \<leftarrow> release TicksLock s; Some (Done (- 1), s) }
                else do { (ie, s) \<leftarrow> sleep_enter ChTicks TicksLock s; Some (Asleep ie, s) } }
      else do { s \<leftarrow> release TicksLock s; Some (Done 0, s) })"

definition sys_pause :: "'z kproc_scheme \<Rightarrow> (u64 outcome \<times> 'z kproc_scheme) option" where
  "sys_pause s =
     do { n \<leftarrow> argint 0 s;
          let n = (if n < 0 then 0 else n);
          s \<leftarrow> acquire TicksLock s;
          pause_round (ticks s) n s }"

definition sys_pause_resume :: "u32 \<Rightarrow> int \<Rightarrow> bool \<Rightarrow> 'z kproc_scheme \<Rightarrow> (u64 outcome \<times> 'z kproc_scheme) option" where
  "sys_pause_resume ticks0 n ie s = do { s \<leftarrow> sleep_resume TicksLock ie s; pause_round ticks0 n s }"

definition sys_kill :: "'z kproc_scheme \<Rightarrow> (u64 \<times> 'z kproc_scheme) option" where
  "sys_kill s = do { pid \<leftarrow> argint 0 s; ret (kkill pid s) }"

definition sys_setpriority :: "'z kproc_scheme \<Rightarrow> (u64 \<times> 'z kproc_scheme) option" where
  "sys_setpriority s = do { pid \<leftarrow> argint 0 s; priority \<leftarrow> argint 1 s; ret (setpriority pid priority s) }"

definition sys_getpriority :: "'z kproc_scheme \<Rightarrow> (u64 \<times> 'z kproc_scheme) option" where
  "sys_getpriority s = do { pid \<leftarrow> argint 0 s; ret (getpriority pid s) }"

definition sys_shm_open :: "'z kshm_scheme \<Rightarrow> (u64 \<times> 'z kshm_scheme) option" where
  "sys_shm_open s = do { key \<leftarrow> argint 0 s; size_arg \<leftarrow> argint 1 s; shm_open key size_arg s }"

definition sys_shm_close :: "'z kshm_scheme \<Rightarrow> (u64 \<times> 'z kshm_scheme) option" where
  "sys_shm_close s = do { key \<leftarrow> argint 0 s; ret (shm_close key s) }"

definition sys_wait_stat :: "'z kproc_scheme \<Rightarrow> (u64 outcome \<times> 'z kproc_scheme) option" where
  "sys_wait_stat s =
     do { wtime \<leftarrow> argaddr 0 s; rtime \<leftarrow> argaddr 1 s; status \<leftarrow> argaddr 2 s;
          ret_outcome (kwait_stat wtime rtime status s) }"

definition sys_getprocinfo :: "u8 list \<Rightarrow> 'z kproc_scheme \<Rightarrow> (u64 \<times> 'z kproc_scheme) option" where
  "sys_getprocinfo junk s = do { pid \<leftarrow> argint 0 s; addr \<leftarrow> argaddr 1 s; ret (getprocinfo junk pid addr s) }"

definition sys_getreadcount :: "'z kproc_scheme \<Rightarrow> (u64 \<times> 'z kproc_scheme) option" where
  "sys_getreadcount s = ret (getreadcount s)"

definition sys_uptime :: "'z kproc_scheme \<Rightarrow> (u64 \<times> 'z kproc_scheme) option" where
  "sys_uptime s =
     do { s \<leftarrow> acquire TicksLock s;
          let xticks = ticks s;
          s \<leftarrow> release TicksLock s;
          Some (ucast xticks, s) }"

section \<open>User-level mutexes\<close>

definition MAX_MUTEXES :: nat where "MAX_MUTEXES = 16"

record umutex =
  mx_valid :: int
  mx_locked :: int
  mx_owner_pid :: int

record kmutex = kshm +
  mutextable :: "umutex list"

definition upd_mutex :: "nat \<Rightarrow> (umutex \<Rightarrow> umutex) \<Rightarrow> 'z kmutex_scheme \<Rightarrow> 'z kmutex_scheme" where
  "upd_mutex i f s = s\<lparr>mutextable := (mutextable s)[i := f (mutextable s ! i)]\<rparr>"

definition mutexinit :: "'z kmutex_scheme \<Rightarrow> 'z kmutex_scheme" where
  "mutexinit s =
     fold (\<lambda>i. upd_mutex i (\<lambda>m. m\<lparr>mx_valid := 0, mx_locked := 0, mx_owner_pid := 0\<rparr>)) [0..<MAX_MUTEXES] s"

definition sys_mutex_init :: "'z kmutex_scheme \<Rightarrow> (u64 \<times> 'z kmutex_scheme) option" where
  "sys_mutex_init s =
     (case find (\<lambda>i. mx_valid (mutextable s ! i) = 0) [0..<MAX_MUTEXES] of
        Some i \<Rightarrow> Some (of_nat i, upd_mutex i (\<lambda>m. m\<lparr>mx_valid := 1, mx_locked := 0, mx_owner_pid := 0\<rparr>) s)
      | None \<Rightarrow> Some (- 1, s))"

text \<open>One round of the loop of \<^verbatim>\<open>sys_mutex_lock\<close>: the test-and-set, then the owner or \<^verbatim>\<open>yield()\<close>.\<close>

definition mutex_try :: "nat \<Rightarrow> 'z kmutex_scheme \<Rightarrow> (u64 outcome \<times> 'z kmutex_scheme) option" where
  "mutex_try mid s =
     (let old = mx_locked (mutextable s ! mid);
          s = upd_mutex mid (\<lambda>m. m\<lparr>mx_locked := 1\<rparr>) s
      in if old \<noteq> 0 then do { (ie, s) \<leftarrow> yield_enter s; Some (Asleep ie, s) }
         else do { p \<leftarrow> myproc s;
                   Some (Done 0, upd_mutex mid (\<lambda>m. m\<lparr>mx_owner_pid := p_pid (procs s ! p)\<rparr>) s) })"

definition mutex_bad :: "int \<Rightarrow> 'z kmutex_scheme \<Rightarrow> bool" where
  "mutex_bad mid s \<longleftrightarrow> mid < 0 \<or> mid \<ge> int MAX_MUTEXES \<or> mx_valid (mutextable s ! nat mid) = 0"

definition sys_mutex_lock :: "'z kmutex_scheme \<Rightarrow> (u64 outcome \<times> 'z kmutex_scheme) option" where
  "sys_mutex_lock s =
     do { mid \<leftarrow> argint 0 s;
          if mutex_bad mid s then Some (Done (- 1), s) else mutex_try (nat mid) s }"

definition sys_mutex_lock_resume :: "nat \<Rightarrow> bool \<Rightarrow> 'z kmutex_scheme \<Rightarrow> (u64 outcome \<times> 'z kmutex_scheme) option" where
  "sys_mutex_lock_resume mid ie s = do { s \<leftarrow> yield_resume ie s; mutex_try mid s }"

definition sys_mutex_unlock :: "'z kmutex_scheme \<Rightarrow> (u64 \<times> 'z kmutex_scheme) option" where
  "sys_mutex_unlock s =
     do { mid \<leftarrow> argint 0 s;
          if mutex_bad mid s then Some (- 1, s)
          else do { p \<leftarrow> myproc s;
                    if mx_owner_pid (mutextable s ! nat mid) \<noteq> p_pid (procs s ! p) then Some (- 1, s)
                    else Some (0, upd_mutex (nat mid) (\<lambda>m. m\<lparr>mx_owner_pid := 0, mx_locked := 0\<rparr>) s) } }"

end
