(* ===== verification/Mutex.thy ===== *)
theory Mutex
  imports Sysproc
begin

text \<open>
  The user-level mutexes of \<^verbatim>\<open>kernel/sysproc.c\<close> under interleaving. The lock and unlock calls take
  no kernel lock: the test-and-set of \<^verbatim>\<open>locked\<close>, the write of \<^verbatim>\<open>owner_pid\<close>, the owner check, the
  reset of \<^verbatim>\<open>owner_pid\<close> and the release are separate accesses, and any other process may run
  between two of them, on another hart or after a timer interrupt.
\<close>

section \<open>One mutex slot under interleaving\<close>

text \<open>
  Where a process stands in the code: outside the two calls, in the test-and-set loop, between
  the test-and-set and the write of the owner, past the owner check of unlock, between the reset
  of the owner and the release. \<open>holds\<close> collects the processes that have taken the lock and not
  yet released it.
\<close>

datatype mpc = MOut | MSpin | MTook | MChecked | MCleared

record mux =
  mx :: umutex
  mpc :: "int \<Rightarrow> mpc"
  holds :: "int set"

definition mgoto :: "int \<Rightarrow> mpc \<Rightarrow> mux \<Rightarrow> mux" where
  "mgoto p c g = g\<lparr>mpc := (mpc g)(p := c)\<rparr>"

inductive mstep :: "mux \<Rightarrow> mux \<Rightarrow> bool" where
  lock_call: "0 < p \<Longrightarrow> mpc g p = MOut \<Longrightarrow> mx_valid (mx g) \<noteq> 0 \<Longrightarrow> mstep g (mgoto p MSpin g)"
| lock_fails: "mpc g p = MSpin \<Longrightarrow> mx_locked (mx g) \<noteq> 0 \<Longrightarrow> mstep g (g\<lparr>mx := (mx g)\<lparr>mx_locked := 1\<rparr>\<rparr>)"
| lock_takes: "mpc g p = MSpin \<Longrightarrow> mx_locked (mx g) = 0 \<Longrightarrow>
    mstep g (mgoto p MTook (g\<lparr>mx := (mx g)\<lparr>mx_locked := 1\<rparr>, holds := insert p (holds g)\<rparr>))"
| lock_owner: "mpc g p = MTook \<Longrightarrow> mstep g (mgoto p MOut (g\<lparr>mx := (mx g)\<lparr>mx_owner_pid := p\<rparr>\<rparr>))"
| unlock_check: "0 < p \<Longrightarrow> mpc g p = MOut \<Longrightarrow> mx_valid (mx g) \<noteq> 0 \<Longrightarrow> mx_owner_pid (mx g) = p \<Longrightarrow>
    mstep g (mgoto p MChecked g)"
| unlock_owner: "mpc g p = MChecked \<Longrightarrow> mstep g (mgoto p MCleared (g\<lparr>mx := (mx g)\<lparr>mx_owner_pid := 0\<rparr>\<rparr>))"
| unlock_release: "mpc g p = MCleared \<Longrightarrow>
    mstep g (mgoto p MOut (g\<lparr>mx := (mx g)\<lparr>mx_locked := 0\<rparr>, holds := holds g - {p}\<rparr>))"

text \<open>A slot as \<^verbatim>\<open>sys_mutex_init\<close> leaves it.\<close>

definition mux_fresh :: mux where
  "mux_fresh = \<lparr>mx = \<lparr>mx_valid = 1, mx_locked = 0, mx_owner_pid = 0\<rparr>, mpc = (\<lambda>_. MOut), holds = {}\<rparr>"

definition waiting :: "mux \<Rightarrow> int \<Rightarrow> bool" where
  "waiting g p \<longleftrightarrow> mpc g p = MOut \<or> mpc g p = MSpin"

definition held_by :: "mux \<Rightarrow> int \<Rightarrow> bool" where
  "held_by g p \<longleftrightarrow> holds g = {p} \<and> mx_locked (mx g) \<noteq> 0 \<and> 0 < p \<and>
     mx_owner_pid (mx g) = (if mpc g p = MTook \<or> mpc g p = MCleared then 0 else p) \<and>
     (\<forall>q. q \<noteq> p \<longrightarrow> waiting g q)"

definition minv :: "mux \<Rightarrow> bool" where
  "minv g \<longleftrightarrow> (\<forall>p. mpc g p \<noteq> MOut \<longrightarrow> 0 < p) \<and>
     (holds g = {} \<and> mx_locked (mx g) = 0 \<and> mx_owner_pid (mx g) = 0 \<and> (\<forall>p. waiting g p) \<or> (\<exists>p. held_by g p))"

lemmas minv_defs = minv_def held_by_def waiting_def mgoto_def

lemma minv_fresh: "minv mux_fresh"
  by (simp add: minv_defs mux_fresh_def)

text \<open>A process past the test-and-set is the holder.\<close>

lemma minv_holder:
  assumes "minv g" and "\<not> waiting g p"
  shows "held_by g p"
proof -
  obtain q where q: "held_by g q" using assms unfolding minv_def by blast
  then have "q = p" using assms(2) unfolding held_by_def by metis
  with q show ?thesis by simp
qed

lemma minv_owner:
  assumes "minv g" and "mx_owner_pid (mx g) = p" and "0 < p"
  shows "held_by g p"
  using assms by (auto simp: minv_def held_by_def split: if_splits)

lemma minv_step:
  assumes "mstep g g'" and "minv g"
  shows "minv g'"
  using assms(1)
proof (cases rule: mstep.cases)
  case (lock_call p)
  have "held_by g' q" if "held_by g q" for q
    using that lock_call by (auto simp: minv_defs)
  with lock_call assms(2) show ?thesis
    by (auto simp: minv_def mgoto_def waiting_def)
next
  case (lock_fails p)
  have "held_by g' q" if "held_by g q" for q
    using that lock_fails by (auto simp: minv_defs)
  with lock_fails assms(2) show ?thesis by (auto simp: minv_def)
next
  case (lock_takes p)
  then have "holds g = {} \<and> mx_owner_pid (mx g) = 0 \<and> (\<forall>p. waiting g p)" "0 < p" "\<forall>q. mpc g q \<noteq> MOut \<longrightarrow> 0 < q"
    using assms(2) by (auto simp: minv_def held_by_def)
  then have "held_by g' p" using lock_takes by (simp add: minv_defs)
  with lock_takes \<open>0 < p\<close> \<open>\<forall>q. mpc g q \<noteq> MOut \<longrightarrow> 0 < q\<close> show ?thesis by (auto simp: minv_def mgoto_def)
next
  case (lock_owner p)
  then have "held_by g p" using assms(2) by (intro minv_holder) (simp_all add: waiting_def)
  with lock_owner have "held_by g' p" by (simp add: held_by_def mgoto_def waiting_def)
  with lock_owner assms(2) show ?thesis by (auto simp: minv_def mgoto_def)
next
  case (unlock_check p)
  then have "held_by g p" using assms(2) by (intro minv_owner) simp_all
  with unlock_check have "held_by g' p" by (simp add: held_by_def mgoto_def waiting_def)
  with unlock_check assms(2) show ?thesis by (auto simp: minv_def mgoto_def)
next
  case (unlock_owner p)
  then have "held_by g p" using assms(2) by (intro minv_holder) (simp_all add: waiting_def)
  with unlock_owner have "held_by g' p" by (simp add: held_by_def mgoto_def waiting_def)
  with unlock_owner assms(2) show ?thesis by (auto simp: minv_def mgoto_def held_by_def)
next
  case (unlock_release p)
  then have "held_by g p" using assms(2) by (intro minv_holder) (simp_all add: waiting_def)
  with unlock_release assms(2) show ?thesis by (simp add: minv_defs)
qed

lemma three_steps: "mstep a b \<Longrightarrow> mstep b c \<Longrightarrow> mstep c d \<Longrightarrow> mstep\<^sup>*\<^sup>* a d"
  by (meson converse_rtranclp_into_rtranclp rtranclp.rtrancl_refl)

lemma minv_reachable: "mstep\<^sup>*\<^sup>* mux_fresh g \<Longrightarrow> minv g"
  by (induction rule: rtranclp_induct) (auto simp: minv_fresh intro: minv_step)

text \<open>
  C2: however the lock and unlock calls of any number of processes on one mutex interleave, at most
  one process holds the mutex, the mutex is marked locked exactly while one does, and the only
  process whose unlock passes the owner check is the holder.
\<close>

theorem mutex_mutual_exclusion:
  assumes "mstep\<^sup>*\<^sup>* mux_fresh g"
  shows "(\<forall>p \<in> holds g. \<forall>q \<in> holds g. p = q) \<and> (mx_locked (mx g) \<noteq> 0 \<longleftrightarrow> holds g \<noteq> {}) \<and>
    (\<forall>p > 0. mx_owner_pid (mx g) = p \<longrightarrow> p \<in> holds g)"
proof -
  consider "holds g = {}" "mx_locked (mx g) = 0" "mx_owner_pid (mx g) = 0" | p where "held_by g p"
    using minv_reachable [OF assms] unfolding minv_def by blast
  then show ?thesis
  proof cases
    case 1
    then show ?thesis by simp
  next
    case (2 p)
    then show ?thesis by (simp add: held_by_def)
  qed
qed

theorem mutex_mutual_exclusion_witness:
  "\<exists>g. mstep\<^sup>*\<^sup>* mux_fresh g \<and> 7 \<in> holds g \<and> mpc g 9 = MSpin \<and> 9 \<notin> holds g"
proof -
  let ?f = mux_fresh
  let ?a = "mgoto 7 MSpin ?f" let ?b = "mgoto 9 MSpin ?a"
  let ?c = "mgoto 7 MTook (?b\<lparr>mx := (mx ?b)\<lparr>mx_locked := 1\<rparr>, holds := insert 7 (holds ?b)\<rparr>)"
  have a: "mstep ?f ?a" by (rule lock_call) (simp_all add: mux_fresh_def)
  have b: "mstep ?a ?b" by (rule lock_call) (simp_all add: mux_fresh_def mgoto_def)
  have c: "mstep ?b ?c" by (rule lock_takes) (simp_all add: mux_fresh_def mgoto_def)
  note r = three_steps [OF a b c]
  have h: "7 \<in> holds ?c" and s: "mpc ?c 9 = MSpin" by (simp_all add: mgoto_def)
  have "9 \<notin> holds ?c"
  proof
    assume "9 \<in> holds ?c"
    with h have "(7 :: int) = 9" using mutex_mutual_exclusion [OF r] by blast
    then show False by simp
  qed
  with r h s show ?thesis by blast
qed

section \<open>The system calls\<close>

lemma upd_mutex_simps [simp]:
  "lk (upd_mutex i f s) = lk s" "mem (upd_mutex i f s) = mem s" "procs (upd_mutex i f s) = procs s"
  "mutextable (upd_mutex i f s) = (mutextable s)[i := f (mutextable s ! i)]"
  "myproc (upd_mutex i f s) = myproc s"
  by (simp_all add: upd_mutex_def myproc_def mycpu_def)

lemma argint_upd_mutex [simp]: "argint n (upd_mutex i f s) = argint n s"
  by (cases "myproc s") (simp_all add: argint_def argraw_def tf_a_def)

text \<open>The view of slot \<open>i\<close> as a mutex under interleaving.\<close>

definition slot_view :: "nat \<Rightarrow> 'z kmutex_scheme \<Rightarrow> (int \<Rightarrow> mpc) \<Rightarrow> int set \<Rightarrow> mux" where
  "slot_view i s c h = \<lparr>mx = mutextable s ! i, mpc = c, holds = h\<rparr>"

lemma mutex_lock_steps:
  assumes "myproc s = Some p" and pid: "pid = p_pid (procs s ! p)" "0 < pid" and c: "c pid = MOut"
    and "argint 0 s = Some (int i)" and i: "i < length (mutextable s)" and "sys_mutex_lock s = Some (Done 0, s')"
  shows "mstep\<^sup>*\<^sup>* (slot_view i s c h) (slot_view i s' c (insert pid h))" and "\<forall>j. j \<noteq> i \<longrightarrow> mutextable s' ! j = mutextable s ! j"
proof -
  let ?g = "slot_view i s c h"
  have ok: "mx_valid (mutextable s ! i) \<noteq> 0" "mx_locked (mutextable s ! i) = 0"
      "mutextable s' = (mutextable s)[i := (mutextable s ! i)\<lparr>mx_locked := 1, mx_owner_pid := pid\<rparr>]"
    using assms by (auto simp: sys_mutex_lock_def mutex_bad_def mutex_try_def Let_def Option.bind_eq_Some_conv split: if_splits)
  let ?a = "mgoto pid MSpin ?g"
  let ?b = "mgoto pid MTook (?a\<lparr>mx := (mx ?a)\<lparr>mx_locked := 1\<rparr>, holds := insert pid (holds ?a)\<rparr>)"
  let ?c = "mgoto pid MOut (?b\<lparr>mx := (mx ?b)\<lparr>mx_owner_pid := pid\<rparr>\<rparr>)"
  have 1: "mstep ?g ?a" by (rule lock_call) (use pid c ok in \<open>simp_all add: slot_view_def\<close>)
  have 2: "mstep ?a ?b" by (rule lock_takes) (use ok in \<open>simp_all add: slot_view_def mgoto_def\<close>)
  have 3: "mstep ?b ?c" by (rule lock_owner) (simp add: mgoto_def)
  have 4: "?c = slot_view i s' c (insert pid h)"
    using c i ok by (simp add: slot_view_def mgoto_def fun_upd_idem)
  show "mstep\<^sup>*\<^sup>* ?g (slot_view i s' c (insert pid h))"
    using three_steps [OF 1 2 3] unfolding 4 .
  show "\<forall>j. j \<noteq> i \<longrightarrow> mutextable s' ! j = mutextable s ! j" using ok(3) by simp
qed

lemma mutex_unlock_steps:
  assumes "myproc s = Some p" and pid: "pid = p_pid (procs s ! p)" "0 < pid" and c: "c pid = MOut"
    and "argint 0 s = Some (int i)" and i: "i < length (mutextable s)" and "sys_mutex_unlock s = Some (0, s')"
  shows "mstep\<^sup>*\<^sup>* (slot_view i s c h) (slot_view i s' c (h - {pid}))" and "\<forall>j. j \<noteq> i \<longrightarrow> mutextable s' ! j = mutextable s ! j"
proof -
  let ?g = "slot_view i s c h"
  have ok: "mx_valid (mutextable s ! i) \<noteq> 0" "mx_owner_pid (mutextable s ! i) = pid"
      "mutextable s' = (mutextable s)[i := (mutextable s ! i)\<lparr>mx_owner_pid := 0, mx_locked := 0\<rparr>]"
    using assms by (auto simp: sys_mutex_unlock_def mutex_bad_def split: if_splits)
  let ?a = "mgoto pid MChecked ?g"
  let ?b = "mgoto pid MCleared (?a\<lparr>mx := (mx ?a)\<lparr>mx_owner_pid := 0\<rparr>\<rparr>)"
  let ?c = "mgoto pid MOut (?b\<lparr>mx := (mx ?b)\<lparr>mx_locked := 0\<rparr>, holds := holds ?b - {pid}\<rparr>)"
  have 1: "mstep ?g ?a" by (rule unlock_check) (use pid c ok in \<open>simp_all add: slot_view_def\<close>)
  have 2: "mstep ?a ?b" by (rule unlock_owner) (simp add: mgoto_def)
  have 3: "mstep ?b ?c" by (rule unlock_release) (simp add: mgoto_def)
  have 4: "?c = slot_view i s' c (h - {pid})"
    using c i ok by (simp add: slot_view_def mgoto_def fun_upd_idem)
  show "mstep\<^sup>*\<^sup>* ?g (slot_view i s' c (h - {pid}))"
    using three_steps [OF 1 2 3] unfolding 4 .
  show "\<forall>j. j \<noteq> i \<longrightarrow> mutextable s' ! j = mutextable s ! j" using ok(3) by simp
qed

text \<open>
  C23: run without interruption, \<^verbatim>\<open>sys_mutex_lock\<close> and \<^verbatim>\<open>sys_mutex_unlock\<close> are runs of the
  interleaving model: a successful lock takes the caller from outside to holding the mutex, a
  successful unlock takes it back, and no other slot changes.
\<close>

theorem mutex_calls_refine_steps:
  assumes "myproc s = Some p" and "pid = p_pid (procs s ! p)" and "0 < pid" and "c pid = MOut"
    and "argint 0 s = Some (int i)" and "i < length (mutextable s)"
  shows "(sys_mutex_lock s = Some (Done 0, s') \<longrightarrow>
      mstep\<^sup>*\<^sup>* (slot_view i s c h) (slot_view i s' c (insert pid h)) \<and> (\<forall>j. j \<noteq> i \<longrightarrow> mutextable s' ! j = mutextable s ! j)) \<and>
    (sys_mutex_unlock s = Some (0, s') \<longrightarrow>
      mstep\<^sup>*\<^sup>* (slot_view i s c h) (slot_view i s' c (h - {pid})) \<and> (\<forall>j. j \<noteq> i \<longrightarrow> mutextable s' ! j = mutextable s ! j))"
  using mutex_lock_steps(1) [of s p pid c i s' h] mutex_unlock_steps(1) [of s p pid c i s' h]
    mutex_lock_steps(2) [of s p pid c i s'] mutex_unlock_steps(2) [of s p pid c i s'] assms by blast

text \<open>
  A kernel running process 0, pid 1, whose trap frame page is zero, so the first argument of its
  system call is mutex 0, which is \<open>m\<close>.
\<close>

definition mutex_sample :: "umutex \<Rightarrow> kmutex" where
  "mutex_sample m = \<lparr>lk = boot_lk\<lparr>cpus := (\<lambda>_. \<lparr>c_proc = Some 0, noff = 0, intena = False\<rparr>)\<rparr>,
     kend = 0x80020000, freelist = 0, mem = (\<lambda>_. 0),
     procs = blank_proc\<lparr>p_state := RUNNING, p_pid := 1, p_trapframe := 0x80025000\<rparr> # replicate 63 blank_proc,
     initproc = Some 0, nextpid = 10, readcount = 0, ticks = 0, trampoline = 0x80007000, forkret_addr = 0x80001000,
     shm_table = [], mutextable = m # replicate 15 \<lparr>mx_valid = 0, mx_locked = 0, mx_owner_pid = 0\<rparr>\<rparr>"

lemma mutex_sample_simps [simp]:
  "myproc (mutex_sample m) = Some 0" "lkwf (lk (mutex_sample m))" "held (lk (mutex_sample m)) = {}"
  "procs (mutex_sample m) ! 0 = blank_proc\<lparr>p_state := RUNNING, p_pid := 1, p_trapframe := 0x80025000\<rparr>"
  "mutextable (mutex_sample m) ! 0 = m" "length (mutextable (mutex_sample m)) = 16"
  "argint 0 (mutex_sample m) = Some 0"
  by (auto simp: mutex_sample_def myproc_def mycpu_def boot_lk_def lkwf_def held_def argint_def argraw_def i32_def)

theorem mutex_calls_refine_steps_witness:
  "\<exists>s'. sys_mutex_lock (mutex_sample (mx mux_fresh)) = Some (Done 0, s') \<and>
     mstep\<^sup>*\<^sup>* mux_fresh (slot_view 0 s' (\<lambda>_. MOut) {1})"
proof -
  let ?s = "mutex_sample (mx mux_fresh)"
  obtain s' where "sys_mutex_lock ?s = Some (Done 0, s')"
    by (simp add: sys_mutex_lock_def mutex_bad_def mutex_try_def Let_def MAX_MUTEXES_def mux_fresh_def)
  moreover have "slot_view 0 ?s (\<lambda>_. MOut) {} = mux_fresh" by (simp add: slot_view_def mux_fresh_def)
  ultimately show ?thesis
    using mutex_calls_refine_steps [of ?s 0 1 "\<lambda>_. MOut" 0 s' "{}"] by auto
qed

lemma yield_enter_exact:
  assumes "lkwf (lk s)" and "held (lk s) = {}" and "noff (mycpu s) = 0" and "myproc s = Some p" and "p < length (procs s)"
  shows "\<exists>ie l. yield_enter s = Some (ie, s\<lparr>lk := l, procs := (procs s)[p := (procs s ! p)\<lparr>p_state := RUNNABLE\<rparr>]\<rparr>)"
proof -
  let ?l = "acq (ProcLock p) (lk s)"
  have l: "lkwf ?l" "tp ?l = tp (lk s)" "noff (cpus ?l (tp (lk s))) = 1" "holding (ProcLock p) ?l"
      "c_proc (cpus ?l h) = c_proc (cpus (lk s) h)" for h
    using assms lkwf_holding [of ?l] by (auto simp: acq_fields mycpu_def)
  then have "\<not> sie ?l" by (simp add: lkwf_def)
  with l assms show ?thesis
    by (auto simp: yield_enter_def sched_def upd_proc_def myproc_def mycpu_def)
qed



section \<open>Concurrent creation\<close>

text \<open>
  \<^verbatim>\<open>sys_mutex_init\<close> takes no lock either: it reads \<^verbatim>\<open>valid\<close> and writes the slot in separate accesses.
  \<open>istep\<close> adds those accesses; \<open>ISaw\<close> is a process that has seen the slot free, \<open>IGot\<close> one that has
  been given its id.
\<close>

datatype ipc = IOut | ISaw | IGot

inductive istep :: "(int \<Rightarrow> ipc) \<times> mux \<Rightarrow> (int \<Rightarrow> ipc) \<times> mux \<Rightarrow> bool" where
  init_see: "0 < p \<Longrightarrow> c p = IOut \<Longrightarrow> mx_valid (mx g) = 0 \<Longrightarrow> istep (c, g) (c(p := ISaw), g)"
| init_set: "c p = ISaw \<Longrightarrow>
    istep (c, g) (c(p := IGot), g\<lparr>mx := \<lparr>mx_valid = 1, mx_locked = 0, mx_owner_pid = 0\<rparr>\<rparr>)"
| init_use: "mstep g g' \<Longrightarrow> istep (c, g) (c, g')"

definition mux_unused :: mux where
  "mux_unused = \<lparr>mx = \<lparr>mx_valid = 0, mx_locked = 0, mx_owner_pid = 0\<rparr>, mpc = (\<lambda>_. MOut), holds = {}\<rparr>"


text \<open>
  C36: two processes that create a mutex at the same time can be given the same id, and then both
  hold it: the second creator's write resets the lock that the first has taken.
\<close>

theorem mutex_init_race_breaks_exclusion:
  "\<exists>c g. istep\<^sup>*\<^sup>* (\<lambda>_. IOut, mux_unused) (c, g) \<and> c 1 = IGot \<and> c 2 = IGot \<and> 1 \<in> holds g \<and> 2 \<in> holds g"
proof -
  let ?new = "\<lparr>mx_valid = 1, mx_locked = 0, mx_owner_pid = 0\<rparr>" and ?c0 = "\<lambda>_ :: int. IOut"
  let ?took = "\<lparr>mx_valid = 1, mx_locked = 1, mx_owner_pid = 0\<rparr>"
  let ?g = "\<lambda>m c h. \<lparr>mx = m, mpc = c, holds = h\<rparr>" and ?o = "\<lambda>_ :: int. MOut"
  let ?c2 = "?c0(1 := ISaw, 2 := ISaw)"
  have 1: "istep (?c0, mux_unused) (?c0(1 := ISaw), mux_unused)"
    by (rule init_see) (simp_all add: mux_unused_def)
  have 2: "istep (?c0(1 := ISaw), mux_unused) (?c2, mux_unused)"
    by (rule init_see) (simp_all add: mux_unused_def)
  have 3: "istep (?c2, mux_unused) (?c2(1 := IGot), ?g ?new ?o {})"
    using init_set [of ?c2 1 mux_unused] by (simp add: mux_unused_def)
  have 4: "istep (c, ?g ?new ?o {}) (c, ?g ?new (?o(1 := MSpin)) {})" for c
    using lock_call [of 1 "?g ?new ?o {}"] by (intro init_use) (simp add: mgoto_def)
  have 5: "istep (c, ?g ?new (?o(1 := MSpin)) {}) (c, ?g ?took (?o(1 := MTook)) {1})" for c
    using lock_takes [of "?g ?new (?o(1 := MSpin)) {}" 1] by (intro init_use) (simp add: mgoto_def)
  have 6: "istep (?c2(1 := IGot), ?g ?took (?o(1 := MTook)) {1}) (?c2(1 := IGot, 2 := IGot), ?g ?new (?o(1 := MTook)) {1})"
    using init_set [of "?c2(1 := IGot)" 2 "?g ?took (?o(1 := MTook)) {1}"] by simp
  have 7: "istep (c, ?g ?new (?o(1 := MTook)) {1}) (c, ?g ?new (?o(1 := MTook, 2 := MSpin)) {1})" for c
    using lock_call [of 2 "?g ?new (?o(1 := MTook)) {1}"] by (intro init_use) (simp add: mgoto_def)
  have 8: "istep (c, ?g ?new (?o(1 := MTook, 2 := MSpin)) {1}) (c, ?g ?took (?o(1 := MTook, 2 := MTook)) {2, 1})" for c
    using lock_takes [of "?g ?new (?o(1 := MTook, 2 := MSpin)) {1}" 2] by (intro init_use) (simp add: mgoto_def)
  note step = rtranclp.rtrancl_into_rtrancl [of istep]
  from step [OF step [OF step [OF step [OF step [OF step [OF step [OF step [OF rtranclp.rtrancl_refl [of istep] 1] 2] 3] 4] 5] 6] 7] 8]
  show ?thesis by (intro exI conjI, assumption) simp_all
qed

end
