(* ===== verification/Usermem.thy ===== *)
theory Usermem
  imports Mutex
begin

text \<open>
  Copying between the kernel and mapped user memory: \<^verbatim>\<open>copyin\<close>, \<^verbatim>\<open>copyout\<close> and \<^verbatim>\<open>copyinstr\<close> of
  \<^verbatim>\<open>kernel/vm.c\<close> against the page table seen as a map from user addresses to physical bytes.
\<close>

unbundle bit_operations_syntax

section \<open>User addresses\<close>

definition ubyte_ok :: "memory \<Rightarrow> u64 \<Rightarrow> u64 \<Rightarrow> bool" where
  "ubyte_ok m pt va \<longleftrightarrow> va < MAXVA \<and> pte_at m pt va AND PTE_V \<noteq> 0 \<and> pte_at m pt va AND PTE_U \<noteq> 0 \<and>
     PTE2PA (pte_at m pt va) \<noteq> 0"

definition uaddr :: "memory \<Rightarrow> u64 \<Rightarrow> u64 \<Rightarrow> u64" where
  "uaddr m pt va = PTE2PA (pte_at m pt va) + (va - PGROUNDDOWN va)"

definition umap_ok :: "memory \<Rightarrow> u64 \<Rightarrow> u64 \<Rightarrow> nat \<Rightarrow> bool" where
  "umap_ok m pt va len \<longleftrightarrow> unat va + len \<le> 274877906944 \<and> (\<forall>j < len. ubyte_ok m pt (va + of_nat j))"

definition ubytes :: "memory \<Rightarrow> u64 \<Rightarrow> u64 \<Rightarrow> nat \<Rightarrow> u8 list" where
  "ubytes m pt va len = map (\<lambda>j. m (uaddr m pt (va + of_nat j))) [0..<len]"

lemma PTE2PA_aligned [simp]: "page_aligned (PTE2PA e)"
proof -
  have "PTE2PA e = drop_bit 10 e * 4096" by (simp add: PTE2PA_def push_bit_eq_mult)
  then have "unat (PTE2PA e) = unat (drop_bit 10 e) * 4096 mod 2 ^ 64" by (simp add: unat_word_ariths)
  moreover have "(x * 4096 mod 2 ^ 64) mod 4096 = (0 :: nat)" for x
    by (simp add: mod_mod_cancel)
  ultimately show ?thesis by (simp add: page_aligned_unat)
qed

lemma va_offset: "unat (va :: u64) + k \<le> 274877906944 \<Longrightarrow> unat (va + of_nat k) = unat va + k"
  by (simp add: unat_word_ariths unat_of_nat)

text \<open>Within a page the rounded address and the entry stay the same.\<close>

lemma same_page:
  assumes "unat va mod 4096 + k < 4096" and "unat va + k < 274877906944"
  shows "PGROUNDDOWN (va + of_nat k) = PGROUNDDOWN va" and "pn (va + of_nat k) = pn va"
proof -
  have u: "unat (va + of_nat k) = unat va + k" using assms(2) by (intro va_offset) simp
  have d: "(unat va + k) div 4096 = unat va div 4096" "(unat va + k) mod 4096 = unat va mod 4096 + k"
    using assms(1) by (metis div_mult_mod_eq add.assoc div_mult_self3 div_less add_0_right zero_neq_numeral)
     (metis assms(1) mod_add_left_eq mod_less)
  then show "pn (va + of_nat k) = pn va" by (simp add: pn_def u)
  have "unat (PGROUNDDOWN (va + of_nat k)) = unat (PGROUNDDOWN va)"
    by (simp add: unat_PGROUNDDOWN u d)
  then show "PGROUNDDOWN (va + of_nat k) = PGROUNDDOWN va" by (simp add: word_unat_eq_iff)
qed


lemma chunk_eq: "chunk va len = min (4096 - unat va mod 4096) len"
  by (simp add: chunk_def chunk_room)

lemma uaddr_in_chunk:
  assumes "umap_ok m pt va len" and "j < chunk va len"
  shows "uaddr m pt (va + of_nat j) = PTE2PA (pte_at m pt va) + (va - PGROUNDDOWN va) + of_nat j"
    and "pte_at m pt (va + of_nat j) = pte_at m pt va"
proof -
  have j: "unat va mod 4096 + j < 4096" "j < len" using assms(2) by (auto simp: chunk_eq)
  have b: "unat va + j < 274877906944" using assms(1) j(2) by (simp add: umap_ok_def)
  note sp = same_page [OF j(1) b]
  have "va < MAXVA" "va + of_nat j < MAXVA"
    using b va_offset [of va j] by (simp_all add: MAXVA_val word_less_nat_alt)
  then show e: "pte_at m pt (va + of_nat j) = pte_at m pt va" using pte_at_page [OF sp(2)] by simp
  show "uaddr m pt (va + of_nat j) = PTE2PA (pte_at m pt va) + (va - PGROUNDDOWN va) + of_nat j"
    unfolding uaddr_def e sp(1) by (simp add: algebra_simps)
qed

lemma next_chunk:
  assumes "unat va + len \<le> 274877906944" and "chunk va len < len"
  shows "PGROUNDDOWN va + PGSIZE = va + of_nat (chunk va len)"
proof -
  have n: "chunk va len = 4096 - unat va mod 4096" using assms(2) by (auto simp: chunk_eq min_def split: if_splits)
  have "unat (PGROUNDDOWN va) = unat va - unat va mod 4096" by (rule unat_PGROUNDDOWN)
  then have "unat (PGROUNDDOWN va + PGSIZE) = unat va - unat va mod 4096 + 4096"
    using assms by (simp add: unat_word_ariths PGSIZE_def)
  moreover have "unat (va + of_nat (chunk va len)) = unat va + chunk va len"
    using assms by (intro va_offset) simp
  moreover have "unat va mod 4096 < 4096" "unat va mod 4096 \<le> unat va" by simp_all
  ultimately have "unat (PGROUNDDOWN va + PGSIZE) = unat (va + of_nat (chunk va len))" using n by linarith
  then show ?thesis by (simp add: word_unat_eq_iff)
qed

lemma pte_at_down: "va < MAXVA \<Longrightarrow> pte_at m pt (PGROUNDDOWN va) = pte_at m pt va" "va < MAXVA \<Longrightarrow> PGROUNDDOWN va < MAXVA"
proof -
  assume v: "va < MAXVA"
  then show d: "PGROUNDDOWN va < MAXVA" by (simp add: word_less_nat_alt unat_PGROUNDDOWN)
  show "pte_at m pt (PGROUNDDOWN va) = pte_at m pt va" using pte_at_page [of "PGROUNDDOWN va" va] v d by simp
qed

lemma walk_mapped:
  assumes "pt_wf (mem s) pt" and "ubyte_ok (mem s) pt va"
  obtains a where "walk pt (PGROUNDDOWN va) False s = Some (a, s)" "a \<noteq> 0" "read64 (mem s) a = pte_at (mem s) pt va"
proof -
  have v: "va < MAXVA" using assms(2) by (simp add: ubyte_ok_def)
  note d = pte_at_down [OF v]
  obtain n where n: "pt_node (mem s) pt (PGROUNDDOWN va) 2 = Some n"
    using assms(2) d(1) [of "mem s" pt] by (cases "pt_node (mem s) pt (PGROUNDDOWN va) 2") (auto simp: pte_at_def ubyte_ok_def)
  then have "n \<in> pt_nodes (mem s) pt" by auto
  then have "page_aligned n" "n \<noteq> 0" using pt_wf_page [OF assms(1)] by auto
  then have "slot n 0 (PGROUNDDOWN va) \<noteq> 0" by (rule slot_not_0)
  moreover have "read64 (mem s) (slot n 0 (PGROUNDDOWN va)) = pte_at (mem s) pt va"
    using n d(1) [of "mem s" pt] by (simp add: pte_at_def)
  ultimately show thesis using that n d(2) by (simp add: walk_noalloc)
qed

lemma walkaddr_mapped:
  assumes "pt_wf (mem s) pt" and "ubyte_ok (mem s) pt va"
  shows "walkaddr pt (PGROUNDDOWN va) s = Some (PTE2PA (pte_at (mem s) pt va), s)"
proof -
  obtain a where "walk pt (PGROUNDDOWN va) False s = Some (a, s)" "a \<noteq> 0" "read64 (mem s) a = pte_at (mem s) pt va"
    using walk_mapped [OF assms] .
  with assms(2) pte_at_down(2) [of va] show ?thesis by (simp add: walkaddr_def ubyte_ok_def not_le)
qed

lemma ubytes_split:
  assumes "n \<le> len"
  shows "ubytes m pt va len = ubytes m pt va n @ ubytes m pt (va + of_nat n) (len - n)"
proof -
  have "[0..<len] = [0..<n] @ map (\<lambda>j. n + j) [0..<len - n]"
    using upt_add_eq_append [of 0 n "len - n"] assms by (simp add: map_add_upt add.commute)
  then show ?thesis by (simp add: ubytes_def add.assoc)
qed

lemma umap_ok_drop:
  assumes "umap_ok m pt va len" and "n \<le> len"
  shows "umap_ok m pt (va + of_nat n) (len - n)"
proof -
  have "unat (va + of_nat n) = unat va + n" using assms by (intro va_offset) (simp add: umap_ok_def)
  moreover have "va + of_nat n + of_nat j = va + of_nat (n + j)" for j by simp
  ultimately show ?thesis using assms by (simp only: umap_ok_def) (simp del: of_nat_add)
qed

lemma copyin_reads:
  fixes s :: "'z kproc_scheme"
  assumes "pt_wf (mem s) pt" and "umap_ok (mem s) pt va len"
  shows "copyin pt va len s = Some ((0, ubytes (mem s) pt va len), s)"
  using assms(2)
proof (induction len arbitrary: va rule: less_induct)
  case (less len)
  show ?case
  proof (cases "len = 0")
    case True
    then show ?thesis by (simp add: copyin.simps [of pt va] ubytes_def)
  next
    case False
    let ?n = "chunk va len" and ?pa = "PTE2PA (pte_at (mem s) pt va)"
    have n: "0 < ?n" "?n \<le> len" using False by (auto simp: chunk_pos chunk_le)
    have "ubyte_ok (mem s) pt (va + of_nat 0)" using less.prems False unfolding umap_ok_def by blast
    then have u: "ubyte_ok (mem s) pt va" by simp
    have rest: "copyin pt (PGROUNDDOWN va + PGSIZE) (len - ?n) s =
        Some ((0, ubytes (mem s) pt (va + of_nat ?n) (len - ?n)), s)"
    proof (cases "?n < len")
      case True
      show ?thesis
        using less.IH [OF _ umap_ok_drop [OF less.prems n(2)]] n True next_chunk [OF _ True] less.prems
        by (simp add: umap_ok_def)
    qed (use n in \<open>simp add: copyin.simps ubytes_def\<close>)
    have bytes: "read_bytes (mem s) (?pa + (va - PGROUNDDOWN va)) ?n = ubytes (mem s) pt va ?n"
      using uaddr_in_chunk(1) [OF less.prems] by (simp add: read_bytes_def ubytes_def)
    show ?thesis
      using False walkaddr_mapped [OF assms(1) u] u rest bytes ubytes_split [OF n(2)]
      by (simp add: copyin.simps [of pt va] Let_def ubyte_ok_def)
  qed
qed

text \<open>
  For \<^verbatim>\<open>copyout\<close> the pages must also be writable, must not be page-table pages, and distinct user
  bytes must be distinct physical bytes.
\<close>

definition uwrite_ok :: "memory \<Rightarrow> u64 \<Rightarrow> u64 \<Rightarrow> nat \<Rightarrow> bool" where
  "uwrite_ok m pt va len \<longleftrightarrow> umap_ok m pt va len \<and>
     (\<forall>j < len. pte_at m pt (va + of_nat j) AND PTE_W \<noteq> 0 \<and> PTE2PA (pte_at m pt (va + of_nat j)) \<notin> pt_nodes m pt) \<and>
     inj_on (\<lambda>j. uaddr m pt (va + of_nat j)) {..<len}"

lemma uaddr_page: "pn (uaddr m pt va) = pn (PTE2PA (pte_at m pt va))"
proof -
  have "va - PGROUNDDOWN va = of_nat (unat (va - PGROUNDDOWN va))" by simp
  then have "va - PGROUNDDOWN va = of_nat (unat va mod 4096)" unfolding page_offset .
  then show ?thesis by (simp add: uaddr_def pn_offset(2))
qed

text \<open>One page of the copy.\<close>

lemma write_chunk:
  assumes wf: "pt_wf m pt" and ok: "uwrite_ok m pt va len" and len: "length src = len" "0 < len"
    and m1: "m1 = write_bytes m (PTE2PA (pte_at m pt va) + (va - PGROUNDDOWN va)) (take (chunk va len) src)"
  shows "pt_wf m1 pt" and "pt_nodes m1 pt = pt_nodes m pt" and "pte_at m1 pt v = pte_at m pt v"
    and "j < chunk va len \<Longrightarrow> m1 (uaddr m pt (va + of_nat j)) = src ! j"
    and "(\<forall>j < chunk va len. x \<noteq> uaddr m pt (va + of_nat j)) \<Longrightarrow> m1 x = m x"
proof -
  let ?n = "chunk va len" and ?a = "PTE2PA (pte_at m pt va) + (va - PGROUNDDOWN va)"
  have um: "umap_ok m pt va len" using ok by (simp add: uwrite_ok_def)
  have n: "0 < ?n" "?n \<le> len" "?n \<le> 4096" using len by (auto simp: chunk_pos chunk_le chunk_eq)
  have at: "uaddr m pt (va + of_nat j) = ?a + of_nat j" if "j < ?n" for j
    using uaddr_in_chunk(1) [OF um that] .
  show "m1 (uaddr m pt (va + of_nat j)) = src ! j" if "j < ?n"
    using that n len by (simp add: m1 at write_bytes_def)
  have out: "m1 x = m x" if "\<forall>j < ?n. x \<noteq> uaddr m pt (va + of_nat j)" for x
  proof -
    have "\<not> unat (x - ?a) < ?n"
    proof
      assume k: "unat (x - ?a) < ?n"
      define k where "k = unat (x - ?a)"
      have "x = ?a + of_nat k" by (simp add: k_def)
      then have "x = uaddr m pt (va + of_nat k)" using at [of k] k by (simp add: k_def)
      with that k show False unfolding k_def by blast
    qed
    then show ?thesis by (simp add: m1 write_bytes_def)
  qed
  show "m1 x = m x" if "\<forall>j < ?n. x \<noteq> uaddr m pt (va + of_nat j)" using out that .
  have "pages_same (pt_nodes m pt) m m1"
  proof (rule pages_sameI, rule out, intro allI impI notI)
    fix q x j assume q: "q \<in> pt_nodes m pt" "pn x = pn q" and j: "j < ?n" "x = uaddr m pt (va + of_nat j)"
    then have "pn q = pn (PTE2PA (pte_at m pt (va + of_nat j)))" by (simp add: uaddr_page)
    then have "q = PTE2PA (pte_at m pt (va + of_nat j))" using page_eq pt_wf_page [OF wf q(1)] PTE2PA_aligned by blast
    with q(1) ok j(1) n(2) show False by (auto simp: uwrite_ok_def)
  qed
  note same = pt_untouched [OF this wf]
  show "pt_wf m1 pt" "pt_nodes m1 pt = pt_nodes m pt" "pte_at m1 pt v = pte_at m pt v" using same by auto
qed

lemma uwrite_ok_cong:
  assumes "\<forall>v. pte_at m' pt v = pte_at m pt v" and "pt_nodes m' pt = pt_nodes m pt"
  shows "uwrite_ok m' pt va len \<longleftrightarrow> uwrite_ok m pt va len"
  using assms by (simp add: uwrite_ok_def umap_ok_def ubyte_ok_def uaddr_def)

lemma uwrite_ok_drop:
  assumes "uwrite_ok m pt va len" and "n \<le> len"
  shows "uwrite_ok m pt (va + of_nat n) (len - n)"
proof -
  have va: "va + of_nat n + of_nat j = va + of_nat (n + j)" for j by simp
  have "inj_on (\<lambda>j. uaddr m pt (va + of_nat j)) {..<len}" using assms(1) by (simp add: uwrite_ok_def)
  then have "inj_on (\<lambda>j. uaddr m pt (va + of_nat (n + j))) {..<len - n}"
    by (auto simp: inj_on_def simp del: of_nat_add) fastforce
  then show ?thesis
    using assms umap_ok_drop [of m pt va len n] unfolding uwrite_ok_def va by (simp del: of_nat_add)
qed

lemma copyout_nil [simp]: "copyout pt va [] s = Some (0, s)"
  by (simp add: copyout.simps)

lemma copyout_writes:
  fixes s :: "'z kproc_scheme"
  assumes "pt_wf (mem s) pt" and "uwrite_ok (mem s) pt va (length src)"
  shows "\<exists>m'. copyout pt va src s = Some (0, s\<lparr>mem := m'\<rparr>) \<and> pt_wf m' pt \<and> pt_nodes m' pt = pt_nodes (mem s) pt \<and>
    (\<forall>v. pte_at m' pt v = pte_at (mem s) pt v) \<and> ubytes m' pt va (length src) = src \<and>
    (\<forall>x. (\<forall>j < length src. x \<noteq> uaddr (mem s) pt (va + of_nat j)) \<longrightarrow> m' x = mem s x)"
  using assms
proof (induction src arbitrary: va s rule: length_induct)
  case (1 src va s)
  let ?len = "length src" and ?m = "mem s"
  show ?case
  proof (cases "src = []")
    case True
    with 1 show ?thesis by (intro exI [of _ ?m]) (simp add: copyout.simps [of pt va] ubytes_def)
  next
    case False
    let ?n = "chunk va ?len" and ?pa = "PTE2PA (pte_at ?m pt va)"
    define m1 where "m1 = write_bytes ?m (?pa + (va - PGROUNDDOWN va)) (take ?n src)"
    have n: "0 < ?n" "?n \<le> ?len" using False by (auto simp: chunk_pos chunk_le)
    have um: "umap_ok ?m pt va ?len" using 1(3) by (simp add: uwrite_ok_def)
    have "ubyte_ok ?m pt (va + of_nat 0)" "pte_at ?m pt (va + of_nat 0) AND PTE_W \<noteq> 0"
      using 1(3) False unfolding uwrite_ok_def umap_ok_def by blast+
    then have u: "ubyte_ok ?m pt va" "pte_at ?m pt va AND PTE_W \<noteq> 0" by simp_all
    have len: "0 < length src" using False by simp
    note w = write_chunk [OF 1(2,3) refl len m1_def]
    let ?s1 = "s\<lparr>mem := m1\<rparr>"
    have "uwrite_ok (mem ?s1) pt (va + of_nat ?n) (length (drop ?n src))"
      using uwrite_ok_drop [OF 1(3) n(2)] uwrite_ok_cong [of m1 pt ?m] w(2,3) by simp
    then obtain m' where m': "copyout pt (va + of_nat ?n) (drop ?n src) ?s1 = Some (0, s\<lparr>mem := m'\<rparr>)"
        "pt_wf m' pt" "pt_nodes m' pt = pt_nodes m1 pt" "\<forall>v. pte_at m' pt v = pte_at m1 pt v"
        "ubytes m' pt (va + of_nat ?n) (?len - ?n) = drop ?n src"
        "\<forall>x. (\<forall>j < ?len - ?n. x \<noteq> uaddr m1 pt (va + of_nat ?n + of_nat j)) \<longrightarrow> m' x = m1 x"
      using 1(1) [rule_format, of "drop ?n src" ?s1 "va + of_nat ?n"] n(1) len w(1) by auto
    have ua: "uaddr m1 pt v = uaddr ?m pt v" "uaddr m' pt v = uaddr ?m pt v" for v
      using m'(4) w(3) by (simp_all add: uaddr_def)
    have far: "m' (uaddr ?m pt (va + of_nat j)) = src ! j" if j: "j < ?n" for j
    proof -
      have "uaddr ?m pt (va + of_nat j) \<noteq> uaddr ?m pt (va + of_nat ?n + of_nat k)" if "k < ?len - ?n" for k
      proof -
        have "?n + k \<in> {..<?len}" "j \<in> {..<?len}" "j \<noteq> ?n + k" using that j n by auto
        moreover have "inj_on (\<lambda>j. uaddr ?m pt (va + of_nat j)) {..<?len}" using 1(3) by (simp add: uwrite_ok_def)
        ultimately show ?thesis by (auto simp: inj_on_def add.assoc simp flip: of_nat_add)
      qed
      then show ?thesis using m'(6) w(4) [OF j] by (simp add: ua)
    qed
    have bytes: "ubytes m' pt va ?len = src"
    proof -
      have "ubytes m' pt va ?n = take ?n src"
        using far n by (intro nth_equalityI) (simp_all add: ubytes_def ua)
      then show ?thesis using ubytes_split [OF n(2), of m' pt va] m'(5) by simp
    qed
    have out: "m' x = ?m x" if x: "\<forall>j < ?len. x \<noteq> uaddr ?m pt (va + of_nat j)" for x
    proof -
      have "x \<noteq> uaddr ?m pt (va + of_nat ?n + of_nat j)" if "j < ?len - ?n" for j
        using x [rule_format, of "?n + j"] that by (simp add: add.assoc)
      then show ?thesis using m'(6) w(5) [of x] x n by (simp add: ua)
    qed
    have "copyout pt (PGROUNDDOWN va + PGSIZE) (drop ?n src) ?s1 = Some (0, s\<lparr>mem := m'\<rparr>)"
      using m'(1) next_chunk [of va ?len] n um by (cases "?n < ?len") (auto simp: umap_ok_def)
    moreover obtain a where "walk pt (PGROUNDDOWN va) False s = Some (a, s)" "a \<noteq> 0" "read64 ?m a = pte_at ?m pt va"
      using walk_mapped [OF 1(2) u(1)] .
    ultimately have "copyout pt va src s = Some (0, s\<lparr>mem := m'\<rparr>)"
      using False u walkaddr_mapped [OF 1(2) u(1)] pte_at_down(2) [of va]
      by (simp add: copyout.simps [of pt va] Let_def ubyte_ok_def not_le m1_def)
    then show ?thesis using m'(2-4) w(2,3) bytes out by (intro exI [of _ m']) simp
  qed
qed

section \<open>Properties\<close>

text \<open>
  C4: \<^verbatim>\<open>copyout\<close> to mapped, writable user memory succeeds, leaves every page-table entry and every
  byte outside the destination unchanged, and \<^verbatim>\<open>copyin\<close> of the same range then returns exactly the
  bytes that were copied out, for any length and alignment, across page boundaries.
\<close>

theorem copyout_then_copyin:
  assumes "pt_wf (mem s) pt" and "uwrite_ok (mem s) pt va (length src)"
  shows "\<exists>s'. copyout pt va src s = Some (0, s') \<and> copyin pt va (length src) s' = Some ((0, src), s') \<and>
    (\<forall>v. pte_at (mem s') pt v = pte_at (mem s) pt v) \<and>
    (\<forall>x. (\<forall>j < length src. x \<noteq> uaddr (mem s) pt (va + of_nat j)) \<longrightarrow> mem s' x = mem s x)"
proof -
  obtain m' where m': "copyout pt va src s = Some (0, s\<lparr>mem := m'\<rparr>)" "pt_wf m' pt" "pt_nodes m' pt = pt_nodes (mem s) pt"
      "\<forall>v. pte_at m' pt v = pte_at (mem s) pt v" "ubytes m' pt va (length src) = src"
      "\<forall>x. (\<forall>j < length src. x \<noteq> uaddr (mem s) pt (va + of_nat j)) \<longrightarrow> m' x = mem s x"
    using copyout_writes [OF assms] by auto
  have "uwrite_ok m' pt va (length src)" using assms(2) uwrite_ok_cong [OF m'(4,3)] by simp
  then have "umap_ok m' pt va (length src)" by (simp add: uwrite_ok_def)
  then have "copyin pt va (length src) (s\<lparr>mem := m'\<rparr>) = Some ((0, src), s\<lparr>mem := m'\<rparr>)"
    using copyin_reads [of "s\<lparr>mem := m'\<rparr>" pt va "length src"] m'(2,5) by simp
  with m' show ?thesis by auto
qed

text \<open>A kernel in which the user page at 0 of the page table at \<open>0x80022000\<close> is mapped to the page at \<open>0x80024000\<close>.\<close>

lemma one_user_page:
  obtains s :: kshm where "pt_wf (mem s) 0x80022000"
    "\<And>len. len \<le> 4096 \<Longrightarrow> uwrite_ok (mem s) 0x80022000 0 len"
proof -
  let ?s = "shm_sample []" and ?pt = "0x80022000 :: u64" and ?pa = "0x80024000 :: u64"
  let ?e = "PA2PTE ?pa OR (PTE_R OR PTE_W OR PTE_U) OR PTE_V"
  obtain r s1 fr where s1: "mappages ?pt 0 PGSIZE ?pa (PTE_R OR PTE_W OR PTE_U) ?s = Some (r, s1)"
      "vm_ext ?pt ?s [0x80021000, 0x80023000] s1 fr" "\<forall>v < MAXVA. pte_at (mem s1) ?pt v = (if pn v = 0 then ?e else 0)"
    using mappages_one [OF shm_sample_ok [of "[]"], of 0 ?pa "PTE_R OR PTE_W OR PTE_U"]
    by (auto simp: page_aligned_def small_vm_unmapped pn_def)
  have pa: "PTE2PA ?e = ?pa" by (simp add: PA2PTE_def PTE2PA_def PTE_R_def PTE_W_def PTE_U_def PTE_V_def)
  have fl: "?e AND PTE_V \<noteq> 0" "?e AND PTE_U \<noteq> 0" "?e AND PTE_W \<noteq> 0"
    by (simp_all add: PA2PTE_def PTE_R_def PTE_W_def PTE_U_def PTE_V_def)
  have nodes: "?pa \<notin> pt_nodes (mem s1) ?pt"
  proof -
    obtain used where "[0x80021000, 0x80023000 :: u64] = used @ fr" "pt_nodes (mem s1) ?pt = {?pt} \<union> set used"
      using s1(2) by (auto simp: vm_ext_def shm_sample_nodes)
    then have "set used \<subseteq> {0x80021000, 0x80023000}" by (metis set_append Un_upper1 list.set(1,2))
    with \<open>pt_nodes (mem s1) ?pt = {?pt} \<union> set used\<close> show ?thesis by auto
  qed
  have j: "of_nat j < MAXVA \<and> pn (of_nat j) = 0 \<and> PGROUNDDOWN (of_nat j) = 0" if "j < 4096" for j
  proof -
    have "unat (of_nat j :: u64) = j" using that by simp
    moreover from this have "unat (PGROUNDDOWN (of_nat j)) = 0" using that by (simp add: unat_PGROUNDDOWN)
    ultimately show ?thesis using that by (simp add: MAXVA_val word_less_nat_alt pn_def unat_eq_0)
  qed
  have ok: "uwrite_ok (mem s1) ?pt 0 len" if len: "len \<le> 4096" for len
  proof -
    have pte: "pte_at (mem s1) ?pt (of_nat k) = ?e" if "k < len" for k using s1(3) j [of k] that len by simp
    have ua: "uaddr (mem s1) ?pt (of_nat k) = ?pa + of_nat k" if "k < len" for k
      using j [of k] that len by (simp only: uaddr_def pte [OF that] pa) simp
    have "inj_on (\<lambda>k. uaddr (mem s1) ?pt (of_nat k)) {..<len}"
    proof (rule inj_onI)
      fix a b assume "a \<in> {..<len}" "b \<in> {..<len}" "uaddr (mem s1) ?pt (of_nat a) = uaddr (mem s1) ?pt (of_nat b)"
      then have "unat (of_nat a :: u64) = unat (of_nat b :: u64)" "a < 2 ^ 64" "b < 2 ^ 64" using ua len by auto
      then show "a = b" by simp
    qed
    then show ?thesis using len pte pa fl nodes j
      by (auto simp: uwrite_ok_def umap_ok_def ubyte_ok_def)
  qed
  have "pt_wf (mem s1) ?pt" using s1(2) by (simp add: vm_ext_def vm_ok_def)
  then show thesis using ok that by blast
qed

theorem copyout_then_copyin_witness:
  "\<exists>(s :: kshm) s'. copyout 0x80022000 0 [1, 2, 3] s = Some (0, s') \<and> copyin 0x80022000 0 3 s' = Some ((0, [1, 2, 3]), s')"
proof -
  obtain s :: kshm where s: "pt_wf (mem s) 0x80022000" "\<And>len. len \<le> 4096 \<Longrightarrow> uwrite_ok (mem s) 0x80022000 0 len"
    using one_user_page by blast
  have "uwrite_ok (mem s) 0x80022000 0 (length [1 :: u8, 2, 3])" by (rule s(2)) simp
  then show ?thesis using copyout_then_copyin [OF s(1), of 0 "[1, 2, 3]"] by (auto simp: numeral_3_eq_3)
qed

end
