(* ===== verification/Pipe.thy ===== *)
theory Pipe
  imports Usermem
begin

text \<open>
  \<^verbatim>\<open>kernel/pipe.c\<close>: the pipe buffer, writing, reading and closing. A pipe lives in a page of its
  own; \<open>pipes\<close> gives the \<^verbatim>\<open>struct pipe\<close> at each page address. \<^verbatim>\<open>nread\<close> and \<^verbatim>\<open>nwrite\<close> are unsigned
  32-bit counters that wrap. An operation that sleeps returns the value of its local \<open>i\<close>, with
  which it is resumed.
\<close>

section \<open>The ring buffer\<close>

definition PIPESIZE :: nat where "PIPESIZE = 512"

record pipe =
  pi_data :: "u8 list"
  pi_nread :: u32
  pi_nwrite :: u32
  pi_readopen :: int
  pi_writeopen :: int

definition pipe_full :: "pipe \<Rightarrow> bool" where
  "pipe_full x \<longleftrightarrow> pi_nwrite x = pi_nread x + of_nat PIPESIZE"

definition pipe_empty :: "pipe \<Rightarrow> bool" where
  "pipe_empty x \<longleftrightarrow> pi_nread x = pi_nwrite x"

text \<open>The two buffer accesses: \<^verbatim>\<open>data[nwrite++ % PIPESIZE] = ch\<close> and \<^verbatim>\<open>data[nread % PIPESIZE]\<close>, \<^verbatim>\<open>nread++\<close>.\<close>

definition pipe_put :: "u8 \<Rightarrow> pipe \<Rightarrow> pipe" where
  "pipe_put ch x = x\<lparr>pi_data := (pi_data x)[unat (pi_nwrite x mod of_nat PIPESIZE) := ch],
     pi_nwrite := pi_nwrite x + 1\<rparr>"

definition pipe_peek :: "pipe \<Rightarrow> u8" where
  "pipe_peek x = pi_data x ! unat (pi_nread x mod of_nat PIPESIZE)"

definition pipe_drop :: "pipe \<Rightarrow> pipe" where
  "pipe_drop x = x\<lparr>pi_nread := pi_nread x + 1\<rparr>"

section \<open>Operations\<close>

record kpipe = kmutex +
  pipes :: "u64 \<Rightarrow> pipe"

definition upd_pipe :: "u64 \<Rightarrow> (pipe \<Rightarrow> pipe) \<Rightarrow> 'z kpipe_scheme \<Rightarrow> 'z kpipe_scheme" where
  "upd_pipe pi f s = s\<lparr>pipes := (pipes s)(pi := f (pipes s pi))\<rparr>"

definition pipeclose :: "u64 \<Rightarrow> bool \<Rightarrow> 'z kpipe_scheme \<Rightarrow> 'z kpipe_scheme option" where
  "pipeclose pi writable s =
     do { s \<leftarrow> acquire (PipeLock pi) s;
          s \<leftarrow> (if writable
                then let s = upd_pipe pi (\<lambda>x. x\<lparr>pi_writeopen := 0\<rparr>) s in wakeup (ChPipeRead pi) s
                else let s = upd_pipe pi (\<lambda>x. x\<lparr>pi_readopen := 0\<rparr>) s in wakeup (ChPipeWrite pi) s);
          if pi_readopen (pipes s pi) = 0 \<and> pi_writeopen (pipes s pi) = 0
          then do { s \<leftarrow> release (PipeLock pi) s; kfree pi s }
          else release (PipeLock pi) s }"

function pipewrite_loop ::
  "u64 \<Rightarrow> u64 \<Rightarrow> int \<Rightarrow> nat \<Rightarrow> 'z kpipe_scheme \<Rightarrow> ((int outcome \<times> nat) \<times> 'z kpipe_scheme) option" where
  "pipewrite_loop pi addr n i s =
     do { pr \<leftarrow> myproc s;
          if int i < n then
            do { (stop, s) \<leftarrow> (if pi_readopen (pipes s pi) = 0 then Some (True, s)
                              else do { (k, s) \<leftarrow> killed pr s; Some (k \<noteq> 0, s) });
                 if stop then do { s \<leftarrow> release (PipeLock pi) s; Some ((Done (- 1), i), s) }
                 else if pipe_full (pipes s pi)
                 then do { s \<leftarrow> wakeup (ChPipeRead pi) s;
                           (ie, s) \<leftarrow> sleep_enter (ChPipeWrite pi) (PipeLock pi) s;
                           Some ((Asleep ie, i), s) }
                 else do { ((c, bs), s) \<leftarrow> copyin (p_pagetable (procs s ! pr)) (addr + of_nat i) 1 s;
                           if c = - 1
                           then do { s \<leftarrow> wakeup (ChPipeRead pi) s;
                                     s \<leftarrow> release (PipeLock pi) s; Some ((Done (int i), i), s) }
                           else pipewrite_loop pi addr n (i + 1) (upd_pipe pi (pipe_put (hd bs)) s) } }
          else do { s \<leftarrow> wakeup (ChPipeRead pi) s;
                    s \<leftarrow> release (PipeLock pi) s; Some ((Done (int i), i), s) } }"
  by pat_completeness auto
termination
  by (relation "measure (\<lambda>(pi, addr, n, i, s). nat n - i)") auto

declare pipewrite_loop.simps [simp del]

definition pipewrite :: "u64 \<Rightarrow> u64 \<Rightarrow> int \<Rightarrow> 'z kpipe_scheme \<Rightarrow> ((int outcome \<times> nat) \<times> 'z kpipe_scheme) option" where
  "pipewrite pi addr n s = do { s \<leftarrow> acquire (PipeLock pi) s; pipewrite_loop pi addr n 0 s }"

definition pipewrite_resume ::
  "u64 \<Rightarrow> u64 \<Rightarrow> int \<Rightarrow> nat \<Rightarrow> bool \<Rightarrow> 'z kpipe_scheme \<Rightarrow> ((int outcome \<times> nat) \<times> 'z kpipe_scheme) option" where
  "pipewrite_resume pi addr n i ie s =
     do { s \<leftarrow> sleep_resume (PipeLock pi) ie s; pipewrite_loop pi addr n i s }"

function piperead_copy :: "u64 \<Rightarrow> nat \<Rightarrow> u64 \<Rightarrow> int \<Rightarrow> nat \<Rightarrow> 'z kpipe_scheme \<Rightarrow> (int \<times> 'z kpipe_scheme) option" where
  "piperead_copy pi pr addr n i s =
     (if int i < n then
        if pipe_empty (pipes s pi) then Some (int i, s)
        else do { (c, s) \<leftarrow> copyout (p_pagetable (procs s ! pr)) (addr + of_nat i) [pipe_peek (pipes s pi)] s;
                  if c = - 1 then Some (if i = 0 then - 1 else int i, s)
                  else piperead_copy pi pr addr n (i + 1) (upd_pipe pi pipe_drop s) }
      else Some (int i, s))"
  by pat_completeness auto
termination
  by (relation "measure (\<lambda>(pi, pr, addr, n, i, s). nat n - i)") auto

declare piperead_copy.simps [simp del]

definition piperead_round :: "u64 \<Rightarrow> u64 \<Rightarrow> int \<Rightarrow> 'z kpipe_scheme \<Rightarrow> (int outcome \<times> 'z kpipe_scheme) option" where
  "piperead_round pi addr n s =
     do { pr \<leftarrow> myproc s;
          if pipe_empty (pipes s pi) \<and> pi_writeopen (pipes s pi) \<noteq> 0
          then do { (k, s) \<leftarrow> killed pr s;
                    if k \<noteq> 0 then do { s \<leftarrow> release (PipeLock pi) s; Some (Done (- 1), s) }
                    else do { (ie, s) \<leftarrow> sleep_enter (ChPipeRead pi) (PipeLock pi) s; Some (Asleep ie, s) } }
          else do { (i, s) \<leftarrow> piperead_copy pi pr addr n 0 s;
                    s \<leftarrow> wakeup (ChPipeWrite pi) s;
                    s \<leftarrow> release (PipeLock pi) s;
                    Some (Done i, s) } }"

definition piperead :: "u64 \<Rightarrow> u64 \<Rightarrow> int \<Rightarrow> 'z kpipe_scheme \<Rightarrow> (int outcome \<times> 'z kpipe_scheme) option" where
  "piperead pi addr n s = do { s \<leftarrow> acquire (PipeLock pi) s; piperead_round pi addr n s }"

definition piperead_resume :: "u64 \<Rightarrow> u64 \<Rightarrow> int \<Rightarrow> bool \<Rightarrow> 'z kpipe_scheme \<Rightarrow> (int outcome \<times> 'z kpipe_scheme) option" where
  "piperead_resume pi addr n ie s = do { s \<leftarrow> sleep_resume (PipeLock pi) ie s; piperead_round pi addr n s }"

section \<open>The buffer is a bounded queue\<close>

text \<open>Writing a list of bytes, and reading until \<open>n\<close> bytes are read or the queue is empty.\<close>

primrec put_all :: "('b \<Rightarrow> 'q \<Rightarrow> 'q) \<Rightarrow> 'b list \<Rightarrow> 'q \<Rightarrow> 'q" where
  "put_all put [] x = x"
| "put_all put (c # cs) x = put_all put cs (put c x)"

primrec take_upto :: "('q \<Rightarrow> bool) \<Rightarrow> ('q \<Rightarrow> 'b) \<Rightarrow> ('q \<Rightarrow> 'q) \<Rightarrow> nat \<Rightarrow> 'q \<Rightarrow> 'b list \<times> 'q" where
  "take_upto mt peek nxt 0 x = ([], x)"
| "take_upto mt peek nxt (Suc n) x =
     (if mt x then ([], x)
      else let (bs, y) = take_upto mt peek nxt n (nxt x) in (peek x # bs, y))"

locale bounded_queue =
  fixes ok :: "'q \<Rightarrow> bool" and contents :: "'q \<Rightarrow> 'b list" and cap :: nat
    and mt :: "'q \<Rightarrow> bool" and full :: "'q \<Rightarrow> bool"
    and put :: "'b \<Rightarrow> 'q \<Rightarrow> 'q" and peek :: "'q \<Rightarrow> 'b" and nxt :: "'q \<Rightarrow> 'q"
  assumes empty_iff: "ok x \<Longrightarrow> mt x \<longleftrightarrow> contents x = []"
    and full_iff: "ok x \<Longrightarrow> full x \<longleftrightarrow> length (contents x) = cap"
    and bounded: "ok x \<Longrightarrow> length (contents x) \<le> cap"
    and put_ok: "ok x \<Longrightarrow> \<not> full x \<Longrightarrow> ok (put c x) \<and> contents (put c x) = contents x @ [c]"
    and next_ok: "ok x \<Longrightarrow> \<not> mt x \<Longrightarrow> ok (nxt x) \<and> contents x = peek x # contents (nxt x)"
begin

lemma put_all_appends:
  "ok x \<Longrightarrow> length (contents x) + length cs \<le> cap \<Longrightarrow>
    ok (put_all put cs x) \<and> contents (put_all put cs x) = contents x @ cs"
proof (induction cs arbitrary: x)
  case Nil
  then show ?case by simp
next
  case (Cons c cs)
  then have "\<not> full x" by (simp add: full_iff)
  with Cons.prems(1) have "ok (put c x)" "contents (put c x) = contents x @ [c]" using put_ok by auto
  with Cons.IH [of "put c x"] Cons.prems(2) show ?case by simp
qed

lemma take_upto_takes:
  "ok x \<Longrightarrow> take_upto mt peek nxt n x = (bs, y) \<Longrightarrow>
    ok y \<and> bs = take n (contents x) \<and> contents y = drop n (contents x)"
proof (induction n arbitrary: x bs)
  case 0
  then show ?case by simp
next
  case (Suc n)
  show ?case
  proof (cases "mt x")
    case True
    with Suc.prems empty_iff [of x] show ?thesis by simp
  next
    case False
    obtain bs' where r: "take_upto mt peek nxt n (nxt x) = (bs', y)" "bs = peek x # bs'"
      using Suc.prems False by (auto split: prod.splits)
    have n: "ok (nxt x)" "contents x = peek x # contents (nxt x)" using next_ok Suc.prems(1) False by auto
    show ?thesis using Suc.IH [OF n(1) r(1)] r(2) n(2) by simp
  qed
qed

lemma first_in_first_out:
  assumes "ok x" and "contents x = []" and "length cs \<le> cap"
  shows "fst (take_upto mt peek nxt (length cs) (put_all put cs x)) = cs"
proof -
  obtain bs y where r: "take_upto mt peek nxt (length cs) (put_all put cs x) = (bs, y)"
    by (cases "take_upto mt peek nxt (length cs) (put_all put cs x)")
  have "ok (put_all put cs x)" "contents (put_all put cs x) = cs" using put_all_appends [of x cs] assms by auto
  with take_upto_takes [OF _ r] show ?thesis by (simp add: r)
qed

end

definition pipe_at :: "pipe \<Rightarrow> nat \<Rightarrow> u8" where
  "pipe_at x j = pi_data x ! (unat (pi_nread x + of_nat j) mod 512)"

definition pipe_contents :: "pipe \<Rightarrow> u8 list" where
  "pipe_contents x = map (pipe_at x) [0..<unat (pi_nwrite x - pi_nread x)]"

definition pipe_ok :: "pipe \<Rightarrow> bool" where
  "pipe_ok x \<longleftrightarrow> length (pi_data x) = 512 \<and> unat (pi_nwrite x - pi_nread x) \<le> 512"

lemma pipe_index: "unat ((a :: u32) mod of_nat PIPESIZE) = unat a mod 512"
  by (simp add: unat_mod PIPESIZE_def)

lemma ring_index:
  "unat ((a :: u32) + of_nat j) mod 512 = (unat a + j) mod 512"
  by (simp add: unat_word_ariths unat_of_nat mod_mod_cancel mod_add_right_eq)

lemma ring_index_inj:
  assumes "(a + j) mod 512 = (a + k) mod 512" and "j < 512" and "k < (512 :: nat)"
  shows "j = k"
  using assms
proof (induction j k rule: linorder_wlog)
  case (le j k)
  then have "512 dvd (a + k) - (a + j)" using mod_eq_dvd_iff_nat [of "a + j" "a + k" 512] by simp
  then show ?case using le by (auto dest: dvd_imp_le)
qed simp

lemma pipe_full_len: "pipe_ok x \<Longrightarrow> pipe_full x \<longleftrightarrow> unat (pi_nwrite x - pi_nread x) = 512"
proof -
  have "pi_nwrite x = pi_nread x + 512 \<longleftrightarrow> pi_nwrite x - pi_nread x = 512" by (auto simp: algebra_simps)
  then show ?thesis by (simp add: pipe_full_def PIPESIZE_def word_unat_eq_iff)
qed

lemma pipe_put_ok:
  assumes ok: "pipe_ok x" and "\<not> pipe_full x"
  shows "pipe_ok (pipe_put c x) \<and> pipe_contents (pipe_put c x) = pipe_contents x @ [c]"
proof -
  let ?n = "unat (pi_nwrite x - pi_nread x)"
  have n: "?n < 512" using assms pipe_full_len [OF ok] by (auto simp: pipe_ok_def)
  have n1: "unat (pi_nwrite x + 1 - pi_nread x) = ?n + 1"
  proof -
    have "unat ((pi_nwrite x - pi_nread x) + 1) = ?n + 1" using n by (simp add: unat_word_ariths(1))
    then show ?thesis by (simp add: algebra_simps)
  qed
  have w: "unat (pi_nwrite x) mod 512 = (unat (pi_nread x) + ?n) mod 512"
    using ring_index [of "pi_nread x" ?n] by simp
  have old: "pipe_at (pipe_put c x) j = pipe_at x j" if "j < ?n" for j
  proof -
    have "unat (pi_nwrite x) mod 512 \<noteq> unat (pi_nread x + of_nat j) mod 512"
      using ring_index_inj [of "unat (pi_nread x)" ?n j] that n by (auto simp: w ring_index)
    then show ?thesis by (simp add: pipe_at_def pipe_put_def pipe_index)
  qed
  have new: "pipe_at (pipe_put c x) ?n = c"
    using ok by (simp add: pipe_at_def pipe_put_def pipe_index ring_index w pipe_ok_def)
  have "pipe_contents (pipe_put c x) = map (pipe_at (pipe_put c x)) ([0..<?n] @ [?n])"
    using n1 by (simp add: pipe_contents_def) (simp add: pipe_put_def)
  also have "\<dots> = pipe_contents x @ [c]" using old new by (simp add: pipe_contents_def)
  finally show ?thesis using ok n n1 by (simp add: pipe_ok_def) (simp add: pipe_put_def)
qed

lemma pipe_drop_ok:
  assumes ok: "pipe_ok x" and "\<not> pipe_empty x"
  shows "pipe_ok (pipe_drop x) \<and> pipe_contents x = pipe_peek x # pipe_contents (pipe_drop x)"
proof -
  let ?n = "unat (pi_nwrite x - pi_nread x)"
  have "pi_nwrite x - pi_nread x \<noteq> 0" using assms(2) by (simp add: pipe_empty_def)
  then have n: "0 < ?n" by (simp add: unat_gt_0)
  have "1 \<le> pi_nwrite x - pi_nread x" using n by (simp add: word_le_nat_alt)
  then have n1: "unat (pi_nwrite x - (pi_nread x + 1)) = ?n - 1"
    using unat_sub [of 1 "pi_nwrite x - pi_nread x"] by (simp add: algebra_simps)
  have "pipe_at x (Suc j) = pipe_at (pipe_drop x) j" for j
    by (simp add: pipe_at_def pipe_drop_def algebra_simps)
  moreover have "[0..<?n] = 0 # map Suc [0..<?n - 1]" using n by (simp add: map_Suc_upt upt_conv_Cons)
  ultimately have "pipe_contents x = pipe_at x 0 # pipe_contents (pipe_drop x)"
    using n1 by (simp add: pipe_contents_def) (simp add: pipe_drop_def)
  moreover have "pipe_at x 0 = pipe_peek x" by (simp add: pipe_at_def pipe_peek_def pipe_index)
  moreover have "pipe_ok (pipe_drop x)" using ok n1 by (simp add: pipe_ok_def pipe_drop_def) linarith
  ultimately show ?thesis by simp
qed

interpretation ring: bounded_queue pipe_ok pipe_contents 512 pipe_empty pipe_full pipe_put pipe_peek pipe_drop
proof
  fix x c assume ok: "pipe_ok x"
  show "pipe_empty x \<longleftrightarrow> pipe_contents x = []"
    by (auto simp: pipe_empty_def pipe_contents_def unat_eq_0)
  show "pipe_full x \<longleftrightarrow> length (pipe_contents x) = 512"
    using pipe_full_len [OF ok] by (simp add: pipe_contents_def)
  show "length (pipe_contents x) \<le> 512" using ok by (simp add: pipe_contents_def pipe_ok_def)
qed (auto simp: pipe_put_ok pipe_drop_ok)



end
