(* ===== verification/Pipeprops.thy ===== *)
theory Pipeprops
  imports Pipe
begin

text \<open>
  What \<^verbatim>\<open>pipewrite\<close> and \<^verbatim>\<open>piperead\<close> do to the queue of bytes in the pipe, when they block, and what
  they return when the other end is closed.
\<close>

section \<open>Writing\<close>

lemma killed_exact:
  assumes "procs_ready s" and "p < NPROC"
  shows "\<exists>l. killed p s = Some (p_killed (procs s ! p), s\<lparr>lk := l\<rparr>) \<and> lksame (lk s) l"
  using procs_readyD [OF assms(1)] assms(2)
  by (intro exI [of _ "rel (ProcLock p) (acq (ProcLock p) (lk s))"]) (simp add: killed_def)

lemma upd_pipe_simps [simp]:
  "lk (upd_pipe pi f s) = lk s" "mem (upd_pipe pi f s) = mem s" "procs (upd_pipe pi f s) = procs s"
  "pipes (upd_pipe pi f s) = (pipes s)(pi := f (pipes s pi))" "myproc (upd_pipe pi f s) = myproc s"
  by (simp_all add: upd_pipe_def myproc_def mycpu_def)

text \<open>The part of the loop that ends the call.\<close>

definition write_end :: "u64 \<Rightarrow> nat \<Rightarrow> 'z kpipe_scheme \<Rightarrow> ((int outcome \<times> nat) \<times> 'z kpipe_scheme) option" where
  "write_end pi i s =
     do { s \<leftarrow> wakeup (ChPipeRead pi) s; s \<leftarrow> release (PipeLock pi) s; Some ((Done (int i), i), s) }"

lemma umap_ok_one: "umap_ok m pt va len \<Longrightarrow> i < len \<Longrightarrow> umap_ok m pt (va + of_nat i) 1"
  using umap_ok_drop [of m pt va len i] by (auto simp: umap_ok_def)

lemma pipewrite_loop_fills:
  fixes s :: "'z kpipe_scheme"
  assumes "procs_ready s" and me: "myproc s = Some pr" "pr < NPROC" and "p_killed (procs s ! pr) = 0"
    and "pi_readopen (pipes s pi) \<noteq> 0" and "pt = p_pagetable (procs s ! pr)" and "pt_wf (mem s) pt"
    and um: "umap_ok (mem s) pt addr n" and "pipe_ok (pipes s pi)"
    and "length (pipe_contents (pipes s pi)) + (n - i) \<le> 512" and "i \<le> n"
  shows "\<exists>l. lksame (lk s) l \<and> pipewrite_loop pi addr (int n) i s =
    write_end pi n (s\<lparr>lk := l, pipes := (pipes s)(pi := put_all pipe_put (drop i (ubytes (mem s) pt addr n)) (pipes s pi))\<rparr>)"
  using assms
proof (induction "n - i" arbitrary: i s)
  case 0
  then have "pipewrite_loop pi addr (int n) i s = write_end pi n s"
    by (simp add: pipewrite_loop.simps [of pi addr] write_end_def)
  then show ?case using 0 by (intro exI [of _ "lk s"]) (simp add: ubytes_def)
next
  case (Suc k)
  have i: "i < n" using Suc by simp
  let ?c = "mem s (uaddr (mem s) pt (addr + of_nat i))"
  obtain l where l: "killed pr s = Some (p_killed (procs s ! pr), s\<lparr>lk := l\<rparr>)" "lksame (lk s) l"
    using killed_exact [OF Suc.prems(1,3)] by blast
  have "length (pipe_contents (pipes s pi)) < 512" using Suc.prems(10) i by simp
  then have nf: "\<not> pipe_full (pipes s pi)" using ring.full_iff [OF Suc.prems(9)] by simp
  note put = pipe_put_ok [OF Suc.prems(9) nf, of ?c]
  have ci: "copyin pt (addr + of_nat i) 1 (s\<lparr>lk := l\<rparr>) = Some ((0, [?c]), s\<lparr>lk := l\<rparr>)"
    using copyin_reads [of "s\<lparr>lk := l\<rparr>" pt "addr + of_nat i" 1] umap_ok_one [OF Suc.prems(8) i] Suc.prems(7)
    by (simp add: ubytes_def)
  let ?s = "upd_pipe pi (pipe_put ?c) (s\<lparr>lk := l\<rparr>)"
  have step: "pipewrite_loop pi addr (int n) i s = pipewrite_loop pi addr (int n) (i + 1) ?s"
    using i Suc.prems(2,4,5,6) l(1) nf ci by (simp add: pipewrite_loop.simps [of pi addr "int n" i])
  have me: "myproc (s\<lparr>lk := l\<rparr>) = Some pr"
    using lksame_myproc [of s "s\<lparr>lk := l\<rparr>"] l(2) Suc.prems(2) by simp
  have pr: "procs_ready ?s" using procs_ready_lk [OF Suc.prems(1) l(2)] by (simp add: procs_ready_def)
  have ro: "pi_readopen (pipes ?s pi) \<noteq> 0" using Suc.prems(5) by (simp add: pipe_put_def)
  have k: "k = n - (i + 1)" using Suc.hyps(2) by simp
  obtain l2 where l2: "lksame (lk ?s) l2" "pipewrite_loop pi addr (int n) (i + 1) ?s =
      write_end pi n (?s\<lparr>lk := l2, pipes := (pipes ?s)(pi := put_all pipe_put (drop (i + 1) (ubytes (mem ?s) pt addr n)) (pipes ?s pi))\<rparr>)"
    using Suc.hyps(1) [OF k pr] Suc.prems(3,4,6,7,8,10) me ro put i by auto
  have "drop i (ubytes (mem s) pt addr n) = ?c # drop (i + 1) (ubytes (mem s) pt addr n)"
    using i by (simp add: Cons_nth_drop_Suc [symmetric] ubytes_def)
  then show ?case using step l2 l(2)
    by (intro exI [of _ l2]) (auto simp: upd_pipe_def intro: lksame_trans)
qed


text \<open>The queue grows by the user's bytes; the readers are woken.\<close>

lemma write_end_exact:
  assumes "procs_ready s" and "PipeLock pi \<in> held (lk s)"
  shows "\<exists>l s'. write_end pi i s = Some ((Done (int i), i), s') \<and> lksame (lk s) l \<and> lk s' = rel (PipeLock pi) l \<and>
    pipes s' = pipes s \<and> mem s' = mem s \<and> (\<forall>p < NPROC. procs s' ! p = woken (ChPipeRead pi) (myproc s) p (procs s ! p))"
proof -
  obtain l where w: "wakeup (ChPipeRead pi) s =
      Some (s\<lparr>lk := l, procs := map (\<lambda>p. woken (ChPipeRead pi) (myproc s) p (procs s ! p)) [0..<NPROC]\<rparr>)" "lksame (lk s) l"
    using wakeup_exact [OF assms(1)] by blast
  have "lkwf l" "PipeLock pi \<in> held l" using w(2) assms procs_readyD(1) [OF assms(1)] by (auto simp: lksame_def)
  with w show ?thesis by (intro exI [of _ l]) (simp add: write_end_def)
qed

lemma procs_ready_acq:
  assumes "procs_ready s" and "\<And>p. L \<noteq> ProcLock p" and "L \<notin> held (lk s)"
  shows "procs_ready (s\<lparr>lk := acq L (lk s)\<rparr>)" and "myproc (s\<lparr>lk := acq L (lk s)\<rparr>) = myproc s"
  using assms by (auto simp: procs_ready_def myproc_def mycpu_def acq_fields)

text \<open>
  C13: \<^verbatim>\<open>pipewrite\<close> with room for all its bytes returns the number of bytes asked for, appends exactly
  the caller's bytes to the queue in the pipe, leaves memory as it was, and wakes every reader that
  sleeps on the pipe.
\<close>

theorem pipewrite_appends_user_bytes:
  assumes "procs_ready s" and "myproc s = Some pr" and "pr < NPROC" and "p_killed (procs s ! pr) = 0"
    and "PipeLock pi \<notin> held (lk s)" and "pi_readopen (pipes s pi) \<noteq> 0" and "pipe_ok (pipes s pi)"
    and "pt_wf (mem s) (p_pagetable (procs s ! pr))" and "umap_ok (mem s) (p_pagetable (procs s ! pr)) addr n"
    and "length (pipe_contents (pipes s pi)) + n \<le> 512"
  shows "\<exists>s'. pipewrite pi addr (int n) s = Some ((Done (int n), n), s') \<and> lksame (lk s) (lk s') \<and> mem s' = mem s \<and>
    pipe_ok (pipes s' pi) \<and>
    pipe_contents (pipes s' pi) = pipe_contents (pipes s pi) @ ubytes (mem s) (p_pagetable (procs s ! pr)) addr n \<and>
    (\<forall>p < NPROC. p \<noteq> pr \<and> p_state (procs s ! p) = SLEEPING \<and> p_chan (procs s ! p) = Some (ChPipeRead pi) \<longrightarrow>
       p_state (procs s' ! p) = RUNNABLE)"
proof -
  let ?s = "s\<lparr>lk := acq (PipeLock pi) (lk s)\<rparr>" and ?bs = "ubytes (mem s) (p_pagetable (procs s ! pr)) addr n"
  have lw: "lkwf (lk s)" using procs_readyD(1) [OF assms(1)] .
  note r = procs_ready_acq [OF assms(1) _ assms(5), simplified]
  obtain l where l: "lksame (lk ?s) l" "pipewrite_loop pi addr (int n) 0 ?s =
      write_end pi n (?s\<lparr>lk := l, pipes := (pipes s)(pi := put_all pipe_put ?bs (pipes s pi))\<rparr>)"
    using pipewrite_loop_fills [OF r(1), of pr pi "p_pagetable (procs s ! pr)" addr n 0] r(2) assms by auto
  let ?t = "?s\<lparr>lk := l, pipes := (pipes s)(pi := put_all pipe_put ?bs (pipes s pi))\<rparr>"
  have "lksame (lk ?s) (lk ?t)" using l(1) by simp
  then have t: "procs_ready ?t" "PipeLock pi \<in> held (lk ?t)" "myproc ?t = Some pr"
    using procs_ready_lk [OF r(1), of l] l(1) r(2) assms(2,5) lw lksame_myproc [of ?s ?t]
    by (auto simp: procs_ready_def lksame_def acq_fields)
  obtain l' s' where e: "write_end pi n ?t = Some ((Done (int n), n), s')" "lksame l l'" "lk s' = rel (PipeLock pi) l'"
      "pipes s' = pipes ?t" "mem s' = mem s" "\<forall>p < NPROC. procs s' ! p = woken (ChPipeRead pi) (Some pr) p (procs s ! p)"
    using write_end_exact [OF t(1,2), of n] t(3) by auto
  have "lksame (lk s) (lk s')"
    using lksame_release [OF lw assms(5), of l'] lksame_trans [OF l(1) e(2)] e(3) by simp
  moreover have "pipewrite pi addr (int n) s = Some ((Done (int n), n), s')"
    using assms(5) lw l(2) e(1) by (simp add: pipewrite_def)
  moreover have "pipe_ok (pipes s' pi)" "pipe_contents (pipes s' pi) = pipe_contents (pipes s pi) @ ?bs"
    using ring.put_all_appends [OF assms(7), of ?bs] assms(10) e(4) by (simp_all add: ubytes_def)
  ultimately show ?thesis using e(5,6) by (auto simp: woken_def)
qed

section \<open>Reading\<close>

lemma uwrite_ok_take:
  assumes "uwrite_ok m pt va len" and "k \<le> len"
  shows "uwrite_ok m pt va k"
proof -
  have "inj_on (\<lambda>j. uaddr m pt (va + of_nat j)) {..<k}"
    using assms by (intro inj_on_subset [of _ "{..<len}" "{..<k}"]) (auto simp: uwrite_ok_def)
  then show ?thesis using assms by (simp add: uwrite_ok_def umap_ok_def)
qed

lemma ubytes_other:
  assumes "\<forall>v. pte_at m' pt v = pte_at m pt v" and "\<And>j. j < len \<Longrightarrow> m' (uaddr m pt (va + of_nat j)) = m (uaddr m pt (va + of_nat j))"
  shows "ubytes m' pt va len = ubytes m pt va len"
  using assms by (simp add: ubytes_def uaddr_def)

lemma piperead_copy_takes:
  fixes s :: "'z kpipe_scheme"
  assumes "pipe_ok (pipes s pi)" and "pt = p_pagetable (procs s ! pr)" and "pt_wf (mem s) pt" and "i \<le> n"
    and "r = min (n - i) (length (pipe_contents (pipes s pi)))" and "uwrite_ok (mem s) pt (addr + of_nat i) r"
  shows "\<exists>m' x. piperead_copy pi pr addr (int n) i s = Some (int (i + r), s\<lparr>mem := m', pipes := (pipes s)(pi := x)\<rparr>) \<and>
    pipe_ok x \<and> pipe_contents x = drop r (pipe_contents (pipes s pi)) \<and> pt_wf m' pt \<and>
    (\<forall>v. pte_at m' pt v = pte_at (mem s) pt v) \<and>
    ubytes m' pt (addr + of_nat i) r = take r (pipe_contents (pipes s pi)) \<and>
    (\<forall>a. (\<forall>j < r. a \<noteq> uaddr (mem s) pt (addr + of_nat i + of_nat j)) \<longrightarrow> m' a = mem s a)"
  using assms
proof (induction r arbitrary: i s)
  case 0
  then have "i = n \<or> pipe_empty (pipes s pi)" using ring.empty_iff [OF 0(1)] by (auto simp: min_def split: if_splits)
  then have "piperead_copy pi pr addr (int n) i s = Some (int i, s)"
    using 0 by (auto simp: piperead_copy.simps [of pi pr addr])
  then show ?case using 0 by (intro exI [of _ "mem s"] exI [of _ "pipes s pi"]) (simp add: ubytes_def)
next
  case (Suc r)
  let ?x = "pipes s pi" and ?a = "addr + of_nat i" and ?m = "mem s"
  have i: "i < n" and "\<not> pipe_contents ?x = []" using Suc.prems(5) by auto
  then have ne: "\<not> pipe_empty ?x" using ring.empty_iff [OF Suc.prems(1)] by simp
  note d = pipe_drop_ok [OF Suc.prems(1) ne]
  have w1: "uwrite_ok ?m pt ?a 1" using uwrite_ok_take [OF Suc.prems(6), of 1] by simp
  obtain m1 where m1: "copyout pt ?a [pipe_peek ?x] s = Some (0, s\<lparr>mem := m1\<rparr>)" "pt_wf m1 pt"
      "pt_nodes m1 pt = pt_nodes ?m pt" "\<forall>v. pte_at m1 pt v = pte_at ?m pt v" "ubytes m1 pt ?a 1 = [pipe_peek ?x]"
      "\<forall>a. a \<noteq> uaddr ?m pt ?a \<longrightarrow> m1 a = ?m a"
    using copyout_writes [OF Suc.prems(3), of ?a "[pipe_peek ?x]"] w1 by auto
  let ?s = "upd_pipe pi pipe_drop (s\<lparr>mem := m1\<rparr>)"
  have step: "piperead_copy pi pr addr (int n) i s = piperead_copy pi pr addr (int n) (i + 1) ?s"
    using i ne m1(1) Suc.prems(2) by (simp add: piperead_copy.simps [of pi pr addr "int n" i])
  have a1: "addr + of_nat (i + 1) = ?a + of_nat 1" by (simp add: add.assoc)
  have "uwrite_ok ?m pt (?a + of_nat 1) (Suc r - 1)" by (rule uwrite_ok_drop [OF Suc.prems(6)]) simp
  then have w2: "uwrite_ok (mem ?s) pt (addr + of_nat (i + 1)) r"
    using uwrite_ok_cong [OF m1(4,3)] by (simp only: a1) simp
  have r: "r = min (n - (i + 1)) (length (pipe_contents (pipes ?s pi)))" using Suc.prems(5) d by simp
  have pre: "pipe_ok (pipes ?s pi)" "pt = p_pagetable (procs ?s ! pr)" "pt_wf (mem ?s) pt" "i + 1 \<le> n"
    using d m1(2) Suc.prems(2) i by simp_all
  obtain m' x where h0: "piperead_copy pi pr addr (int n) (i + 1) ?s = Some (int (i + 1 + r), ?s\<lparr>mem := m', pipes := (pipes ?s)(pi := x)\<rparr>)"
      "pipe_ok x" "pipe_contents x = drop r (pipe_contents (pipes ?s pi))" "pt_wf m' pt" "\<forall>v. pte_at m' pt v = pte_at (mem ?s) pt v"
      "ubytes m' pt (addr + of_nat (i + 1)) r = take r (pipe_contents (pipes ?s pi))"
      "\<forall>a. (\<forall>j < r. a \<noteq> uaddr (mem ?s) pt (addr + of_nat (i + 1) + of_nat j)) \<longrightarrow> m' a = mem ?s a"
    using Suc.IH [OF pre r w2] by blast
  have q: "pipes ?s pi = pipe_drop ?x" "mem ?s = m1" by simp_all
  note h = h0 [unfolded q]
  have ua: "uaddr m1 pt v = uaddr ?m pt v" "uaddr m' pt v = uaddr ?m pt v" for v
    using m1(4) h(5) by (simp_all add: uaddr_def)
  have inj: "inj_on (\<lambda>j. uaddr ?m pt (?a + of_nat j)) {..<Suc r}" using Suc.prems(6) by (simp add: uwrite_ok_def)
  have "uaddr ?m pt (?a + of_nat 0) \<noteq> uaddr ?m pt (?a + of_nat (Suc j))" if "j < r" for j
    using inj_onD [OF inj, of 0 "Suc j"] that by auto
  then have keep: "m' (uaddr ?m pt ?a) = m1 (uaddr ?m pt ?a)"
    using h(7) by (simp add: ua ac_simps)
  have "ubytes m' pt ?a (Suc r) = ubytes m' pt ?a 1 @ ubytes m' pt (?a + of_nat 1) r" using ubytes_split [of 1 "Suc r" m' pt ?a] by simp
  also have "ubytes m' pt ?a 1 = [pipe_peek ?x]" using m1(5) keep by (simp add: ubytes_def ua)
  also have "ubytes m' pt (?a + of_nat 1) r = take r (pipe_contents (pipe_drop ?x))" using h(6) unfolding a1 .
  finally have bytes: "ubytes m' pt ?a (Suc r) = take (Suc r) (pipe_contents ?x)" using d by simp
  have out: "m' b = ?m b" if b: "\<forall>j < Suc r. b \<noteq> uaddr ?m pt (?a + of_nat j)" for b
  proof -
    have "b \<noteq> uaddr ?m pt (addr + of_nat (i + 1) + of_nat j)" if "j < r" for j
      using b [rule_format, of "Suc j"] that by (simp add: ac_simps)
    then show ?thesis using h(7) m1(6) b [rule_format, of 0] by (simp add: ua)
  qed
  have "?s\<lparr>mem := m', pipes := (pipes ?s)(pi := x)\<rparr> = s\<lparr>mem := m', pipes := (pipes s)(pi := x)\<rparr>" by (simp add: upd_pipe_def)
  then have "piperead_copy pi pr addr (int n) i s = Some (int (i + Suc r), s\<lparr>mem := m', pipes := (pipes s)(pi := x)\<rparr>)"
    using step h0(1) by simp
  then show ?case using h(2-5) d bytes out m1(4) by (intro exI [of _ m'] exI [of _ x] conjI) (simp_all add: fun_upd_def)
qed

text \<open>
  C16: \<^verbatim>\<open>piperead\<close> on a pipe that holds bytes returns the smaller of the number asked for and the
  number held, stores exactly the oldest bytes of the queue at the caller's address in order, and
  removes exactly those from the queue; nothing else in memory changes.
\<close>

theorem piperead_delivers_oldest_bytes:
  assumes "procs_ready s" and "myproc s = Some pr" and "pr < NPROC" and "PipeLock pi \<notin> held (lk s)"
    and "pipe_ok (pipes s pi)" and "pipe_contents (pipes s pi) \<noteq> []" and "pt = p_pagetable (procs s ! pr)" and "pt_wf (mem s) pt"
    and "k = min n (length (pipe_contents (pipes s pi)))" and "uwrite_ok (mem s) pt addr k"
  shows "\<exists>s'. piperead pi addr (int n) s = Some (Done (int k), s') \<and> lksame (lk s) (lk s') \<and>
    pipe_contents (pipes s' pi) = drop k (pipe_contents (pipes s pi)) \<and>
    ubytes (mem s') pt addr k = take k (pipe_contents (pipes s pi)) \<and>
    (\<forall>a. (\<forall>j < k. a \<noteq> uaddr (mem s) pt (addr + of_nat j)) \<longrightarrow> mem s' a = mem s a)"
proof -
  let ?s = "s\<lparr>lk := acq (PipeLock pi) (lk s)\<rparr>"
  have lw: "lkwf (lk s)" using procs_readyD(1) [OF assms(1)] .
  note r = procs_ready_acq [OF assms(1) _ assms(4), simplified]
  have ne: "\<not> pipe_empty (pipes s pi)" using ring.empty_iff [OF assms(5)] assms(6) by simp
  obtain m' x where c: "piperead_copy pi pr addr (int n) 0 ?s = Some (int k, ?s\<lparr>mem := m', pipes := (pipes s)(pi := x)\<rparr>)"
      "pipe_contents x = drop k (pipe_contents (pipes s pi))" "ubytes m' pt addr k = take k (pipe_contents (pipes s pi))"
      "\<forall>a. (\<forall>j < k. a \<noteq> uaddr (mem s) pt (addr + of_nat j)) \<longrightarrow> m' a = mem s a"
    using piperead_copy_takes [of ?s pi pt pr 0 n k addr] assms by auto
  let ?t = "?s\<lparr>mem := m', pipes := (pipes s)(pi := x)\<rparr>"
  have t: "procs_ready ?t" using r(1) by (simp add: procs_ready_def)
  obtain l where w: "wakeup (ChPipeWrite pi) ?t =
      Some (?t\<lparr>lk := l, procs := map (\<lambda>p. woken (ChPipeWrite pi) (myproc ?t) p (procs ?t ! p)) [0..<NPROC]\<rparr>)" "lksame (lk ?t) l"
    using wakeup_exact [OF t] by blast
  have "lkwf l" "PipeLock pi \<in> held l" using w(2) lw assms(4) by (auto simp: lksame_def acq_fields)
  then have "\<exists>s'. piperead pi addr (int n) s = Some (Done (int k), s') \<and> lk s' = rel (PipeLock pi) l \<and> mem s' = m' \<and> pipes s' pi = x"
    using assms(2,4) lw ne c(1) w(1) r(2) by (simp add: piperead_def piperead_round_def)
  moreover have "lksame (lk s) (rel (PipeLock pi) l)" using lksame_release [OF lw assms(4)] w(2) by simp
  ultimately show ?thesis using c(2-4) by auto
qed

section \<open>Blocking and closed ends\<close>

text \<open>
  C37: a writer finds a full pipe and a reader finds an empty one whose write end is open: each goes to
  sleep on the channel the other side wakes, having released the pipe lock, with the queue
  unchanged. Once the write end is closed, reading an empty pipe returns 0; once the read end is
  closed, writing returns -1.
\<close>

theorem pipe_blocks_or_reports_closed_end:
  assumes "procs_ready s" and "held (lk s) = {}" and "noff (mycpu s) = 0" and "myproc s = Some pr" and "pr < NPROC"
    and "p_killed (procs s ! pr) = 0" and "0 < n"
  shows "(pipe_full (pipes s pi) \<and> pi_readopen (pipes s pi) \<noteq> 0 \<longrightarrow>
      (\<exists>ie s'. pipewrite pi addr n s = Some ((Asleep ie, 0), s') \<and> p_state (procs s' ! pr) = SLEEPING \<and>
         p_chan (procs s' ! pr) = Some (ChPipeWrite pi) \<and> PipeLock pi \<notin> held (lk s') \<and> pipes s' = pipes s)) \<and>
    (pipe_empty (pipes s pi) \<and> pi_writeopen (pipes s pi) \<noteq> 0 \<longrightarrow>
      (\<exists>ie s'. piperead pi addr n s = Some (Asleep ie, s') \<and> p_state (procs s' ! pr) = SLEEPING \<and>
         p_chan (procs s' ! pr) = Some (ChPipeRead pi) \<and> PipeLock pi \<notin> held (lk s') \<and> pipes s' = pipes s)) \<and>
    (pipe_empty (pipes s pi) \<and> pi_writeopen (pipes s pi) = 0 \<longrightarrow>
      (\<exists>s'. piperead pi addr n s = Some (Done 0, s') \<and> lksame (lk s) (lk s') \<and> pipes s' = pipes s \<and> mem s' = mem s)) \<and>
    (pi_readopen (pipes s pi) = 0 \<longrightarrow>
      (\<exists>s'. pipewrite pi addr n s = Some ((Done (- 1), 0), s') \<and> lksame (lk s) (lk s') \<and> pipes s' = pipes s \<and> mem s' = mem s))"
proof -
  let ?L = "PipeLock pi" and ?s = "s\<lparr>lk := acq (PipeLock pi) (lk s)\<rparr>"
  have lw: "lkwf (lk s)" and len: "length (procs s) = NPROC" using procs_readyD [OF assms(1)] by auto
  have L: "?L \<notin> held (lk s)" using assms(2) by simp
  note r = procs_ready_acq [OF assms(1) _ L, simplified]
  obtain l where k: "killed pr ?s = Some (0, ?s\<lparr>lk := l\<rparr>)" "lksame (lk ?s) l"
    using killed_exact [OF r(1) assms(5)] assms(6) by auto
  have l: "lkwf l" "held l = {?L}" "noff (cpus l (tp l)) = 1" "procs_ready (s\<lparr>lk := l\<rparr>)" "myproc (s\<lparr>lk := l\<rparr>) = Some pr"
    using k(2) lw L assms(2,3,4) procs_ready_lk [OF r(1) k(2)] r(2) lksame_myproc [of ?s "s\<lparr>lk := l\<rparr>"]
    by (auto simp: lksame_def acq_fields same_hart_def mycpu_def procs_ready_def)
  have sl: "\<exists>ie l'. sleep_enter ch ?L t = Some (ie, t\<lparr>lk := l', procs := (procs t)[pr := (procs t ! pr)\<lparr>p_chan := Some ch, p_state := SLEEPING\<rparr>]\<rparr>) \<and>
      held l' = {ProcLock pr}" if "lksame l (lk t)" "length (procs t) = NPROC" for ch and t :: "'a kpipe_scheme"
  proof -
    have "myproc t = Some pr" using lksame_myproc [of "s\<lparr>lk := l\<rparr>" t] that(1) l(5) by simp
    moreover have "lkwf (lk t)" "held (lk t) = {?L}" "noff (mycpu t) = 1"
      using that(1) l by (auto simp: lksame_def same_hart_def mycpu_def)
    ultimately show ?thesis using sleep_enter_exact [of t ?L pr ch] that(2) assms(5) by auto
  qed
  show ?thesis
  proof (intro conjI impI)
    assume f: "pipe_full (pipes s pi) \<and> pi_readopen (pipes s pi) \<noteq> 0"
    obtain l2 where w: "wakeup (ChPipeRead pi) (s\<lparr>lk := l\<rparr>) = Some (s\<lparr>lk := l2,
        procs := map (\<lambda>p. woken (ChPipeRead pi) (Some pr) p (procs s ! p)) [0..<NPROC]\<rparr>)" "lksame l l2"
      using wakeup_exact [OF l(4)] l(5) by auto
    let ?t = "s\<lparr>lk := l2, procs := map (\<lambda>p. woken (ChPipeRead pi) (Some pr) p (procs s ! p)) [0..<NPROC]\<rparr>"
    obtain ie l3 where "sleep_enter (ChPipeWrite pi) ?L ?t = Some (ie, ?t\<lparr>lk := l3,
        procs := (procs ?t)[pr := (procs ?t ! pr)\<lparr>p_chan := Some (ChPipeWrite pi), p_state := SLEEPING\<rparr>]\<rparr>)" "held l3 = {ProcLock pr}"
      using sl [of ?t "ChPipeWrite pi"] w(2) by auto
    then have "pipewrite pi addr n s = Some ((Asleep ie, 0), ?t\<lparr>lk := l3,
        procs := (procs ?t)[pr := (procs ?t ! pr)\<lparr>p_chan := Some (ChPipeWrite pi), p_state := SLEEPING\<rparr>]\<rparr>)"
      using f lw L r(2) assms(4,7) k(1) w(1) by (simp add: pipewrite_def pipewrite_loop.simps [of pi addr n 0])
    with \<open>held l3 = {ProcLock pr}\<close> show "\<exists>ie s'. pipewrite pi addr n s = Some ((Asleep ie, 0), s') \<and> p_state (procs s' ! pr) = SLEEPING \<and>
         p_chan (procs s' ! pr) = Some (ChPipeWrite pi) \<and> ?L \<notin> held (lk s') \<and> pipes s' = pipes s"
      using assms(5) by simp
  next
    assume f: "pipe_empty (pipes s pi) \<and> pi_writeopen (pipes s pi) \<noteq> 0"
    obtain ie l3 where "sleep_enter (ChPipeRead pi) ?L (s\<lparr>lk := l\<rparr>) = Some (ie, s\<lparr>lk := l3,
        procs := (procs s)[pr := (procs s ! pr)\<lparr>p_chan := Some (ChPipeRead pi), p_state := SLEEPING\<rparr>]\<rparr>)" "held l3 = {ProcLock pr}"
      using sl [of "s\<lparr>lk := l\<rparr>" "ChPipeRead pi"] len by auto
    then show "\<exists>ie s'. piperead pi addr n s = Some (Asleep ie, s') \<and> p_state (procs s' ! pr) = SLEEPING \<and>
         p_chan (procs s' ! pr) = Some (ChPipeRead pi) \<and> ?L \<notin> held (lk s') \<and> pipes s' = pipes s"
      using f lw L r(2) assms(4,5) k(1) len by (simp add: piperead_def piperead_round_def)
  next
    assume f: "pipe_empty (pipes s pi) \<and> pi_writeopen (pipes s pi) = 0"
    obtain l2 where w: "wakeup (ChPipeWrite pi) ?s = Some (s\<lparr>lk := l2,
        procs := map (\<lambda>p. woken (ChPipeWrite pi) (Some pr) p (procs s ! p)) [0..<NPROC]\<rparr>)" "lksame (lk ?s) l2"
      using wakeup_exact [OF r(1)] r(2) assms(4) by auto
    have "lkwf l2" "?L \<in> held l2" "lksame (lk s) (rel ?L l2)"
      using w(2) lw L lksame_release [OF lw L] by (auto simp: lksame_def acq_fields)
    then show "\<exists>s'. piperead pi addr n s = Some (Done 0, s') \<and> lksame (lk s) (lk s') \<and> pipes s' = pipes s \<and> mem s' = mem s"
      using f lw L r(2) assms(4,7) w(1) by (simp add: piperead_def piperead_round_def piperead_copy.simps)
  next
    assume f: "pi_readopen (pipes s pi) = 0"
    then show "\<exists>s'. pipewrite pi addr n s = Some ((Done (- 1), 0), s') \<and> lksame (lk s) (lk s') \<and> pipes s' = pipes s \<and> mem s' = mem s"
      using lw L r(2) assms(4,7) by (simp add: pipewrite_def pipewrite_loop.simps [of pi addr n 0])
  qed
qed

section \<open>Examples\<close>

text \<open>Process 0 runs with the page table at \<open>0x80022000\<close>; the pipe at \<open>0x80030000\<close> is \<open>x\<close>.\<close>

definition pipe_sample :: "memory \<Rightarrow> pipe \<Rightarrow> kpipe" where
  "pipe_sample m x = \<lparr>lk = boot_lk\<lparr>cpus := (\<lambda>_. \<lparr>c_proc = Some 0, noff = 0, intena = False\<rparr>)\<rparr>,
     kend = 0x80020000, freelist = 0, mem = m,
     procs = blank_proc\<lparr>p_state := RUNNING, p_pid := 1, p_pagetable := 0x80022000\<rparr> # replicate 63 blank_proc,
     initproc = Some 0, nextpid = 10, readcount = 0, ticks = 0, trampoline = 0x80007000, forkret_addr = 0x80001000,
     shm_table = [], mutextable = [], pipes = (\<lambda>_. x)\<rparr>"

definition pipe_new :: pipe where
  "pipe_new = \<lparr>pi_data = replicate 512 0, pi_nread = 0, pi_nwrite = 0, pi_readopen = 1, pi_writeopen = 1\<rparr>"

lemma pipe_new_simps [simp]: "pipe_ok pipe_new" "pipe_contents pipe_new = []" "pipe_empty pipe_new"
  "pi_readopen pipe_new = 1" "pi_writeopen pipe_new = 1"
  by (simp_all add: pipe_new_def pipe_ok_def pipe_contents_def pipe_empty_def)

lemma pipe_sample_simps [simp]:
  "procs_ready (pipe_sample m x)" "myproc (pipe_sample m x) = Some 0" "lkwf (lk (pipe_sample m x))"
  "held (lk (pipe_sample m x)) = {}" "noff (mycpu (pipe_sample m x)) = 0" "mem (pipe_sample m x) = m"
  "procs (pipe_sample m x) ! 0 = blank_proc\<lparr>p_state := RUNNING, p_pid := 1, p_pagetable := 0x80022000\<rparr>"
  "pipes (pipe_sample m x) pi = x"
  by (auto simp: pipe_sample_def procs_ready_def myproc_def mycpu_def boot_lk_def lkwf_def held_def NPROC_def)

theorem pipewrite_appends_user_bytes_witness:
  "\<exists>m s'. pipewrite 0x80030000 0 3 (pipe_sample m pipe_new) = Some ((Done 3, 3), s') \<and>
     pipe_contents (pipes s' 0x80030000) = ubytes m 0x80022000 0 3"
proof -
  obtain s :: kshm where s: "pt_wf (mem s) 0x80022000" "\<And>len. len \<le> 4096 \<Longrightarrow> uwrite_ok (mem s) 0x80022000 0 len"
    using one_user_page by blast
  have "umap_ok (mem s) 0x80022000 0 3" using s(2) [of 3] by (simp add: uwrite_ok_def)
  then show ?thesis
    using pipewrite_appends_user_bytes [of "pipe_sample (mem s) pipe_new" 0 "0x80030000" 0 3] s(1)
    by (auto simp: NPROC_def)
qed

theorem piperead_delivers_oldest_bytes_witness:
  "\<exists>m s'. piperead 0x80030000 0 3 (pipe_sample m (pipe_put 66 (pipe_put 65 pipe_new))) = Some (Done 2, s') \<and>
     ubytes (mem s') 0x80022000 0 2 = [65, 66] \<and> pipe_contents (pipes s' 0x80030000) = []"
proof -
  obtain s :: kshm where s: "pt_wf (mem s) 0x80022000" "\<And>len. len \<le> 4096 \<Longrightarrow> uwrite_ok (mem s) 0x80022000 0 len"
    using one_user_page by blast
  let ?x = "pipe_put 66 (pipe_put 65 pipe_new)"
  have "put_all pipe_put [65, 66] pipe_new = ?x" by simp
  then have x: "pipe_ok ?x" "pipe_contents ?x = [65, 66]"
    using ring.put_all_appends [of pipe_new "[65, 66]"] by auto
  show ?thesis
    using piperead_delivers_oldest_bytes [of "pipe_sample (mem s) ?x" 0 "0x80030000" "0x80022000" 2 3 0] s(1) s(2) [of 2] x
    by (auto simp: NPROC_def min_def)
qed

theorem pipe_blocks_or_reports_closed_end_witness:
  "(\<exists>ie s'. piperead 0x80030000 0 3 (pipe_sample (\<lambda>_. 0) pipe_new) = Some (Asleep ie, s')) \<and>
   (\<exists>s'. piperead 0x80030000 0 3 (pipe_sample (\<lambda>_. 0) (pipe_new\<lparr>pi_writeopen := 0\<rparr>)) = Some (Done 0, s'))"
proof -
  have "pipe_empty (pipe_new\<lparr>pi_writeopen := 0\<rparr>)" by (simp add: pipe_empty_def pipe_new_def)
  then show ?thesis
    using pipe_blocks_or_reports_closed_end [of "pipe_sample (\<lambda>_. 0) pipe_new" 0 3 "0x80030000" 0]
      pipe_blocks_or_reports_closed_end [of "pipe_sample (\<lambda>_. 0) (pipe_new\<lparr>pi_writeopen := 0\<rparr>)" 0 3 "0x80030000" 0]
    by (auto simp: NPROC_def)
qed

end
