(* ===== verification/Sleeplock.thy ===== *)
theory Sleeplock
  imports Pipeprops
begin

text \<open>
  \<^verbatim>\<open>kernel/sleeplock.c\<close>: long-term locks. \<open>sleeplocks\<close> gives the lock of each buffer and inode.
  \<^verbatim>\<open>acquiresleep\<close> may have to sleep; the file system code above it is followed in the runs in which
  its locks are free, by \<open>acquiresleep_now\<close>.
\<close>

record sleeplock =
  sl_locked :: u32
  sl_name :: string
  sl_pid :: int

record ksleep = kpipe +
  sleeplocks :: "sleepid \<Rightarrow> sleeplock"

definition upd_sleep :: "sleepid \<Rightarrow> (sleeplock \<Rightarrow> sleeplock) \<Rightarrow> 'z ksleep_scheme \<Rightarrow> 'z ksleep_scheme" where
  "upd_sleep i f s = s\<lparr>sleeplocks := (sleeplocks s)(i := f (sleeplocks s i))\<rparr>"

definition initsleeplock :: "sleepid \<Rightarrow> string \<Rightarrow> 'z ksleep_scheme \<Rightarrow> 'z ksleep_scheme" where
  "initsleeplock i nm s =
     (let s = s\<lparr>lk := initlock (SleepLk i) ''sleep lock'' (lk s)\<rparr>
      in upd_sleep i (\<lambda>x. x\<lparr>sl_name := nm, sl_locked := 0, sl_pid := 0\<rparr>) s)"

definition acquiresleep_round :: "sleepid \<Rightarrow> 'z ksleep_scheme \<Rightarrow> (unit outcome \<times> 'z ksleep_scheme) option" where
  "acquiresleep_round i s =
     (if sl_locked (sleeplocks s i) \<noteq> 0
      then do { (ie, s) \<leftarrow> sleep_enter (ChSleep i) (SleepLk i) s; Some (Asleep ie, s) }
      else do { p \<leftarrow> myproc s;
                let s = upd_sleep i (\<lambda>x. x\<lparr>sl_locked := 1, sl_pid := p_pid (procs s ! p)\<rparr>) s;
                s \<leftarrow> release (SleepLk i) s;
                Some (Done (), s) })"

definition acquiresleep :: "sleepid \<Rightarrow> 'z ksleep_scheme \<Rightarrow> (unit outcome \<times> 'z ksleep_scheme) option" where
  "acquiresleep i s = do { s \<leftarrow> acquire (SleepLk i) s; acquiresleep_round i s }"

definition acquiresleep_resume :: "sleepid \<Rightarrow> bool \<Rightarrow> 'z ksleep_scheme \<Rightarrow> (unit outcome \<times> 'z ksleep_scheme) option" where
  "acquiresleep_resume i ie s = do { s \<leftarrow> sleep_resume (SleepLk i) ie s; acquiresleep_round i s }"

definition acquiresleep_now :: "sleepid \<Rightarrow> 'z ksleep_scheme \<Rightarrow> 'z ksleep_scheme option" where
  "acquiresleep_now i s =
     do { (r, s) \<leftarrow> acquiresleep i s; case r of Done _ \<Rightarrow> Some s | Asleep _ \<Rightarrow> None }"

definition releasesleep :: "sleepid \<Rightarrow> 'z ksleep_scheme \<Rightarrow> 'z ksleep_scheme option" where
  "releasesleep i s =
     do { s \<leftarrow> acquire (SleepLk i) s;
          let s = upd_sleep i (\<lambda>x. x\<lparr>sl_locked := 0, sl_pid := 0\<rparr>) s;
          s \<leftarrow> wakeup (ChSleep i) s;
          release (SleepLk i) s }"

definition holdingsleep :: "sleepid \<Rightarrow> 'z ksleep_scheme \<Rightarrow> (bool \<times> 'z ksleep_scheme) option" where
  "holdingsleep i s =
     do { s \<leftarrow> acquire (SleepLk i) s;
          r \<leftarrow> (if sl_locked (sleeplocks s i) \<noteq> 0
                then do { p \<leftarrow> myproc s; Some (sl_pid (sleeplocks s i) = p_pid (procs s ! p)) }
                else Some False);
          s \<leftarrow> release (SleepLk i) s;
          Some (r, s) }"

end
