(* ===== verification/Bio.thy ===== *)
theory Bio
  imports Sleeplock
begin

text \<open>
  \<^verbatim>\<open>kernel/bio.c\<close>: the buffer cache. The doubly linked list through the buffers, with its head, is
  the list \<open>lru\<close> of buffer numbers from the most to the least recently used. \<open>disk\<close> is the contents of
  the disk's blocks and \<open>dwrites\<close> the block writes it has been given, oldest first; a request to the
  disk driver is \<open>disk_rw\<close>, complete when it returns.
\<close>

section \<open>State\<close>

definition BSIZE :: nat where "BSIZE = 1024"
definition MAXOPBLOCKS :: nat where "MAXOPBLOCKS = 10"
definition LOGBLOCKS :: nat where "LOGBLOCKS = MAXOPBLOCKS * 3"
definition NBUF :: nat where "NBUF = MAXOPBLOCKS * 3"

record buf =
  b_valid :: int
  b_disk :: int
  b_dev :: u32
  b_blockno :: u32
  b_refcnt :: u32
  b_data :: "u8 list"

record kbio = ksleep +
  bufs :: "buf list"
  lru :: "nat list"
  disk :: "u32 \<Rightarrow> u8 list"
  dwrites :: "(u32 \<times> u8 list) list"

definition upd_buf :: "nat \<Rightarrow> (buf \<Rightarrow> buf) \<Rightarrow> 'z kbio_scheme \<Rightarrow> 'z kbio_scheme" where
  "upd_buf i f s = s\<lparr>bufs := (bufs s)[i := f (bufs s ! i)]\<rparr>"

section \<open>Operations\<close>

definition disk_rw :: "nat \<Rightarrow> bool \<Rightarrow> 'z kbio_scheme \<Rightarrow> 'z kbio_scheme" where
  "disk_rw i write s =
     (let b = bufs s ! i in
      if write then s\<lparr>disk := (disk s)(b_blockno b := b_data b), dwrites := dwrites s @ [(b_blockno b, b_data b)]\<rparr>
      else upd_buf i (\<lambda>b. b\<lparr>b_data := disk s (b_blockno b)\<rparr>) s)"

definition binit :: "'z kbio_scheme \<Rightarrow> 'z kbio_scheme" where
  "binit s =
     (let s = s\<lparr>lk := initlock BcacheLock ''bcache'' (lk s), lru := []\<rparr>
      in fold (\<lambda>i s. let s = initsleeplock (BufSleep i) ''buffer'' s in s\<lparr>lru := i # lru s\<rparr>) [0..<NBUF] s)"

definition bget :: "u32 \<Rightarrow> u32 \<Rightarrow> 'z kbio_scheme \<Rightarrow> (nat \<times> 'z kbio_scheme) option" where
  "bget dev blockno s =
     do { s \<leftarrow> acquire BcacheLock s;
          case find (\<lambda>i. b_dev (bufs s ! i) = dev \<and> b_blockno (bufs s ! i) = blockno) (lru s) of
            Some i \<Rightarrow>
              do { let s = upd_buf i (\<lambda>b. b\<lparr>b_refcnt := b_refcnt b + 1\<rparr>) s;
                   s \<leftarrow> release BcacheLock s;
                   s \<leftarrow> acquiresleep_now (BufSleep i) s;
                   Some (i, s) }
          | None \<Rightarrow>
              (case find (\<lambda>i. b_refcnt (bufs s ! i) = 0) (rev (lru s)) of
                 Some i \<Rightarrow>
                   do { let s = upd_buf i (\<lambda>b. b\<lparr>b_dev := dev, b_blockno := blockno, b_valid := 0, b_refcnt := 1\<rparr>) s;
                        s \<leftarrow> release BcacheLock s;
                        s \<leftarrow> acquiresleep_now (BufSleep i) s;
                        Some (i, s) }
               | None \<Rightarrow> None) }"

definition bread :: "u32 \<Rightarrow> u32 \<Rightarrow> 'z kbio_scheme \<Rightarrow> (nat \<times> 'z kbio_scheme) option" where
  "bread dev blockno s =
     do { (b, s) \<leftarrow> bget dev blockno s;
          let s = (if b_valid (bufs s ! b) = 0
                   then upd_buf b (\<lambda>x. x\<lparr>b_valid := 1\<rparr>) (disk_rw b False s) else s);
          Some (b, s) }"

definition bwrite :: "nat \<Rightarrow> 'z kbio_scheme \<Rightarrow> 'z kbio_scheme option" where
  "bwrite b s =
     do { (h, s) \<leftarrow> holdingsleep (BufSleep b) s;
          if \<not> h then None else Some (disk_rw b True s) }"

definition brelse :: "nat \<Rightarrow> 'z kbio_scheme \<Rightarrow> 'z kbio_scheme option" where
  "brelse b s =
     do { (h, s) \<leftarrow> holdingsleep (BufSleep b) s;
          if \<not> h then None
          else do { s \<leftarrow> releasesleep (BufSleep b) s;
                    s \<leftarrow> acquire BcacheLock s;
                    let s = upd_buf b (\<lambda>x. x\<lparr>b_refcnt := b_refcnt x - 1\<rparr>) s;
                    let s = (if b_refcnt (bufs s ! b) = 0 then s\<lparr>lru := b # remove1 b (lru s)\<rparr> else s);
                    release BcacheLock s } }"

definition bpin :: "nat \<Rightarrow> 'z kbio_scheme \<Rightarrow> 'z kbio_scheme option" where
  "bpin b s =
     do { s \<leftarrow> acquire BcacheLock s;
          let s = upd_buf b (\<lambda>x. x\<lparr>b_refcnt := b_refcnt x + 1\<rparr>) s;
          release BcacheLock s }"

definition bunpin :: "nat \<Rightarrow> 'z kbio_scheme \<Rightarrow> 'z kbio_scheme option" where
  "bunpin b s =
     do { s \<leftarrow> acquire BcacheLock s;
          let s = upd_buf b (\<lambda>x. x\<lparr>b_refcnt := b_refcnt x - 1\<rparr>) s;
          release BcacheLock s }"

end
