(* ===== verification/Log.thy ===== *)
theory Log
  imports Bio
begin

text \<open>
  \<^verbatim>\<open>kernel/log.c\<close>: the write-ahead log. The blocks a file system call changes are pinned in the
  cache; the last call to end writes them to the log, writes the header, copies them to their home
  locations and clears the header.
\<close>

record klog = kbio +
  lg_start :: int
  lg_outstanding :: int
  lg_committing :: int
  lg_dev :: int
  lh_n :: int
  lh_block :: "int list"

text \<open>The 32-bit field at a byte offset of a block.\<close>

definition get32 :: "u8 list \<Rightarrow> nat \<Rightarrow> u32" where
  "get32 d off = word_of_bytes (take 4 (drop off d))"

definition put32 :: "u8 list \<Rightarrow> nat \<Rightarrow> u32 \<Rightarrow> u8 list" where
  "put32 d off w = take off d @ bytes_of_word 4 w @ drop (off + 4) d"

definition install_trans :: "bool \<Rightarrow> 'z klog_scheme \<Rightarrow> 'z klog_scheme option" where
  "install_trans recovering s =
     for_each [0..<nat (lh_n s)] (\<lambda>tail s.
       do { (lbuf, s) \<leftarrow> bread (word_of_int (lg_dev s)) (word_of_int (lg_start s + int tail + 1)) s;
            (dbuf, s) \<leftarrow> bread (word_of_int (lg_dev s)) (word_of_int (lh_block s ! tail)) s;
            let s = upd_buf dbuf (\<lambda>b. b\<lparr>b_data := b_data (bufs s ! lbuf)\<rparr>) s;
            s \<leftarrow> bwrite dbuf s;
            s \<leftarrow> (if \<not> recovering then bunpin dbuf s else Some s);
            s \<leftarrow> brelse lbuf s;
            brelse dbuf s }) s"

text \<open>
  A header with more entries than \<^verbatim>\<open>log.lh.block\<close> has would be copied past its end; the model stops
  there.
\<close>

definition read_head :: "'z klog_scheme \<Rightarrow> 'z klog_scheme option" where
  "read_head s =
     do { (b, s) \<leftarrow> bread (word_of_int (lg_dev s)) (word_of_int (lg_start s)) s;
          let d = b_data (bufs s ! b);
          let s = s\<lparr>lh_n := i32 (uint (get32 d 0))\<rparr>;
          if lh_n s > int LOGBLOCKS then None
          else do { let s = fold (\<lambda>i s. s\<lparr>lh_block := (lh_block s)[i := i32 (uint (get32 d (4 + 4 * i)))]\<rparr>) [0..<nat (lh_n s)] s;
                    brelse b s } }"

definition write_head :: "'z klog_scheme \<Rightarrow> 'z klog_scheme option" where
  "write_head s =
     do { (b, s) \<leftarrow> bread (word_of_int (lg_dev s)) (word_of_int (lg_start s)) s;
          let s = upd_buf b (\<lambda>x. x\<lparr>b_data := put32 (b_data x) 0 (word_of_int (lh_n s))\<rparr>) s;
          let s = fold (\<lambda>i s. upd_buf b (\<lambda>x. x\<lparr>b_data := put32 (b_data x) (4 + 4 * i) (word_of_int (lh_block s ! i))\<rparr>) s) [0..<nat (lh_n s)] s;
          s \<leftarrow> bwrite b s;
          brelse b s }"

definition recover_from_log :: "'z klog_scheme \<Rightarrow> 'z klog_scheme option" where
  "recover_from_log s =
     do { s \<leftarrow> read_head s;
          s \<leftarrow> install_trans True s;
          let s = s\<lparr>lh_n := 0\<rparr>;
          write_head s }"

text \<open>\<open>logstart\<close> is the field of the superblock; \<^verbatim>\<open>struct logheader\<close> has 124 bytes, so it fits in a block.\<close>

definition initlog :: "int \<Rightarrow> u32 \<Rightarrow> 'z klog_scheme \<Rightarrow> 'z klog_scheme option" where
  "initlog dev logstart s =
     (if 4 + 4 * LOGBLOCKS \<ge> BSIZE then None
      else let s = s\<lparr>lk := initlock LogLock ''log'' (lk s)\<rparr>;
               s = s\<lparr>lg_start := i32 (uint logstart), lg_dev := dev\<rparr>
           in recover_from_log s)"

definition begin_op_round :: "'z klog_scheme \<Rightarrow> (unit outcome \<times> 'z klog_scheme) option" where
  "begin_op_round s =
     (if lg_committing s \<noteq> 0 \<or> lh_n s + (lg_outstanding s + 1) * int MAXOPBLOCKS > int LOGBLOCKS
      then do { (ie, s) \<leftarrow> sleep_enter ChLog LogLock s; Some (Asleep ie, s) }
      else do { let s = s\<lparr>lg_outstanding := lg_outstanding s + 1\<rparr>;
                s \<leftarrow> release LogLock s;
                Some (Done (), s) })"

definition begin_op :: "'z klog_scheme \<Rightarrow> (unit outcome \<times> 'z klog_scheme) option" where
  "begin_op s = do { s \<leftarrow> acquire LogLock s; begin_op_round s }"

definition begin_op_resume :: "bool \<Rightarrow> 'z klog_scheme \<Rightarrow> (unit outcome \<times> 'z klog_scheme) option" where
  "begin_op_resume ie s = do { s \<leftarrow> sleep_resume LogLock ie s; begin_op_round s }"

definition begin_op_now :: "'z klog_scheme \<Rightarrow> 'z klog_scheme option" where
  "begin_op_now s = do { (r, s) \<leftarrow> begin_op s; case r of Done _ \<Rightarrow> Some s | Asleep _ \<Rightarrow> None }"

definition write_log :: "'z klog_scheme \<Rightarrow> 'z klog_scheme option" where
  "write_log s =
     for_each [0..<nat (lh_n s)] (\<lambda>tail s.
       do { (to, s) \<leftarrow> bread (word_of_int (lg_dev s)) (word_of_int (lg_start s + int tail + 1)) s;
            (from, s) \<leftarrow> bread (word_of_int (lg_dev s)) (word_of_int (lh_block s ! tail)) s;
            let s = upd_buf to (\<lambda>b. b\<lparr>b_data := b_data (bufs s ! from)\<rparr>) s;
            s \<leftarrow> bwrite to s;
            s \<leftarrow> brelse from s;
            brelse to s }) s"

definition commit :: "'z klog_scheme \<Rightarrow> 'z klog_scheme option" where
  "commit s =
     (if lh_n s > 0
      then do { s \<leftarrow> write_log s;
                s \<leftarrow> write_head s;
                s \<leftarrow> install_trans False s;
                let s = s\<lparr>lh_n := 0\<rparr>;
                write_head s }
      else Some s)"

definition end_op :: "'z klog_scheme \<Rightarrow> 'z klog_scheme option" where
  "end_op s =
     do { s \<leftarrow> acquire LogLock s;
          let s = s\<lparr>lg_outstanding := lg_outstanding s - 1\<rparr>;
          if lg_committing s \<noteq> 0 then None
          else do { let do_commit = (lg_outstanding s = 0);
                    s \<leftarrow> (if do_commit then Some (s\<lparr>lg_committing := 1\<rparr>) else wakeup ChLog s);
                    s \<leftarrow> release LogLock s;
                    if do_commit
                    then do { s \<leftarrow> commit s;
                              s \<leftarrow> acquire LogLock s;
                              let s = s\<lparr>lg_committing := 0\<rparr>;
                              s \<leftarrow> wakeup ChLog s;
                              release LogLock s }
                    else Some s } }"

definition log_write :: "nat \<Rightarrow> 'z klog_scheme \<Rightarrow> 'z klog_scheme option" where
  "log_write b s =
     do { s \<leftarrow> acquire LogLock s;
          if lh_n s \<ge> int LOGBLOCKS then None
          else if lg_outstanding s < 1 then None
          else do { let bn = b_blockno (bufs s ! b);
                    let i = (case find (\<lambda>i. word_of_int (lh_block s ! i) = bn) [0..<nat (lh_n s)] of
                               Some i \<Rightarrow> i | None \<Rightarrow> nat (lh_n s));
                    let s = s\<lparr>lh_block := (lh_block s)[i := i32 (uint bn)]\<rparr>;
                    s \<leftarrow> (if int i = lh_n s
                          then do { s \<leftarrow> bpin b s; Some (s\<lparr>lh_n := lh_n s + 1\<rparr>) }
                          else Some s);
                    release LogLock s } }"

end
