(* ===== verification/Bioprops.thy ===== *)
theory Bioprops
  imports Bio
begin

text \<open>
  The buffer cache as a coherent view of the disk: reading a block gives the cached or the stored
  contents, evicting and releasing buffers changes no block's contents, writing a held buffer
  changes exactly its block on disk.
\<close>

section \<open>What the operations may change\<close>

text \<open>\<open>bframe\<close>: nothing but locks, process states, sleep locks, the cache and the disk differs.\<close>

definition bstrip :: "'z kbio_scheme \<Rightarrow> 'z kbio_scheme" where
  "bstrip s = s\<lparr>lk := boot_lk, procs := [], sleeplocks := (\<lambda>_. \<lparr>sl_locked = 0, sl_name = [], sl_pid = 0\<rparr>),
     bufs := [], lru := [], disk := (\<lambda>_. []), dwrites := []\<rparr>"

definition bframe :: "'z kbio_scheme \<Rightarrow> 'z kbio_scheme \<Rightarrow> bool" where
  "bframe s s' \<longleftrightarrow> bstrip s' = bstrip s"

lemma bframe_refl [simp]: "bframe s s" by (simp add: bframe_def)

lemma bframe_trans: "bframe s s1 \<Longrightarrow> bframe s1 s2 \<Longrightarrow> bframe s s2" by (simp add: bframe_def)

lemma bframe_updates [simp]:
  "bframe s (s'\<lparr>lk := l\<rparr>) = bframe s s'" "bframe s (s'\<lparr>procs := ps\<rparr>) = bframe s s'"
  "bframe s (s'\<lparr>sleeplocks := sl\<rparr>) = bframe s s'" "bframe s (s'\<lparr>bufs := bs\<rparr>) = bframe s s'"
  "bframe s (s'\<lparr>lru := lr\<rparr>) = bframe s s'" "bframe s (s'\<lparr>disk := dk\<rparr>) = bframe s s'"
  "bframe s (s'\<lparr>dwrites := dw\<rparr>) = bframe s s'"
  by (simp_all add: bframe_def bstrip_def)

lemma bframe_upd [simp]: "bframe s (upd_buf i f s') = bframe s s'" "bframe s (upd_sleep j g s') = bframe s s'"
  by (simp_all add: upd_buf_def upd_sleep_def)

text \<open>A wakeup makes sleeping processes runnable and changes nothing else in the process table.\<close>

definition pwoken :: "proc list \<Rightarrow> proc list \<Rightarrow> bool" where
  "pwoken ps qs \<longleftrightarrow> length qs = length ps \<and>
     (\<forall>p < length ps. qs ! p = ps ! p \<or> p_state (ps ! p) = SLEEPING \<and> qs ! p = (ps ! p)\<lparr>p_state := RUNNABLE\<rparr>)"

lemma pwoken_refl [simp]: "pwoken ps ps" by (simp add: pwoken_def)

lemma pwokenD:
  "pwoken ps qs \<Longrightarrow> p < length ps \<Longrightarrow>
    qs ! p = ps ! p \<or> p_state (ps ! p) = SLEEPING \<and> qs ! p = (ps ! p)\<lparr>p_state := RUNNABLE\<rparr>"
  by (simp add: pwoken_def)

lemma pwoken_trans:
  assumes "pwoken ps qs" and "pwoken qs rs"
  shows "pwoken ps rs"
  unfolding pwoken_def
proof (intro conjI allI impI)
  show len: "length rs = length ps" using assms by (simp add: pwoken_def)
  fix p assume p: "p < length ps"
  then have "p < length qs" using assms(1) by (simp add: pwoken_def)
  then show "rs ! p = ps ! p \<or> p_state (ps ! p) = SLEEPING \<and> rs ! p = (ps ! p)\<lparr>p_state := RUNNABLE\<rparr>"
    using pwokenD [OF assms(1) p] pwokenD [OF assms(2), of p] by (elim disjE conjE) simp_all
qed

lemma pwoken_pid: "pwoken ps qs \<Longrightarrow> p < length ps \<Longrightarrow> p_pid (qs ! p) = p_pid (ps ! p)"
  using pwokenD [of ps qs p] by auto

lemma wakeup_pwoken:
  assumes "procs_ready s"
  shows "\<exists>l qs. wakeup ch s = Some (s\<lparr>lk := l, procs := qs\<rparr>) \<and> lksame (lk s) l \<and> pwoken (procs s) qs"
proof -
  obtain l where "wakeup ch s = Some (s\<lparr>lk := l, procs := map (\<lambda>p. woken ch (myproc s) p (procs s ! p)) [0..<NPROC]\<rparr>)"
      "lksame (lk s) l"
    using wakeup_exact [OF assms] by blast
  moreover have "pwoken (procs s) (map (\<lambda>p. woken ch (myproc s) p (procs s ! p)) [0..<NPROC])"
    using procs_readyD(3) [OF assms] by (auto simp: pwoken_def woken_def)
  ultimately show ?thesis by blast
qed

section \<open>Sleep locks\<close>

definition bio_ready :: "'z ksleep_scheme \<Rightarrow> nat \<Rightarrow> bool" where
  "bio_ready s pr \<longleftrightarrow> procs_ready s \<and> BcacheLock \<notin> held (lk s) \<and> (\<forall>i. SleepLk i \<notin> held (lk s)) \<and>
     myproc s = Some pr \<and> pr < NPROC"

definition mypid :: "'z ksleep_scheme \<Rightarrow> nat \<Rightarrow> int" where
  "mypid s pr = p_pid (procs s ! pr)"

lemma bio_ready_step:
  assumes "bio_ready s pr" and "lksame (lk s) (lk s')" and "pwoken (procs s) (procs s')"
  shows "bio_ready s' pr" and "mypid s' pr = mypid s pr"
proof -
  have "myproc s' = myproc s" using assms(2) by (rule lksame_myproc)
  moreover have "procs_ready s'"
    using assms by (auto simp: bio_ready_def procs_ready_def lksame_def pwoken_def)
  ultimately show "bio_ready s' pr" using assms by (auto simp: bio_ready_def lksame_def)
  show "mypid s' pr = mypid s pr"
    using assms pwoken_pid by (auto simp: mypid_def bio_ready_def procs_ready_def)
qed

lemma sleeplk_acq:
  assumes "bio_ready s pr"
  shows "lkwf (lk s)" "SleepLk i \<notin> held (lk s)" "procs_ready (s\<lparr>lk := acq (SleepLk i) (lk s)\<rparr>)"
    "myproc (s\<lparr>lk := acq (SleepLk i) (lk s)\<rparr>) = Some pr"
proof -
  have s: "procs_ready s" "SleepLk i \<notin> held (lk s)" "myproc s = Some pr" using assms by (auto simp: bio_ready_def)
  then show "lkwf (lk s)" "SleepLk i \<notin> held (lk s)" by (auto simp: procs_ready_def)
  show "procs_ready (s\<lparr>lk := acq (SleepLk i) (lk s)\<rparr>)" "myproc (s\<lparr>lk := acq (SleepLk i) (lk s)\<rparr>) = Some pr"
    using procs_ready_acq [OF s(1) _ s(2)] s(3) by auto
qed

lemma acquiresleep_now_exact:
  assumes "bio_ready s pr" and "sl_locked (sleeplocks s i) = 0"
  shows "\<exists>l. acquiresleep_now i s = Some (upd_sleep i (\<lambda>x. x\<lparr>sl_locked := 1, sl_pid := mypid s pr\<rparr>) (s\<lparr>lk := l\<rparr>)) \<and>
    lksame (lk s) l"
  using sleeplk_acq [OF assms(1)] assms(2)
  by (intro exI [of _ "rel (SleepLk i) (acq (SleepLk i) (lk s))"])
    (simp add: acquiresleep_now_def acquiresleep_def acquiresleep_round_def Let_def upd_sleep_def mypid_def)

lemma holdingsleep_exact:
  assumes "bio_ready s pr"
  shows "\<exists>l. holdingsleep i s = Some (sl_locked (sleeplocks s i) \<noteq> 0 \<and> sl_pid (sleeplocks s i) = mypid s pr, s\<lparr>lk := l\<rparr>) \<and>
    lksame (lk s) l"
  using sleeplk_acq [OF assms]
  by (intro exI [of _ "rel (SleepLk i) (acq (SleepLk i) (lk s))"]) (simp add: holdingsleep_def mypid_def)

lemma releasesleep_exact:
  assumes "bio_ready s pr"
  shows "\<exists>l qs. releasesleep i s = Some (upd_sleep i (\<lambda>x. x\<lparr>sl_locked := 0, sl_pid := 0\<rparr>) (s\<lparr>lk := l, procs := qs\<rparr>)) \<and>
    lksame (lk s) l \<and> pwoken (procs s) qs"
proof -
  note a = sleeplk_acq [OF assms]
  let ?t = "upd_sleep i (\<lambda>x. x\<lparr>sl_locked := 0, sl_pid := 0\<rparr>) (s\<lparr>lk := acq (SleepLk i) (lk s)\<rparr>)"
  have "procs_ready ?t" using a(3) by (simp add: procs_ready_def upd_sleep_def)
  then obtain l qs where w: "wakeup (ChSleep i) ?t = Some (?t\<lparr>lk := l, procs := qs\<rparr>)" "lksame (lk ?t) l" "pwoken (procs ?t) qs"
    using wakeup_pwoken by blast
  have l: "lksame (acq (SleepLk i) (lk s)) l" using w(2) by (simp add: upd_sleep_def)
  then have "lkwf l" "SleepLk i \<in> held l" using a(1,2) by (auto simp: lksame_def acq_fields)
  then have "releasesleep i s = Some (?t\<lparr>lk := rel (SleepLk i) l, procs := qs\<rparr>)"
    using a(1,2) w(1) by (simp add: releasesleep_def Let_def)
  moreover have "lksame (lk s) (rel (SleepLk i) l)" using lksame_release [OF a(1,2) l] .
  moreover have "pwoken (procs s) qs" using w(3) by (simp add: upd_sleep_def)
  ultimately show ?thesis
    by (intro exI [of _ "rel (SleepLk i) l"] exI [of _ qs]) (simp add: upd_sleep_def)
qed

section \<open>The invariant of the cache\<close>

definition cache_at :: "u32 \<Rightarrow> u32 \<Rightarrow> 'z kbio_scheme \<Rightarrow> nat option" where
  "cache_at d b s = find (\<lambda>i. b_dev (bufs s ! i) = d \<and> b_blockno (bufs s ! i) = b) (lru s)"

text \<open>The contents of a block as the file system sees it: cached or on disk.\<close>

definition content :: "u32 \<Rightarrow> 'z kbio_scheme \<Rightarrow> u32 \<Rightarrow> u8 list" where
  "content d s b = (case cache_at d b s of
     Some i \<Rightarrow> if b_valid (bufs s ! i) \<noteq> 0 then b_data (bufs s ! i) else disk s b | None \<Rightarrow> disk s b)"

definition rc :: "'z kbio_scheme \<Rightarrow> nat \<Rightarrow> u32" where
  "rc s i = b_refcnt (bufs s ! i)"

definition has_lock :: "'z kbio_scheme \<Rightarrow> nat \<Rightarrow> nat \<Rightarrow> bool" where
  "has_lock s pr i \<longleftrightarrow> sl_locked (sleeplocks s (BufSleep i)) \<noteq> 0 \<and> sl_pid (sleeplocks s (BufSleep i)) = mypid s pr"

text \<open>
  \<open>bc_inv d H s pr\<close>: process \<open>pr\<close> runs and holds the locks of exactly the buffers \<open>H\<close>; every used
  buffer caches a different block of device \<open>d\<close>; a buffer nobody refers to is clean.
\<close>

definition bc_shape :: "u32 \<Rightarrow> 'z kbio_scheme \<Rightarrow> bool" where
  "bc_shape d s \<longleftrightarrow> d \<noteq> 0 \<and> length (bufs s) = NBUF \<and> distinct (lru s) \<and> set (lru s) = {..<NBUF} \<and>
     (\<forall>i < NBUF. b_dev (bufs s ! i) = 0 \<or> b_dev (bufs s ! i) = d) \<and>
     (\<forall>i < NBUF. \<forall>j < NBUF. b_dev (bufs s ! i) = d \<and> b_dev (bufs s ! j) = d \<and>
        b_blockno (bufs s ! i) = b_blockno (bufs s ! j) \<longrightarrow> i = j)"

definition bc_inv :: "u32 \<Rightarrow> nat set \<Rightarrow> 'z kbio_scheme \<Rightarrow> nat \<Rightarrow> bool" where
  "bc_inv d H s pr \<longleftrightarrow> bio_ready s pr \<and> bc_shape d s \<and> H \<subseteq> {..<NBUF} \<and>
     (\<forall>i \<in> H. has_lock s pr i \<and> rc s i \<noteq> 0 \<and> b_dev (bufs s ! i) = d \<and> b_valid (bufs s ! i) \<noteq> 0) \<and>
     (\<forall>i < NBUF. i \<notin> H \<longrightarrow> sl_locked (sleeplocks s (BufSleep i)) = 0) \<and>
     (\<forall>i < NBUF. rc s i = 0 \<and> b_valid (bufs s ! i) \<noteq> 0 \<and> b_dev (bufs s ! i) = d \<longrightarrow>
        b_data (bufs s ! i) = disk s (b_blockno (bufs s ! i)))"

lemma cache_at_Some:
  assumes "bc_shape d s"
  shows "cache_at d b s = Some i \<longleftrightarrow> i < NBUF \<and> b_dev (bufs s ! i) = d \<and> b_blockno (bufs s ! i) = b"
proof
  assume "cache_at d b s = Some i"
  then show "i < NBUF \<and> b_dev (bufs s ! i) = d \<and> b_blockno (bufs s ! i) = b"
    using assms by (auto simp: cache_at_def find_Some_iff bc_shape_def)
next
  assume i: "i < NBUF \<and> b_dev (bufs s ! i) = d \<and> b_blockno (bufs s ! i) = b"
  then have "i \<in> set (lru s)" using assms by (simp add: bc_shape_def)
  with i obtain j where j: "cache_at d b s = Some j"
    unfolding cache_at_def by (cases "find (\<lambda>i. b_dev (bufs s ! i) = d \<and> b_blockno (bufs s ! i) = b) (lru s)") (auto simp: find_None_iff)
  then have "j < NBUF \<and> b_dev (bufs s ! j) = d \<and> b_blockno (bufs s ! j) = b"
    using assms by (auto simp: cache_at_def find_Some_iff bc_shape_def)
  with i j assms show "cache_at d b s = Some i" by (auto simp: bc_shape_def)
qed

lemma cache_at_None:
  assumes "bc_shape d s"
  shows "cache_at d b s = None \<longleftrightarrow> (\<forall>i < NBUF. \<not> (b_dev (bufs s ! i) = d \<and> b_blockno (bufs s ! i) = b))"
  using cache_at_Some [OF assms, of b] by (cases "cache_at d b s") auto

lemma content_held:
  assumes "bc_shape d s" and "i < NBUF" and "b_dev (bufs s ! i) = d" and "b_valid (bufs s ! i) \<noteq> 0"
  shows "content d s (b_blockno (bufs s ! i)) = b_data (bufs s ! i)"
  using cache_at_Some [OF assms(1), of "b_blockno (bufs s ! i)" i] assms by (simp add: content_def)

lemma bcache_acq:
  assumes "bio_ready s pr"
  shows "lkwf (lk s)" "BcacheLock \<notin> held (lk s)" "lksame (lk s) (rel BcacheLock (acq BcacheLock (lk s)))"
  using assms by (auto simp: bio_ready_def procs_ready_def)

lemma bio_ready_lk: "bio_ready s pr \<Longrightarrow> lksame (lk s) l \<Longrightarrow> bio_ready (upd_buf i f (s\<lparr>lk := l\<rparr>)) pr"
  by (rule bio_ready_step(1) [of s]) (simp_all add: upd_buf_def)

lemma upd_buf_simps [simp]:
  "lk (upd_buf i f s) = lk s" "procs (upd_buf i f s) = procs s" "sleeplocks (upd_buf i f s) = sleeplocks s"
  "bufs (upd_buf i f s) = (bufs s)[i := f (bufs s ! i)]" "lru (upd_buf i f s) = lru s" "disk (upd_buf i f s) = disk s"
  "dwrites (upd_buf i f s) = dwrites s"
  by (simp_all add: upd_buf_def)

lemma upd_sleep_simps [simp]:
  "lk (upd_sleep j g s) = lk s" "procs (upd_sleep j g s) = procs s" "sleeplocks (upd_sleep j g s) = (sleeplocks s)(j := g (sleeplocks s j))"
  "bufs (upd_sleep j g s) = bufs s" "lru (upd_sleep j g s) = lru s" "disk (upd_sleep j g s) = disk s"
  "dwrites (upd_sleep j g s) = dwrites s"
  by (simp_all add: upd_sleep_def)

lemma upd_buf_lk: "(upd_buf i f t)\<lparr>lk := l\<rparr> = upd_buf i f (t\<lparr>lk := l\<rparr>)"
  by (rule kbio.equality) (simp_all add: upd_buf_def)

definition grab :: "nat \<Rightarrow> nat \<Rightarrow> (buf \<Rightarrow> buf) \<Rightarrow> 'z kbio_scheme \<Rightarrow> lockst \<Rightarrow> 'z kbio_scheme" where
  "grab pr i f s l = upd_sleep (BufSleep i) (\<lambda>x. x\<lparr>sl_locked := 1, sl_pid := mypid s pr\<rparr>) (upd_buf i f (s\<lparr>lk := l\<rparr>))"

lemma bget_locks:
  assumes r: "bio_ready s pr" and free: "sl_locked (sleeplocks s (BufSleep i)) = 0"
  shows "\<exists>l. do { s \<leftarrow> release BcacheLock (upd_buf i f (s\<lparr>lk := acq BcacheLock (lk s)\<rparr>));
              s \<leftarrow> acquiresleep_now (BufSleep i) s; Some (i, s) } = Some (i, grab pr i f s l) \<and> lksame (lk s) l"
proof -
  note a = bcache_acq [OF r]
  let ?l = "rel BcacheLock (acq BcacheLock (lk s))"
  let ?t = "upd_buf i f (s\<lparr>lk := ?l\<rparr>)"
  have "release BcacheLock (upd_buf i f (s\<lparr>lk := acq BcacheLock (lk s)\<rparr>)) = Some ?t"
    using a(1,2) by (simp add: upd_buf_def)
  moreover have "bio_ready ?t pr" using bio_ready_lk [OF r a(3)] .
  moreover have "mypid ?t pr = mypid s pr" by (simp add: mypid_def)
  ultimately obtain l where "acquiresleep_now (BufSleep i) ?t = Some (grab pr i f s l)" "lksame ?l l"
    using acquiresleep_now_exact [of ?t pr "BufSleep i"] free by (auto simp: grab_def upd_buf_lk)
  then show ?thesis using \<open>release _ _ = Some ?t\<close> a(3) lksame_trans by auto
qed

lemma bget_spec:
  assumes inv: "bc_inv d H s pr" and hit: "\<And>i. cache_at d b s = Some i \<Longrightarrow> i \<notin> H"
    and miss: "cache_at d b s = None \<Longrightarrow> \<exists>i < NBUF. rc s i = 0"
  obtains i f l where "bget d b s = Some (i, grab pr i f s l)" "lksame (lk s) l" "i < NBUF" "i \<notin> H"
    "cache_at d b s = Some i \<and> f = (\<lambda>x. x\<lparr>b_refcnt := b_refcnt x + 1\<rparr>) \<or>
     cache_at d b s = None \<and> rc s i = 0 \<and> f = (\<lambda>x. x\<lparr>b_dev := d, b_blockno := b, b_valid := 0, b_refcnt := 1\<rparr>)"
proof -
  have r: "bio_ready s pr" and sh: "bc_shape d s" using inv by (auto simp: bc_inv_def)
  note a = bcache_acq [OF r]
  show thesis
  proof (cases "cache_at d b s")
    case (Some i)
    then have i: "i < NBUF" "i \<notin> H" using cache_at_Some [OF sh] hit by auto
    then have "sl_locked (sleeplocks s (BufSleep i)) = 0" using inv by (simp add: bc_inv_def)
    from bget_locks [OF r this, of "\<lambda>x. x\<lparr>b_refcnt := b_refcnt x + 1\<rparr>"]
    obtain l where "bget d b s = Some (i, grab pr i (\<lambda>x. x\<lparr>b_refcnt := b_refcnt x + 1\<rparr>) s l)" "lksame (lk s) l"
      using Some a(1,2) by (auto simp: bget_def cache_at_def Let_def)
    then show thesis using that i Some by blast
  next
    case None
    obtain i where i: "find (\<lambda>i. b_refcnt (bufs s ! i) = 0) (rev (lru s)) = Some i"
      using miss [OF None] sh by (cases "find (\<lambda>i. b_refcnt (bufs s ! i) = 0) (rev (lru s))") (auto simp: find_None_iff bc_shape_def rc_def)
    then have "b_refcnt (bufs s ! i) = 0 \<and> i \<in> set (rev (lru s))" unfolding find_Some_iff by (metis nth_mem)
    then have i': "rc s i = 0" "i < NBUF" using sh by (auto simp: rc_def bc_shape_def)
    then have "i \<notin> H" "sl_locked (sleeplocks s (BufSleep i)) = 0" using inv by (auto simp: bc_inv_def)
    from bget_locks [OF r this(2), of "\<lambda>x. x\<lparr>b_dev := d, b_blockno := b, b_valid := 0, b_refcnt := 1\<rparr>"]
    obtain l where "bget d b s = Some (i, grab pr i (\<lambda>x. x\<lparr>b_dev := d, b_blockno := b, b_valid := 0, b_refcnt := 1\<rparr>) s l)" "lksame (lk s) l"
      using None i a(1,2) by (auto simp: bget_def cache_at_def Let_def)
    then show thesis using that i' \<open>i \<notin> H\<close> None by blast
  qed
qed

lemma content_cached:
  "bc_shape d s \<Longrightarrow> i < NBUF \<Longrightarrow> b_dev (bufs s ! i) = d \<Longrightarrow> b_blockno (bufs s ! i) = b \<Longrightarrow>
    content d s b = (if b_valid (bufs s ! i) \<noteq> 0 then b_data (bufs s ! i) else disk s b)"
  using cache_at_Some [of d s b i] by (simp add: content_def)

lemma content_uncached:
  "bc_shape d s \<Longrightarrow> (\<forall>i < NBUF. \<not> (b_dev (bufs s ! i) = d \<and> b_blockno (bufs s ! i) = b)) \<Longrightarrow> content d s b = disk s b"
  using cache_at_None [of d s b] by (simp add: content_def)

text \<open>
  Replacing one buffer: the contents of all blocks stay the same, if the buffer's old block was clean
  or is the same block, and its new block has the contents it had.
\<close>

lemma content_replace:
  assumes sh: "bc_shape d s" "bc_shape d s'" and i: "i < NBUF" and others: "\<forall>j < NBUF. j \<noteq> i \<longrightarrow> bufs s' ! j = bufs s ! j"
    and dk: "disk s' = disk s" and new: "b_dev (bufs s' ! i) = d" "b_valid (bufs s' ! i) \<noteq> 0"
    and data: "b_data (bufs s' ! i) = content d s (b_blockno (bufs s' ! i))"
    and old: "b_dev (bufs s ! i) = d \<Longrightarrow> b_blockno (bufs s' ! i) = b_blockno (bufs s ! i) \<or>
      (b_valid (bufs s ! i) \<noteq> 0 \<longrightarrow> b_data (bufs s ! i) = disk s (b_blockno (bufs s ! i)))"
  shows "content d s' = content d s"
proof
  fix c
  show "content d s' c = content d s c"
  proof (cases "c = b_blockno (bufs s' ! i)")
    case True
    then show ?thesis using content_cached [OF sh(2) i new(1)] new(2) data by simp
  next
    case False
    show ?thesis
    proof (cases "\<exists>j < NBUF. j \<noteq> i \<and> b_dev (bufs s ! j) = d \<and> b_blockno (bufs s ! j) = c")
      case True
      then obtain j where j: "j < NBUF" "j \<noteq> i" "b_dev (bufs s ! j) = d" "b_blockno (bufs s ! j) = c" by blast
      then have "bufs s' ! j = bufs s ! j" using others by simp
      then show ?thesis using content_cached [OF sh(1) j(1,3,4)] content_cached [OF sh(2) j(1), of c] j dk by simp
    next
      case none: False
      then have "\<forall>j < NBUF. \<not> (b_dev (bufs s' ! j) = d \<and> b_blockno (bufs s' ! j) = c)"
        using others False by (metis (no_types))
      then have "content d s' c = disk s c" using content_uncached [OF sh(2)] dk by simp
      moreover have "content d s c = disk s c"
      proof (cases "b_dev (bufs s ! i) = d \<and> b_blockno (bufs s ! i) = c")
        case True
        then show ?thesis using content_cached [OF sh(1) i, of c] old False by auto
      next
        case F: False
        then show ?thesis using content_uncached [OF sh(1), of c] none by metis
      qed
      ultimately show ?thesis by simp
    qed
  qed
qed

text \<open>The state after \<^verbatim>\<open>bread\<close>: buffer \<open>i\<close> has become \<open>x\<close> and is locked by the caller.\<close>

definition got :: "nat \<Rightarrow> nat \<Rightarrow> buf \<Rightarrow> 'z kbio_scheme \<Rightarrow> 'z kbio_scheme \<Rightarrow> bool" where
  "got pr i x s s' \<longleftrightarrow> bufs s' = (bufs s)[i := x] \<and>
     sleeplocks s' = (sleeplocks s)(BufSleep i := (sleeplocks s (BufSleep i))\<lparr>sl_locked := 1, sl_pid := mypid s pr\<rparr>) \<and>
     lru s' = lru s \<and> disk s' = disk s \<and> dwrites s' = dwrites s \<and> procs s' = procs s \<and> lksame (lk s) (lk s') \<and> bframe s s'"

lemma bread_exact:
  assumes "bget d b s = Some (i, grab pr i f s l)" and "lksame (lk s) l" and "i < length (bufs s)"
  shows "\<exists>s'. bread d b s = Some (i, s') \<and> got pr i (if b_valid (f (bufs s ! i)) = 0
    then (f (bufs s ! i))\<lparr>b_data := disk s (b_blockno (f (bufs s ! i))), b_valid := 1\<rparr> else f (bufs s ! i)) s s'"
  using assms by (auto simp: bread_def grab_def disk_rw_def Let_def got_def)

lemma bread_spec:
  assumes inv: "bc_inv d H s pr" and hit: "\<And>i. cache_at d b s = Some i \<Longrightarrow> i \<notin> H \<and> rc s i + 1 \<noteq> 0"
    and miss: "cache_at d b s = None \<Longrightarrow> \<exists>i < NBUF. rc s i = 0"
  obtains i x s' where "bread d b s = Some (i, s')" "got pr i x s s'" "i < NBUF" "i \<notin> H" "b_dev x = d" "b_blockno x = b" "b_valid x \<noteq> 0"
    "b_refcnt x = rc s i + 1" "b_data x = content d s b" "bc_inv d (insert i H) s' pr" "content d s' = content d s"
    "rc s i = 0 \<longrightarrow> content d s b = disk s b" "cache_at d b s = Some i \<or> cache_at d b s = None \<and> rc s i = 0"
proof -
  have sh: "bc_shape d s" and r: "bio_ready s pr" using inv by (auto simp: bc_inv_def)
  have hit': "\<And>i. cache_at d b s = Some i \<Longrightarrow> i \<notin> H" using hit by blast
  obtain i f l where g: "bget d b s = Some (i, grab pr i f s l)" "lksame (lk s) l" "i < NBUF" "i \<notin> H"
    "cache_at d b s = Some i \<and> f = (\<lambda>x. x\<lparr>b_refcnt := b_refcnt x + 1\<rparr>) \<or>
     cache_at d b s = None \<and> rc s i = 0 \<and> f = (\<lambda>x. x\<lparr>b_dev := d, b_blockno := b, b_valid := 0, b_refcnt := 1\<rparr>)"
    using bget_spec [OF inv hit' miss] .
  have len: "i < length (bufs s)" using g(3) sh by (simp add: bc_shape_def)
  let ?y = "f (bufs s ! i)"
  let ?x = "if b_valid ?y = 0 then ?y\<lparr>b_data := disk s (b_blockno ?y), b_valid := 1\<rparr> else ?y"
  obtain s' where s': "bread d b s = Some (i, s')" "got pr i ?x s s'" using bread_exact [OF g(1,2) len] by blast
  have x: "b_dev ?x = d \<and> b_blockno ?x = b \<and> b_valid ?x \<noteq> 0 \<and> b_refcnt ?x = rc s i + 1 \<and> b_data ?x = content d s b \<and> b_refcnt ?x \<noteq> 0"
    using g(5)
  proof (elim disjE conjE)
    assume h: "cache_at d b s = Some i" and f: "f = (\<lambda>x. x\<lparr>b_refcnt := b_refcnt x + 1\<rparr>)"
    have "b_dev (bufs s ! i) = d" "b_blockno (bufs s ! i) = b" using cache_at_Some [OF sh] h by auto
    then show ?thesis using h hit [OF h] by (simp add: f rc_def content_def)
  next
    assume h: "cache_at d b s = None" "rc s i = 0" and f: "f = (\<lambda>x. x\<lparr>b_dev := d, b_blockno := b, b_valid := 0, b_refcnt := 1\<rparr>)"
    then show ?thesis by (simp add: f rc_def content_def)
  qed
  have b': "bufs s' ! i = ?x" "\<forall>j < NBUF. j \<noteq> i \<longrightarrow> bufs s' ! j = bufs s ! j" using s'(2) len by (auto simp: got_def)
  have uniq: "\<not> (b_dev (bufs s ! j) = d \<and> b_blockno (bufs s ! j) = b)" if "j < NBUF" "j \<noteq> i" for j
    using g(5) cache_at_Some [OF sh, of b j] cache_at_None [OF sh, of b] that by (elim disjE conjE) auto
  have sh': "bc_shape d s'"
    unfolding bc_shape_def
  proof (intro conjI allI impI)
    fix j k assume j: "j < NBUF" and k: "k < NBUF" and e: "b_dev (bufs s' ! j) = d \<and> b_dev (bufs s' ! k) = d \<and>
        b_blockno (bufs s' ! j) = b_blockno (bufs s' ! k)"
    show "j = k"
    proof (rule ccontr)
      assume ne: "j \<noteq> k"
      consider "j = i" | "k = i" | "j \<noteq> i" "k \<noteq> i" by blast
      then show False
      proof cases
        case 1
        then have "b_dev (bufs s ! k) = d \<and> b_blockno (bufs s ! k) = b" using e b' x k ne by auto
        then show False using uniq [OF k] 1 ne by blast
      next
        case 2
        then have "b_dev (bufs s ! j) = d \<and> b_blockno (bufs s ! j) = b" using e b' x j ne by auto
        then show False using uniq [OF j] 2 ne by blast
      next
        case 3
        then have "b_dev (bufs s ! j) = d \<and> b_dev (bufs s ! k) = d \<and> b_blockno (bufs s ! j) = b_blockno (bufs s ! k)"
          using e b'(2) j k by simp
        then show False using sh j k ne unfolding bc_shape_def by blast
      qed
    qed
  next
    fix j assume "j < NBUF"
    then show "b_dev (bufs s' ! j) = 0 \<or> b_dev (bufs s' ! j) = d" using b' x sh by (cases "j = i") (simp_all add: bc_shape_def)
  qed (use s'(2) sh in \<open>simp_all add: got_def bc_shape_def\<close>)
  have c: "content d s' = content d s"
  proof (rule content_replace [OF sh sh' g(3) b'(2)])
    show "disk s' = disk s" using s'(2) by (simp add: got_def)
    show "b_blockno (bufs s' ! i) = b_blockno (bufs s ! i) \<or>
      (b_valid (bufs s ! i) \<noteq> 0 \<longrightarrow> b_data (bufs s ! i) = disk s (b_blockno (bufs s ! i)))" if "b_dev (bufs s ! i) = d"
      using g(5)
    proof (elim disjE conjE)
      assume "cache_at d b s = Some i"
      then show ?thesis using cache_at_Some [OF sh, of b i] b'(1) x by simp
    next
      assume "rc s i = 0"
      then show ?thesis using inv g(3) that unfolding bc_inv_def by blast
    qed
  qed (use b' x in simp_all)
  have "bc_inv d (insert i H) s' pr"
    unfolding bc_inv_def
  proof (intro conjI ballI allI impI)
    show "bio_ready s' pr" using bio_ready_step(1) [OF r, of s'] s'(2) by (simp add: got_def)
    show "insert i H \<subseteq> {..<NBUF}" using g(3) inv by (simp add: bc_inv_def)
    fix j assume j: "j \<in> insert i H"
    have pid: "mypid s' pr = mypid s pr" using s'(2) by (simp add: mypid_def got_def)
    have "j \<noteq> i \<Longrightarrow> j \<in> H \<and> j < NBUF" using j inv by (auto simp: bc_inv_def)
    then have h: "j \<noteq> i \<Longrightarrow> has_lock s pr j \<and> rc s j \<noteq> 0 \<and> b_dev (bufs s ! j) = d \<and> b_valid (bufs s ! j) \<noteq> 0 \<and> bufs s' ! j = bufs s ! j"
      using inv b'(2) unfolding bc_inv_def by blast
    show "has_lock s' pr j" using h s'(2) pid by (cases "j = i") (simp_all add: has_lock_def got_def)
    show "rc s' j \<noteq> 0" "b_dev (bufs s' ! j) = d" "b_valid (bufs s' ! j) \<noteq> 0"
      using h x b'(1) by (cases "j = i"; simp add: rc_def)+
  next
    fix j assume "j < NBUF" "j \<notin> insert i H"
    then show "sl_locked (sleeplocks s' (BufSleep j)) = 0" using inv s'(2) by (simp add: bc_inv_def got_def)
  next
    fix j assume j: "j < NBUF" "rc s' j = 0 \<and> b_valid (bufs s' ! j) \<noteq> 0 \<and> b_dev (bufs s' ! j) = d"
    then have "j \<noteq> i" using x b'(1) by (auto simp: rc_def)
    then have "bufs s' ! j = bufs s ! j" "disk s' = disk s" using b'(2) j(1) s'(2) by (simp_all add: got_def)
    then show "b_data (bufs s' ! j) = disk s' (b_blockno (bufs s' ! j))" using j inv by (simp add: bc_inv_def rc_def)
  qed (use sh' in simp)
  moreover have "content d s b = disk s b" if z: "rc s i = 0"
    using g(5)
  proof (elim disjE conjE)
    assume h: "cache_at d b s = Some i"
    then have k: "b_dev (bufs s ! i) = d" "b_blockno (bufs s ! i) = b" using cache_at_Some [OF sh] by auto
    then have "b_valid (bufs s ! i) \<noteq> 0 \<longrightarrow> b_data (bufs s ! i) = disk s b" using inv g(3) z unfolding bc_inv_def by blast
    then show ?thesis using h by (simp add: content_def)
  qed (simp add: content_def)
  ultimately show thesis using that [of i s' ?x] s' g(3-5) x c by blast
qed

section \<open>Using a held buffer\<close>

lemma bc_inv_held:
  assumes "bc_inv d H s pr" and "i \<in> H"
  shows "i < NBUF" "bc_shape d s" "bio_ready s pr" "has_lock s pr i" "rc s i \<noteq> 0" "b_dev (bufs s ! i) = d"
    "b_valid (bufs s ! i) \<noteq> 0" "length (bufs s) = NBUF"
proof -
  show i: "i < NBUF" and "bc_shape d s" "bio_ready s pr" "length (bufs s) = NBUF"
    using assms unfolding bc_inv_def bc_shape_def by blast+
  show "has_lock s pr i" "rc s i \<noteq> 0" "b_dev (bufs s ! i) = d" "b_valid (bufs s ! i) \<noteq> 0"
    using assms unfolding bc_inv_def by blast+
qed

text \<open>
  A change of held buffers that keeps their blocks: new data or a new reference count, and the disk
  at their blocks.
\<close>

lemma bc_inv_change:
  assumes inv: "bc_inv d H s pr" and i: "i \<in> H" and H': "H' = H \<or> H' = H - {i}"
    and b: "bufs s' = (bufs s)[i := x]" "b_dev x = d" "b_blockno x = b_blockno (bufs s ! i)" "b_valid x = b_valid (bufs s ! i)"
    and lr: "distinct (lru s')" "set (lru s') = {..<NBUF}"
    and dk: "\<forall>c. c \<noteq> b_blockno x \<longrightarrow> disk s' c = disk s c"
    and sl: "\<forall>j. j \<noteq> i \<longrightarrow> sleeplocks s' (BufSleep j) = sleeplocks s (BufSleep j)"
    and sli: "if i \<in> H' then sleeplocks s' (BufSleep i) = sleeplocks s (BufSleep i) \<and> b_refcnt x \<noteq> 0
      else sl_locked (sleeplocks s' (BufSleep i)) = 0"
    and clean: "b_refcnt x = 0 \<Longrightarrow> b_data x = disk s' (b_blockno x)"
    and fr: "lksame (lk s) (lk s')" "pwoken (procs s) (procs s')"
  shows "bc_inv d H' s' pr"
proof -
  note h = bc_inv_held [OF inv i]
  have at: "bufs s' ! j = (if j = i then x else bufs s ! j)" for j using b(1) h(1,8) by simp
  have key: "b_dev (bufs s' ! j) = b_dev (bufs s ! j)" "b_blockno (bufs s' ! j) = b_blockno (bufs s ! j)"
      "b_valid (bufs s' ! j) = b_valid (bufs s ! j)" for j
    using b(2-4) h(6) by (simp_all add: at)
  have sh: "bc_shape d s'"
    using h(2) lr b(1) unfolding bc_shape_def key by simp
  note rd = bio_ready_step [OF h(3) fr]
  show ?thesis
    unfolding bc_inv_def key
  proof (intro conjI ballI allI impI)
    show "bio_ready s' pr" "bc_shape d s'" using rd sh by simp_all
    show "H' \<subseteq> {..<NBUF}" using inv H' unfolding bc_inv_def by blast
    fix j assume j: "j \<in> H'"
    then have jH: "j \<in> H" using H' by blast
    then show "b_dev (bufs s ! j) = d" "b_valid (bufs s ! j) \<noteq> 0" using inv unfolding bc_inv_def by blast+
    show "has_lock s' pr j"
      using bc_inv_held(4) [OF inv jH] sl sli j rd(2) by (cases "j = i") (simp_all add: has_lock_def)
    show "rc s' j \<noteq> 0" using bc_inv_held(5) [OF inv jH] sli j by (cases "j = i") (simp_all add: rc_def at)
  next
    fix j assume j: "j < NBUF" "j \<notin> H'"
    show "sl_locked (sleeplocks s' (BufSleep j)) = 0"
    proof (cases "j = i")
      case True
      then show ?thesis using sli j(2) by simp
    next
      case False
      then have "j \<notin> H" using H' j(2) by blast
      then show ?thesis using inv sl False j(1) by (simp add: bc_inv_def)
    qed
  next
    fix j assume j: "j < NBUF" "rc s' j = 0 \<and> b_valid (bufs s ! j) \<noteq> 0 \<and> b_dev (bufs s ! j) = d"
    show "b_data (bufs s' ! j) = disk s' (b_blockno (bufs s ! j))"
    proof (cases "j = i")
      case True
      then show ?thesis using clean j(2) b(3) by (simp add: at rc_def)
    next
      case False
      have "b_blockno (bufs s ! j) \<noteq> b_blockno x"
        using h(1,2,6) j False b(3) unfolding bc_shape_def by metis
      moreover have "b_data (bufs s ! j) = disk s (b_blockno (bufs s ! j))"
        using inv j False by (simp add: bc_inv_def rc_def at)
      ultimately show ?thesis using dk False by (simp add: at)
    qed
  qed
qed

lemma content_change:
  assumes "bc_inv d H s pr" and "bc_inv d H' s' pr" and "i \<in> H"
    and b: "bufs s' = (bufs s)[i := x]" "b_dev x = d" "b_blockno x = b_blockno (bufs s ! i)" "b_valid x = b_valid (bufs s ! i)"
    and dk: "\<forall>c. c \<noteq> b_blockno x \<longrightarrow> disk s' c = disk s c"
  shows "content d s' = (content d s)(b_blockno x := b_data x)"
proof
  fix c
  note h = bc_inv_held [OF assms(1,3)]
  have sh': "bc_shape d s'" using assms(2) by (simp add: bc_inv_def)
  have at: "bufs s' ! j = (if j = i then x else bufs s ! j)" for j using b(1) h(1,8) by simp
  show "content d s' c = ((content d s)(b_blockno x := b_data x)) c"
  proof (cases "c = b_blockno x")
    case True
    then show ?thesis using content_cached [OF sh' h(1), of c] b(2-4) h(7) by (simp add: at)
  next
    case False
    show ?thesis
    proof (cases "cache_at d c s")
      case (Some j)
      then have j: "j < NBUF" "b_dev (bufs s ! j) = d" "b_blockno (bufs s ! j) = c" using cache_at_Some [OF h(2)] by auto
      then have "j \<noteq> i" using False b(3) by auto
      then show ?thesis
        using content_cached [OF h(2) j] content_cached [OF sh' j(1), of c] j dk False by (simp add: at)
    next
      case None
      then have n: "\<forall>j < NBUF. \<not> (b_dev (bufs s ! j) = d \<and> b_blockno (bufs s ! j) = c)" using cache_at_None [OF h(2)] by blast
      then have "\<forall>j < NBUF. \<not> (b_dev (bufs s' ! j) = d \<and> b_blockno (bufs s' ! j) = c)" using False by (simp add: at)
      then show ?thesis using content_uncached [OF h(2) n] content_uncached [OF sh', of c] dk False by simp
    qed
  qed
qed

text \<open>Changing the data of a held buffer.\<close>

lemma set_data:
  assumes inv: "bc_inv d H s pr" and i: "i \<in> H" and s': "s' = upd_buf i (\<lambda>b. b\<lparr>b_data := D\<rparr>) s"
  shows "bc_inv d H s' pr" and "content d s' = (content d s)(b_blockno (bufs s ! i) := D)"
proof -
  note h = bc_inv_held [OF inv i]
  let ?x = "(bufs s ! i)\<lparr>b_data := D\<rparr>"
  have b: "bufs s' = (bufs s)[i := ?x]" by (simp add: s')
  have sh: "distinct (lru s')" "set (lru s') = {..<NBUF}" using h(2) by (simp_all add: s' bc_shape_def)
  show inv': "bc_inv d H s' pr"
    by (rule bc_inv_change [OF inv i _ b _ _ _ sh]) (use h i in \<open>simp_all add: s' rc_def\<close>)
  show "content d s' = (content d s)(b_blockno (bufs s ! i) := D)"
    using content_change [OF inv inv' i b] h(6) by (simp add: s')
qed

lemma bwrite_spec:
  assumes inv: "bc_inv d H s pr" and i: "i \<in> H" and D: "D = b_data (bufs s ! i)" "c = b_blockno (bufs s ! i)"
  shows "\<exists>s'. bwrite i s = Some s' \<and> bc_inv d H s' pr \<and> content d s' = content d s \<and> bufs s' = bufs s \<and>
    disk s' = (disk s)(c := D) \<and> dwrites s' = dwrites s @ [(c, D)] \<and> lksame (lk s) (lk s') \<and> procs s' = procs s \<and> bframe s s'"
proof -
  note h = bc_inv_held [OF inv i]
  obtain l where l: "holdingsleep (BufSleep i) s = Some (True, s\<lparr>lk := l\<rparr>)" "lksame (lk s) l"
    using holdingsleep_exact [OF h(3), of "BufSleep i"] h(4) by (auto simp: has_lock_def)
  let ?s = "disk_rw i True (s\<lparr>lk := l\<rparr>)"
  have w: "bwrite i s = Some ?s" using l(1) by (simp add: bwrite_def)
  have b: "bufs ?s = (bufs s)[i := bufs s ! i]" by (simp add: disk_rw_def Let_def)
  have sh: "distinct (lru ?s)" "set (lru ?s) = {..<NBUF}" using h(2) by (simp_all add: disk_rw_def Let_def bc_shape_def)
  have inv': "bc_inv d H ?s pr"
    by (rule bc_inv_change [OF inv i _ b _ _ _ sh]) (use h i l(2) in \<open>simp_all add: disk_rw_def Let_def rc_def\<close>)
  have "content d ?s = (content d s)(c := D)"
    using content_change [OF inv inv' i b] h(6) D by (simp add: disk_rw_def Let_def)
  moreover have "content d s c = D" using content_held [OF h(2,1,6,7)] D by simp
  ultimately have "content d ?s = content d s" by auto
  then show ?thesis using w inv' l(2) D by (intro exI [of _ ?s]) (simp add: disk_rw_def Let_def)
qed

lemma brelse_spec:
  assumes inv: "bc_inv d H s pr" and i: "i \<in> H" and clean: "rc s i = 1 \<Longrightarrow> b_data (bufs s ! i) = disk s (b_blockno (bufs s ! i))"
  shows "\<exists>s'. brelse i s = Some s' \<and> bc_inv d (H - {i}) s' pr \<and> content d s' = content d s \<and>
    bufs s' = (bufs s)[i := (bufs s ! i)\<lparr>b_refcnt := rc s i - 1\<rparr>] \<and> disk s' = disk s \<and> dwrites s' = dwrites s \<and>
    lksame (lk s) (lk s') \<and> pwoken (procs s) (procs s') \<and> bframe s s'"
proof -
  note h = bc_inv_held [OF inv i]
  obtain l where l: "holdingsleep (BufSleep i) s = Some (True, s\<lparr>lk := l\<rparr>)" "lksame (lk s) l"
    using holdingsleep_exact [OF h(3), of "BufSleep i"] h(4) by (auto simp: has_lock_def)
  have r1: "bio_ready (s\<lparr>lk := l\<rparr>) pr" using bio_ready_step(1) [OF h(3), of "s\<lparr>lk := l\<rparr>"] l(2) by simp
  obtain l2 qs where r: "releasesleep (BufSleep i) (s\<lparr>lk := l\<rparr>) =
      Some (upd_sleep (BufSleep i) (\<lambda>x. x\<lparr>sl_locked := 0, sl_pid := 0\<rparr>) (s\<lparr>lk := l2, procs := qs\<rparr>))" "lksame l l2" "pwoken (procs s) qs"
    using releasesleep_exact [OF r1, of "BufSleep i"] by auto
  let ?t = "upd_sleep (BufSleep i) (\<lambda>x. x\<lparr>sl_locked := 0, sl_pid := 0\<rparr>) (s\<lparr>lk := l2, procs := qs\<rparr>)"
  have ll: "lksame (lk s) l2" using l(2) r(2) by (rule lksame_trans)
  have r2: "bio_ready ?t pr" using bio_ready_step(1) [OF h(3), of ?t] ll r(3) by simp
  note a = bcache_acq [OF r2]
  let ?u = "upd_buf i (\<lambda>x. x\<lparr>b_refcnt := b_refcnt x - 1\<rparr>) (?t\<lparr>lk := rel BcacheLock (acq BcacheLock l2)\<rparr>)"
  let ?s = "if rc s i = 1 then ?u\<lparr>lru := i # remove1 i (lru s)\<rparr> else ?u"
  have "rc s i - 1 = 0 \<longleftrightarrow> rc s i = 1" by auto
  then have e: "brelse i s = Some ?s"
    using l(1) r(1) a(1,2) h(1,8) by (auto simp: brelse_def Let_def upd_buf_def rc_def upd_sleep_def)
  let ?x = "(bufs s ! i)\<lparr>b_refcnt := rc s i - 1\<rparr>"
  have b: "bufs ?s = (bufs s)[i := ?x]" by (simp add: rc_def)
  have "i \<in> set (lru s)" using h(1,2) by (simp add: bc_shape_def)
  then have sh: "distinct (lru ?s)" "set (lru ?s) = {..<NBUF}" using h(2) by (auto simp: bc_shape_def)
  have lk: "lksame (lk s) (lk ?s)" using a(3) ll lksame_trans by (auto split: if_splits)
  have inv': "bc_inv d (H - {i}) ?s pr"
    by (rule bc_inv_change [OF inv i _ b _ _ _ sh]) (use h i lk r(3) clean in \<open>auto simp: rc_def\<close>)
  have "content d ?s = (content d s)(b_blockno ?x := b_data ?x)"
    by (rule content_change [OF inv inv' i b]) (use h(6) in simp_all)
  moreover have "content d s (b_blockno ?x) = b_data ?x" using content_held [OF h(2,1,6,7)] by simp
  ultimately have "content d ?s = content d s" by auto
  moreover have "disk ?s = disk s" "dwrites ?s = dwrites s" "pwoken (procs s) (procs ?s)" "bframe s ?s" using r(3) by simp_all
  ultimately show ?thesis using e inv' b lk by blast
qed

lemma bunpin_spec:
  assumes inv: "bc_inv d H s pr" and i: "i \<in> H" and pinned: "rc s i \<noteq> 1"
  shows "\<exists>s'. bunpin i s = Some s' \<and> bc_inv d H s' pr \<and> content d s' = content d s \<and>
    bufs s' = (bufs s)[i := (bufs s ! i)\<lparr>b_refcnt := rc s i - 1\<rparr>] \<and> disk s' = disk s \<and> dwrites s' = dwrites s \<and>
    lksame (lk s) (lk s') \<and> procs s' = procs s \<and> bframe s s'"
proof -
  note h = bc_inv_held [OF inv i]
  note a = bcache_acq [OF h(3)]
  let ?s = "upd_buf i (\<lambda>x. x\<lparr>b_refcnt := b_refcnt x - 1\<rparr>) (s\<lparr>lk := rel BcacheLock (acq BcacheLock (lk s))\<rparr>)"
  have e: "bunpin i s = Some ?s" using a(1,2) by (simp add: bunpin_def Let_def upd_buf_def)
  let ?x = "(bufs s ! i)\<lparr>b_refcnt := rc s i - 1\<rparr>"
  have b: "bufs ?s = (bufs s)[i := ?x]" by (simp add: rc_def)
  have sh: "distinct (lru ?s)" "set (lru ?s) = {..<NBUF}" using h(2) by (simp_all add: bc_shape_def)
  have inv': "bc_inv d H ?s pr"
    by (rule bc_inv_change [OF inv i _ b _ _ _ sh]) (use h i a(3) pinned in \<open>simp_all add: rc_def\<close>)
  have "content d ?s = (content d s)(b_blockno ?x := b_data ?x)"
    by (rule content_change [OF inv inv' i b]) (use h(6) in simp_all)
  moreover have "content d s (b_blockno ?x) = b_data ?x" using content_held [OF h(2,1,6,7)] by simp
  ultimately have "content d ?s = content d s" by auto
  then show ?thesis using e inv' b a(3) by (intro exI [of _ ?s]) simp
qed

end
