(* ===== verification/Logprops.thy ===== *)
theory Logprops
  imports Log Bioprops
begin

text \<open>
  The log's disk writes, in order, and what a crash between any two of them leaves: recovery gives
  the blocks as they were before the transaction or all of them as the transaction left them.
\<close>

section \<open>Moving a block between buffers\<close>

text \<open>
  \<open>calm d s pr\<close>: process \<open>pr\<close> holds no buffer, two buffers are unreferenced and the reference counts
  are far from wrapping.
\<close>

definition calm :: "u32 \<Rightarrow> 'z kbio_scheme \<Rightarrow> nat \<Rightarrow> bool" where
  "calm d s pr \<longleftrightarrow> bc_inv d {} s pr \<and> (\<forall>i < NBUF. rc s i < 0x7FFFFFFF) \<and>
     (\<exists>i < NBUF. \<exists>j < NBUF. i \<noteq> j \<and> rc s i = 0 \<and> rc s j = 0)"

lemma small_Suc: "(x :: u32) < 0x7FFFFFFF \<Longrightarrow> x + 1 \<noteq> 0"
proof
  assume "x < 0x7FFFFFFF" and "x + 1 = 0"
  from this(2) have "x = -1" by (simp add: eq_neg_iff_add_eq_0)
  with \<open>x < 0x7FFFFFFF\<close> show False by simp
qed

lemma calm_rc: "calm d s pr \<Longrightarrow> i < NBUF \<Longrightarrow> rc s i + 1 \<noteq> 0"
  using small_Suc by (simp add: calm_def)

lemma calm_bread:
  assumes "calm d s pr"
  obtains i x s' where "bread d b s = Some (i, s')" "got pr i x s s'" "i < NBUF" "b_dev x = d" "b_blockno x = b" "b_valid x \<noteq> 0"
    "b_refcnt x = rc s i + 1" "b_data x = content d s b" "bc_inv d {i} s' pr" "content d s' = content d s"
    "rc s i = 0 \<longrightarrow> content d s b = disk s b" "cache_at d b s = Some i \<or> cache_at d b s = None \<and> rc s i = 0"
proof -
  have inv: "bc_inv d {} s pr" and sh: "bc_shape d s" using assms by (auto simp: calm_def bc_inv_def)
  have hit: "i \<notin> {} \<and> rc s i + 1 \<noteq> 0" if "cache_at d b s = Some i" for i
    using that cache_at_Some [OF sh] calm_rc [OF assms] by simp
  have miss: "\<exists>i < NBUF. rc s i = 0" using assms by (auto simp: calm_def)
  obtain i x s' where "bread d b s = Some (i, s')" "got pr i x s s'" "i < NBUF" "i \<notin> {}" "b_dev x = d" "b_blockno x = b" "b_valid x \<noteq> 0"
    "b_refcnt x = rc s i + 1" "b_data x = content d s b" "bc_inv d (insert i {}) s' pr" "content d s' = content d s"
    "rc s i = 0 \<longrightarrow> content d s b = disk s b" "cache_at d b s = Some i \<or> cache_at d b s = None \<and> rc s i = 0"
    using bread_spec [OF inv hit miss] by blast
  then show thesis using that by blast
qed

lemma calm_bread2:
  assumes c: "calm d s pr" and ne: "x \<noteq> y" and g: "got pr a X s s1" "a < NBUF" "bc_inv d {a} s1 pr" "b_dev X = d" "b_blockno X = x"
    and k: "content d s1 = content d s"
  obtains b Y s2 where "bread d y s1 = Some (b, s2)" "got pr b Y s1 s2" "b < NBUF" "b \<noteq> a" "b_dev Y = d" "b_blockno Y = y" "b_valid Y \<noteq> 0"
    "b_refcnt Y = rc s b + 1" "b_data Y = content d s y" "bc_inv d {b, a} s2 pr" "content d s2 = content d s"
    "rc s b = 0 \<longrightarrow> content d s y = disk s y" "cache_at d y s = Some b \<or> rc s b = 0"
proof -
  have sh: "bc_shape d s" "bc_shape d s1" using c g(3) by (auto simp: calm_def bc_inv_def)
  have len: "length (bufs s) = NBUF" using sh(1) by (simp add: bc_shape_def)
  have at: "bufs s1 ! i = (if i = a then X else bufs s ! i)" for i using g(1,2) len by (simp add: got_def)
  have r: "i \<noteq> a \<Longrightarrow> rc s1 i = rc s i" for i by (simp add: rc_def at)
  have hit: "i \<notin> {a} \<and> rc s1 i + 1 \<noteq> 0" if "cache_at d y s1 = Some i" for i
  proof -
    have i: "i < NBUF" "b_blockno (bufs s1 ! i) = y" using that cache_at_Some [OF sh(2)] by auto
    then have "i \<noteq> a" using ne g(5) by (auto simp: at)
    then show ?thesis using calm_rc [OF c i(1)] r by simp
  qed
  have miss: "\<exists>i < NBUF. rc s1 i = 0"
  proof -
    obtain i j where "i < NBUF" "j < NBUF" "i \<noteq> j" "rc s i = 0" "rc s j = 0" using c by (auto simp: calm_def)
    then show ?thesis using r by (cases "i = a") auto
  qed
  obtain b Y s2 where b: "bread d y s1 = Some (b, s2)" "got pr b Y s1 s2" "b < NBUF" "b \<notin> {a}" "b_dev Y = d" "b_blockno Y = y" "b_valid Y \<noteq> 0"
    "b_refcnt Y = rc s1 b + 1" "b_data Y = content d s1 y" "bc_inv d (insert b {a}) s2 pr" "content d s2 = content d s1"
    "rc s1 b = 0 \<longrightarrow> content d s1 y = disk s1 y" "cache_at d y s1 = Some b \<or> cache_at d y s1 = None \<and> rc s1 b = 0"
    using bread_spec [OF g(3) hit miss] by blast
  have rb: "rc s1 b = rc s b" using b(4) r by simp
  have "cache_at d y s = Some b \<or> rc s b = 0"
    using b(13) cache_at_Some [OF sh(2), of y b] cache_at_Some [OF sh(1), of y b] b(4) rb by (auto simp: at)
  moreover have "disk s1 = disk s" using g(1) by (simp add: got_def)
  ultimately show thesis using that [of b s2 Y] b rb k by simp
qed

text \<open>How often a block is referred to; \<open>0\<close> for a block that may be evicted.\<close>

definition pin :: "u32 \<Rightarrow> 'z kbio_scheme \<Rightarrow> u32 \<Rightarrow> u32" where
  "pin d s c = (case cache_at d c s of Some i \<Rightarrow> rc s i | None \<Rightarrow> 0)"

lemma pin_keep:
  assumes sh: "bc_shape d s" "bc_shape d s'"
    and keys: "\<forall>i < NBUF. rc s i \<noteq> 0 \<longrightarrow> b_dev (bufs s' ! i) = b_dev (bufs s ! i) \<and> b_blockno (bufs s' ! i) = b_blockno (bufs s ! i)"
    and zero: "\<forall>i < NBUF. rc s i = 0 \<longrightarrow> rc s' i = 0"
  shows "pin d s' c = (if pin d s c = 0 then 0 else rc s' (the (cache_at d c s)))"
proof (cases "pin d s c = 0")
  case True
  have "rc s' j = 0" if "cache_at d c s' = Some j" for j
  proof (rule ccontr)
    assume nz: "rc s' j \<noteq> 0"
    have j: "j < NBUF" "b_dev (bufs s' ! j) = d" "b_blockno (bufs s' ! j) = c" 
      using that unfolding cache_at_Some [OF sh(2)] by simp_all
    then have "rc s j \<noteq> 0" using zero nz by blast
    then have "b_dev (bufs s ! j) = d \<and> b_blockno (bufs s ! j) = c" using keys j by simp
    then have "cache_at d c s = Some j" using j(1) unfolding cache_at_Some [OF sh(1)] by simp
    then show False using True \<open>rc s j \<noteq> 0\<close> by (simp add: pin_def)
  qed
  then have "pin d s' c = 0" by (cases "cache_at d c s'") (simp_all add: pin_def)
  then show ?thesis using True by simp
next
  case False
  then obtain i where i: "cache_at d c s = Some i" "rc s i \<noteq> 0" by (cases "cache_at d c s") (simp_all add: pin_def)
  then have "i < NBUF" "b_dev (bufs s ! i) = d" "b_blockno (bufs s ! i) = c" unfolding cache_at_Some [OF sh(1)] by simp_all
  then have "cache_at d c s' = Some i" using keys i(2) unfolding cache_at_Some [OF sh(2)] by simp
  then show ?thesis using False i(1) by (simp add: pin_def)
qed

lemma pin_same:
  assumes "bc_shape d s" "bc_shape d s'"
    and "\<forall>i < NBUF. rc s i \<noteq> 0 \<longrightarrow> b_dev (bufs s' ! i) = b_dev (bufs s ! i) \<and> b_blockno (bufs s' ! i) = b_blockno (bufs s ! i)"
    and "\<forall>i < NBUF. rc s' i = rc s i"
  shows "pin d s' = pin d s"
proof
  fix c
  have "pin d s' c = (if pin d s c = 0 then 0 else rc s' (the (cache_at d c s)))"
    by (rule pin_keep [OF assms(1-3)]) (use assms(4) in simp)
  moreover have "rc s' i = rc s i" if "cache_at d c s = Some i" for i
    using that assms(4) unfolding cache_at_Some [OF assms(1)] by blast
  ultimately show "pin d s' c = pin d s c" by (cases "cache_at d c s") (simp_all add: pin_def)
qed

definition writes :: "(u32 \<times> u8 list) list \<Rightarrow> (u32 \<Rightarrow> u8 list) \<Rightarrow> u32 \<Rightarrow> u8 list" where
  "writes ws f = fold (\<lambda>(b, D) f. f(b := D)) ws f"

lemma writes_simps [simp]: "writes [] f = f" "writes (w # ws) f = writes ws (f(fst w := snd w))"
  "writes (ws @ ws') f = writes ws' (writes ws f)"
  by (simp_all add: writes_def case_prod_beta)

text \<open>The state moved from \<open>s\<close> to \<open>s'\<close> by writing the blocks \<open>ws\<close>, in this order.\<close>

definition bmoved :: "nat \<Rightarrow> u32 \<Rightarrow> (u32 \<times> u8 list) list \<Rightarrow> 'z kbio_scheme \<Rightarrow> 'z kbio_scheme \<Rightarrow> bool" where
  "bmoved pr d ws s s' \<longleftrightarrow> calm d s' pr \<and> dwrites s' = dwrites s @ ws \<and> disk s' = writes ws (disk s) \<and>
     content d s' = writes ws (content d s) \<and> lksame (lk s) (lk s') \<and> pwoken (procs s) (procs s') \<and> bframe s s'"

lemma bmoved_trans:
  assumes "bmoved pr d ws s s1" and "bmoved pr d ws' s1 s2"
  shows "bmoved pr d (ws @ ws') s s2"
proof -
  have "lksame (lk s) (lk s2)" using assms by (auto simp: bmoved_def intro: lksame_trans)
  moreover have "pwoken (procs s) (procs s2)" using assms by (auto simp: bmoved_def intro: pwoken_trans)
  moreover have "bframe s s2" using assms by (auto simp: bmoved_def intro: bframe_trans)
  ultimately show ?thesis using assms by (simp add: bmoved_def)
qed

lemma bmoved_calm: "bmoved pr d ws s s' \<Longrightarrow> calm d s' pr" by (simp add: bmoved_def)

lemma calm_mono:
  assumes "calm d s pr" and "bc_inv d {} s' pr" and "\<forall>i < NBUF. rc s' i = rc s i \<or> rc s i \<noteq> 0 \<and> rc s' i = rc s i - 1"
  shows "calm d s' pr"
proof -
  have "rc s' i < 0x7FFFFFFF" if "i < NBUF" for i
  proof -
    have "rc s i < 0x7FFFFFFF" using assms(1) that by (simp add: calm_def)
    moreover have "rc s i \<noteq> 0 \<Longrightarrow> rc s i - 1 \<le> rc s i" by unat_arith
    ultimately show ?thesis using assms(3) that by (auto intro: le_less_trans)
  qed
  moreover obtain i j where "i < NBUF" "j < NBUF" "i \<noteq> j" "rc s i = 0" "rc s j = 0" using assms(1) by (auto simp: calm_def)
  moreover have "rc s' i = 0" "rc s' j = 0" using assms(3) calculation by auto
  ultimately show ?thesis using assms(2) unfolding calm_def by blast
qed

text \<open>Two blocks read one after the other.\<close>

lemma calm_pair:
  assumes c: "calm d s pr" and ne: "x \<noteq> y"
  obtains a b X Y s1 s2 where "bread d x s = Some (a, s1)" "bread d y s1 = Some (b, s2)" "a < NBUF" "b < NBUF" "a \<noteq> b"
    "bc_inv d {a, b} s2 pr" "bufs s2 = (bufs s)[a := X, b := Y]" "b_blockno X = x" "b_blockno Y = y" "b_dev X = d" "b_dev Y = d"
    "b_data X = content d s x" "b_data Y = content d s y" "b_refcnt X = rc s a + 1" "b_refcnt Y = rc s b + 1"
    "content d s2 = content d s" "disk s2 = disk s" "dwrites s2 = dwrites s" "lksame (lk s) (lk s2)" "procs s2 = procs s" "bframe s s2"
    "rc s a = 0 \<longrightarrow> content d s x = disk s x" "rc s b = 0 \<longrightarrow> content d s y = disk s y"
    "rc s a = 0 \<or> cache_at d x s = Some a" "rc s b = 0 \<or> cache_at d y s = Some b"
proof -
  obtain a X s1 where A: "bread d x s = Some (a, s1)" "got pr a X s s1" "a < NBUF" "b_dev X = d" "b_blockno X = x" "b_valid X \<noteq> 0"
    "b_refcnt X = rc s a + 1" "b_data X = content d s x" "bc_inv d {a} s1 pr" "content d s1 = content d s"
    "rc s a = 0 \<longrightarrow> content d s x = disk s x" "cache_at d x s = Some a \<or> cache_at d x s = None \<and> rc s a = 0"
    using calm_bread [OF c] by blast
  obtain b Y s2 where B: "bread d y s1 = Some (b, s2)" "got pr b Y s1 s2" "b < NBUF" "b \<noteq> a" "b_dev Y = d" "b_blockno Y = y" "b_valid Y \<noteq> 0"
    "b_refcnt Y = rc s b + 1" "b_data Y = content d s y" "bc_inv d {b, a} s2 pr" "content d s2 = content d s"
    "rc s b = 0 \<longrightarrow> content d s y = disk s y" "cache_at d y s = Some b \<or> rc s b = 0"
    using calm_bread2 [OF c ne A(2,3,9,4,5,10)] by blast
  have "bufs s2 = (bufs s)[a := X, b := Y]" "disk s2 = disk s" "dwrites s2 = dwrites s" "procs s2 = procs s"
    using A(2) B(2) by (simp_all add: got_def)
  moreover have "lksame (lk s) (lk s2)" using A(2) B(2) lksame_trans unfolding got_def by blast
  moreover have "bframe s s2" using A(2) B(2) bframe_trans unfolding got_def by blast
  moreover have "bc_inv d {a, b} s2 pr" using B(10) by (simp add: insert_commute)
  ultimately show thesis using that [OF A(1) B(1) A(3) B(3)] A B by blast
qed

lemma bunpin_if:
  assumes "bc_inv d H s pr" and "i \<in> H" and "u \<Longrightarrow> rc s i \<noteq> 1"
  shows "\<exists>s'. (if u then bunpin i s else Some s) = Some s' \<and> bc_inv d H s' pr \<and> content d s' = content d s \<and>
    bufs s' = (bufs s)[i := (bufs s ! i)\<lparr>b_refcnt := rc s i - (if u then 1 else 0)\<rparr>] \<and> disk s' = disk s \<and> dwrites s' = dwrites s \<and>
    lksame (lk s) (lk s') \<and> procs s' = procs s \<and> bframe s s'"
proof (cases u)
  case True
  then show ?thesis using bunpin_spec [OF assms(1,2)] assms(3) by simp
next
  case False
  then show ?thesis using assms(1) by (simp add: rc_def)
qed

text \<open>The body of both loops of the log: block \<open>y\<close> is copied to \<open>x\<close>, whose buffer may be unpinned.\<close>

definition copy_blocks :: "bool \<Rightarrow> nat \<Rightarrow> nat \<Rightarrow> 'z kbio_scheme \<Rightarrow> 'z kbio_scheme option" where
  "copy_blocks u to fr s =
     do { let s = upd_buf to (\<lambda>b. b\<lparr>b_data := b_data (bufs s ! fr)\<rparr>) s;
          s \<leftarrow> bwrite to s;
          s \<leftarrow> (if u then bunpin to s else Some s);
          s \<leftarrow> brelse fr s;
          brelse to s }"

lemma copy_blocks_spec:
  assumes inv: "bc_inv d {to, fr} s pr" and ne: "to \<noteq> fr" and pinned: "u \<Longrightarrow> rc s to \<noteq> 1"
    and clean: "rc s fr = 1 \<Longrightarrow> b_data (bufs s ! fr) = disk s (b_blockno (bufs s ! fr))"
    and D: "D = b_data (bufs s ! fr)" "x = b_blockno (bufs s ! to)"
  shows "\<exists>s'. copy_blocks u to fr s = Some s' \<and> bc_inv d {} s' pr \<and> content d s' = (content d s)(x := D) \<and>
    disk s' = (disk s)(x := D) \<and> dwrites s' = dwrites s @ [(x, D)] \<and>
    (\<forall>i < NBUF. b_dev (bufs s' ! i) = b_dev (bufs s ! i) \<and> b_blockno (bufs s' ! i) = b_blockno (bufs s ! i)) \<and>
    (\<forall>i < NBUF. rc s' i = rc s i - (if i = to then if u then 2 else 1 else if i = fr then 1 else 0)) \<and>
    lksame (lk s) (lk s') \<and> pwoken (procs s) (procs s') \<and> bframe s s'"
proof -
  note ht = bc_inv_held [OF inv, of to, simplified] and hf = bc_inv_held [OF inv, of fr, simplified]
  have xy: "b_blockno (bufs s ! fr) \<noteq> x" using ht(1,2,6) hf(1,6) ne D(2) unfolding bc_shape_def by metis
  let ?s1 = "upd_buf to (\<lambda>b. b\<lparr>b_data := D\<rparr>) s"
  have i1: "bc_inv d {to, fr} ?s1 pr" and c1: "content d ?s1 = (content d s)(x := D)"
    using set_data [OF inv _ refl, of to D] D(2) by simp_all
  have b1: "bufs ?s1 ! to = (bufs s ! to)\<lparr>b_data := D\<rparr>" "bufs ?s1 ! fr = bufs s ! fr" using ht(1,8) ne by simp_all
  obtain s2 where s2: "bwrite to ?s1 = Some s2" "bc_inv d {to, fr} s2 pr" "content d s2 = content d ?s1" "bufs s2 = bufs ?s1"
    "disk s2 = (disk ?s1)(x := D)" "dwrites s2 = dwrites ?s1 @ [(x, D)]" "lksame (lk ?s1) (lk s2)" "procs s2 = procs ?s1" "bframe ?s1 s2"
    using bwrite_spec [OF i1 _, of to D x] b1 D(2) by auto
  have r2: "rc s2 i = rc s i" for i using s2(4) ht(1,8) by (simp add: rc_def nth_list_update)
  obtain s3 where s3: "(if u then bunpin to s2 else Some s2) = Some s3" "bc_inv d {to, fr} s3 pr" "content d s3 = content d s2"
    "bufs s3 = (bufs s2)[to := (bufs s2 ! to)\<lparr>b_refcnt := rc s2 to - (if u then 1 else 0)\<rparr>]" "disk s3 = disk s2" "dwrites s3 = dwrites s2"
    "lksame (lk s2) (lk s3)" "procs s3 = procs s2" "bframe s2 s3"
    using bunpin_if [OF s2(2), of to u] pinned r2 by auto
  have b3: "bufs s3 ! fr = bufs s ! fr" using s3(4) s2(4) b1 ne by simp
  have cl: "b_data (bufs s3 ! fr) = disk s3 (b_blockno (bufs s3 ! fr))" if "rc s3 fr = 1"
    using that clean xy s3(5) s2(5) unfolding rc_def b3 by simp
  obtain s4 where s4: "brelse fr s3 = Some s4" "bc_inv d ({to, fr} - {fr}) s4 pr" "content d s4 = content d s3"
    "bufs s4 = (bufs s3)[fr := (bufs s3 ! fr)\<lparr>b_refcnt := rc s3 fr - 1\<rparr>]" "disk s4 = disk s3" "dwrites s4 = dwrites s3"
    "lksame (lk s3) (lk s4)" "pwoken (procs s3) (procs s4)" "bframe s3 s4"
    using brelse_spec [OF s3(2), of fr] cl by auto
  have i4: "bc_inv d {to} s4 pr" using s4(2) ne by (simp add: insert_Diff_if)
  have b4: "bufs s4 ! to = (bufs s ! to)\<lparr>b_data := D, b_refcnt := rc s to - (if u then 1 else 0)\<rparr>"
    using s4(4) s3(4) s2(4) b1 ne r2 ht(1,8) by simp
  have cl4: "b_data (bufs s4 ! to) = disk s4 (b_blockno (bufs s4 ! to))"
    using s4(5) s3(5) s2(5) D(2) by (simp add: b4)
  obtain s5 where s5: "brelse to s4 = Some s5" "bc_inv d ({to} - {to}) s5 pr" "content d s5 = content d s4"
    "bufs s5 = (bufs s4)[to := (bufs s4 ! to)\<lparr>b_refcnt := rc s4 to - 1\<rparr>]" "disk s5 = disk s4" "dwrites s5 = dwrites s4"
    "lksame (lk s4) (lk s5)" "pwoken (procs s4) (procs s5)" "bframe s4 s5"
    using brelse_spec [OF i4, of to] cl4 by auto
  have at: "bufs s5 ! i = (if i = to then (bufs s ! to)\<lparr>b_data := D, b_refcnt := rc s to - (if u then 1 else 0) - 1\<rparr>
      else if i = fr then (bufs s ! fr)\<lparr>b_refcnt := rc s fr - 1\<rparr> else bufs s ! i)" for i
    using s5(4) s4(4) s3(4) s2(4) b1 b3 b4 ne ht(1,8) hf(1) by (simp add: nth_list_update rc_def)
  have "copy_blocks u to fr s = Some s5"
    using s2(1) s3(1) s4(1) s5(1) D(1) by (simp add: copy_blocks_def Let_def)
  moreover have "lksame (lk s) (lk s5)"
    using lksame_trans [OF lksame_trans [OF s2(7) s3(7)] lksame_trans [OF s4(7) s5(7)]] by simp
  moreover have "pwoken (procs s) (procs s5)" using pwoken_trans [OF s4(8) s5(8)] s3(8) s2(8) by simp
  moreover have "bframe s s5" using bframe_trans [OF bframe_trans [OF s2(9) s3(9)] bframe_trans [OF s4(9) s5(9)]] by (simp add: bframe_def bstrip_def upd_buf_def)
  ultimately show ?thesis
    using s5(2,3,5,6) s4(3,5,6) s3(3,5,6) s2(3,5,6) c1 by (intro exI [of _ s5]) (simp add: at rc_def)
qed

lemma pinned_hit:
  assumes sh: "bc_shape d s" and inv: "bc_inv d {to, fr} s2 pr" and lt: "to < NBUF" "fr < NBUF" and ne: "to \<noteq> fr"
    and b: "bufs s2 ! to = T" "bufs s2 ! fr = F" "\<forall>i < NBUF. i \<noteq> to \<longrightarrow> i \<noteq> fr \<longrightarrow> bufs s2 ! i = bufs s ! i"
    and T: "b_blockno T = x" "b_dev T = d" and F: "b_blockno F = y"
    and at: "rc s to = 0 \<or> cache_at d x s = Some to" "rc s fr = 0 \<or> cache_at d y s = Some fr" and pinned: "pin d s x \<noteq> 0"
  shows "cache_at d x s = Some to"
proof (rule ccontr)
  assume n: "cache_at d x s \<noteq> Some to"
  obtain i where i: "cache_at d x s = Some i" "rc s i \<noteq> 0" using pinned by (cases "cache_at d x s") (simp_all add: pin_def)
  then have k: "i < NBUF" "b_dev (bufs s ! i) = d" "b_blockno (bufs s ! i) = x" unfolding cache_at_Some [OF sh] by simp_all
  have sh2: "bc_shape d s2" using inv by (simp add: bc_inv_def)
  have t: "b_dev (bufs s2 ! to) = d" "b_blockno (bufs s2 ! to) = x" using b(1) T by simp_all
  have "x \<noteq> y"
    using sh2 t b(2) F bc_inv_held(6) [OF inv, of fr] lt ne unfolding bc_shape_def by (metis insertI1 insertI2)
  have "i \<noteq> to" using n i(1) by auto
  moreover have "i \<noteq> fr"
  proof
    assume "i = fr"
    then have "b_blockno (bufs s ! fr) = y" using at(2) i(2) unfolding cache_at_Some [OF sh] by simp
    then show False using k(3) \<open>i = fr\<close> \<open>x \<noteq> y\<close> by simp
  qed
  ultimately have "bufs s2 ! i = bufs s ! i" using b(3) k(1) by blast
  then show False using sh2 t k lt(1) \<open>i \<noteq> to\<close> unfolding bc_shape_def by metis
qed

lemma copy_read_blocks:
  assumes c: "calm d s pr" and inv: "bc_inv d {to, fr} s2 pr" and lt: "to < NBUF" "fr < NBUF" and ne: "to \<noteq> fr"
    and b: "bufs s2 ! to = T" "bufs s2 ! fr = F" "\<forall>i < NBUF. i \<noteq> to \<longrightarrow> i \<noteq> fr \<longrightarrow> bufs s2 ! i = bufs s ! i"
    and T: "b_blockno T = x" "b_dev T = d" "b_refcnt T = rc s to + 1" "rc s to = 0 \<or> cache_at d x s = Some to"
    and F: "b_blockno F = y" "b_dev F = d" "b_refcnt F = rc s fr + 1" "rc s fr = 0 \<or> cache_at d y s = Some fr"
      "b_data F = content d s y" "rc s fr = 0 \<longrightarrow> content d s y = disk s y"
    and same: "content d s2 = content d s" "disk s2 = disk s" "dwrites s2 = dwrites s" "lksame (lk s) (lk s2)" "procs s2 = procs s" "bframe s s2"
    and pinned: "u \<Longrightarrow> pin d s x \<noteq> 0"
  shows "\<exists>s'. copy_blocks u to fr s2 = Some s' \<and> bmoved pr d [(x, content d s y)] s s' \<and>
    pin d s' = (if u then (pin d s)(x := pin d s x - 1) else pin d s)"
proof -
  have sh: "bc_shape d s" "bc_inv d {} s pr" using c by (auto simp: calm_def bc_inv_def)
  have r2: "rc s2 i = rc s i + (if i = to \<or> i = fr then 1 else 0)" if "i < NBUF" for i
    using b T(3) F(3) that by (auto simp: rc_def)
  have hit: "cache_at d x s = Some to" if "u"
    by (rule pinned_hit [OF sh(1) inv lt ne b T(1,2) F(1) T(4) F(4) pinned [OF that]])
  have p2: "rc s2 to \<noteq> 1" if u
    using hit [OF that] pinned [OF that] r2 [OF lt(1)] by (simp add: pin_def)
  have cl: "b_data (bufs s2 ! fr) = disk s2 (b_blockno (bufs s2 ! fr))" if "rc s2 fr = 1"
    using that r2 [OF lt(2)] b(2) F(1,5,6) same(2) by simp
  have Dx: "content d s y = b_data (bufs s2 ! fr)" "x = b_blockno (bufs s2 ! to)" using b(1,2) T(1) F(5) by simp_all
  obtain s' where s': "copy_blocks u to fr s2 = Some s'" "bc_inv d {} s' pr" "content d s' = (content d s2)(x := content d s y)"
    "disk s' = (disk s2)(x := content d s y)" "dwrites s' = dwrites s2 @ [(x, content d s y)]"
    "\<forall>i < NBUF. b_dev (bufs s' ! i) = b_dev (bufs s2 ! i) \<and> b_blockno (bufs s' ! i) = b_blockno (bufs s2 ! i)"
    "\<forall>i < NBUF. rc s' i = rc s2 i - (if i = to then if u then 2 else 1 else if i = fr then 1 else 0)"
    "lksame (lk s2) (lk s')" "pwoken (procs s2) (procs s')" "bframe s2 s'"
    using copy_blocks_spec [of d to fr s2 pr u, OF inv ne p2 cl Dx] by blast
  have r': "rc s' i = rc s i - (if i = to \<and> u then 1 else 0)" if "i < NBUF" for i
    using s'(7) r2 [OF that] that by simp
  have keys: "b_dev (bufs s' ! i) = b_dev (bufs s ! i) \<and> b_blockno (bufs s' ! i) = b_blockno (bufs s ! i)" if "i < NBUF" "rc s i \<noteq> 0" for i
  proof -
    have "b_dev (bufs s2 ! i) = b_dev (bufs s ! i) \<and> b_blockno (bufs s2 ! i) = b_blockno (bufs s ! i)"
      using b T(1,2,4) F(1,2,4) that cache_at_Some [OF sh(1), of x to] cache_at_Some [OF sh(1), of y fr] by (cases "i = to"; cases "i = fr") auto
    then show ?thesis using s'(6) that(1) by simp
  qed
  have rto: "u \<Longrightarrow> rc s to \<noteq> 0" using hit pinned by (auto simp: pin_def)
  have "calm d s' pr" by (rule calm_mono [OF c s'(2)]) (use r' rto in auto)
  then have m: "bmoved pr d [(x, content d s y)] s s'"
    using s'(3-5,8-10) same lksame_trans [OF same(4) s'(8)] bframe_trans [OF same(6) s'(10)] by (simp add: bmoved_def)
  have sh': "bc_shape d s'" using s'(2) by (simp add: bc_inv_def)
  have "pin d s' = (if u then (pin d s)(x := pin d s x - 1) else pin d s)"
  proof (cases u)
    case False
    then show ?thesis using pin_same [OF sh(1) sh'] keys r' by simp
  next
    case True
    have "pin d s' z = ((pin d s)(x := pin d s x - 1)) z" for z
    proof -
      have e: "pin d s' z = (if pin d s z = 0 then 0 else rc s' (the (cache_at d z s)))"
        by (rule pin_keep [OF sh(1) sh']) (use keys r' rto in auto)
      show ?thesis
      proof (cases "cache_at d z s")
        case None
        then show ?thesis using e hit [OF True] by (auto simp: pin_def)
      next
        case (Some i)
        then have i: "i < NBUF" "b_blockno (bufs s ! i) = z" unfolding cache_at_Some [OF sh(1)] by simp_all
        moreover have "b_blockno (bufs s ! to) = x" using hit [OF True] unfolding cache_at_Some [OF sh(1)] by simp
        ultimately have "z \<noteq> x \<Longrightarrow> i \<noteq> to" by auto
        then show ?thesis using e Some hit [OF True] rto [OF True] r' [OF i(1)] True by (cases "z = x") (auto simp: pin_def)
      qed
    qed
    then show ?thesis using True by auto
  qed
  then show ?thesis using s'(1) m by blast
qed

text \<open>One turn of \<^verbatim>\<open>write_log\<close>'s loop and one of \<^verbatim>\<open>install_trans\<close>'s.\<close>

lemma write_log_turn:
  assumes c: "calm d s pr" and ne: "x \<noteq> y"
  shows "\<exists>s'. do { (to, s) \<leftarrow> bread d x s; (fr, s) \<leftarrow> bread d y s; copy_blocks False to fr s } = Some s' \<and>
    bmoved pr d [(x, content d s y)] s s' \<and> pin d s' = pin d s"
proof -
  obtain a b X Y s1 s2 where p: "bread d x s = Some (a, s1)" "bread d y s1 = Some (b, s2)" "a < NBUF" "b < NBUF" "a \<noteq> b"
    "bc_inv d {a, b} s2 pr" "bufs s2 = (bufs s)[a := X, b := Y]" "b_blockno X = x" "b_blockno Y = y" "b_dev X = d" "b_dev Y = d"
    "b_data X = content d s x" "b_data Y = content d s y" "b_refcnt X = rc s a + 1" "b_refcnt Y = rc s b + 1"
    "content d s2 = content d s" "disk s2 = disk s" "dwrites s2 = dwrites s" "lksame (lk s) (lk s2)" "procs s2 = procs s" "bframe s s2"
    "rc s a = 0 \<longrightarrow> content d s x = disk s x" "rc s b = 0 \<longrightarrow> content d s y = disk s y"
    "rc s a = 0 \<or> cache_at d x s = Some a" "rc s b = 0 \<or> cache_at d y s = Some b"
    using calm_pair [OF c ne] .
  have len: "length (bufs s) = NBUF" using c by (simp add: calm_def bc_inv_def bc_shape_def)
  have b: "bufs s2 ! a = X" "bufs s2 ! b = Y" "\<forall>i < NBUF. i \<noteq> a \<longrightarrow> i \<noteq> b \<longrightarrow> bufs s2 ! i = bufs s ! i"
    using p(3-5,7) len by simp_all
  have "\<exists>s'. copy_blocks False a b s2 = Some s' \<and> bmoved pr d [(x, content d s y)] s s' \<and>
      pin d s' = (if False then (pin d s)(x := pin d s x - 1) else pin d s)"
    by (rule copy_read_blocks [OF c p(6,3,4,5) b]) (use p in simp_all)
  then show ?thesis using p(1,2) by simp
qed

lemma install_turn:
  assumes c: "calm d s pr" and ne: "x \<noteq> y" and pinned: "u \<Longrightarrow> pin d s y \<noteq> 0"
  shows "\<exists>s'. do { (fr, s) \<leftarrow> bread d x s; (to, s) \<leftarrow> bread d y s; copy_blocks u to fr s } = Some s' \<and>
    bmoved pr d [(y, content d s x)] s s' \<and> pin d s' = (if u then (pin d s)(y := pin d s y - 1) else pin d s)"
proof -
  obtain a b X Y s1 s2 where p: "bread d x s = Some (a, s1)" "bread d y s1 = Some (b, s2)" "a < NBUF" "b < NBUF" "a \<noteq> b"
    "bc_inv d {a, b} s2 pr" "bufs s2 = (bufs s)[a := X, b := Y]" "b_blockno X = x" "b_blockno Y = y" "b_dev X = d" "b_dev Y = d"
    "b_data X = content d s x" "b_data Y = content d s y" "b_refcnt X = rc s a + 1" "b_refcnt Y = rc s b + 1"
    "content d s2 = content d s" "disk s2 = disk s" "dwrites s2 = dwrites s" "lksame (lk s) (lk s2)" "procs s2 = procs s" "bframe s s2"
    "rc s a = 0 \<longrightarrow> content d s x = disk s x" "rc s b = 0 \<longrightarrow> content d s y = disk s y"
    "rc s a = 0 \<or> cache_at d x s = Some a" "rc s b = 0 \<or> cache_at d y s = Some b"
    using calm_pair [OF c ne] .
  have len: "length (bufs s) = NBUF" using c by (simp add: calm_def bc_inv_def bc_shape_def)
  have b: "bufs s2 ! b = Y" "bufs s2 ! a = X" "\<forall>i < NBUF. i \<noteq> b \<longrightarrow> i \<noteq> a \<longrightarrow> bufs s2 ! i = bufs s ! i"
    using p(3-5,7) len by simp_all
  have ba: "bc_inv d {b, a} s2 pr" "b \<noteq> a" using p(5,6) by (simp_all add: insert_commute)
  have "\<exists>s'. copy_blocks u b a s2 = Some s' \<and> bmoved pr d [(y, content d s x)] s s' \<and>
      pin d s' = (if u then (pin d s)(y := pin d s y - 1) else pin d s)"
    by (rule copy_read_blocks [OF c ba(1) p(4,3) ba(2) b]) (use p pinned in simp_all)
  then show ?thesis using p(1,2) by simp
qed

text \<open>A block read, overwritten and written back.\<close>

lemma rewrite_block:
  assumes c: "calm d s pr"
  shows "\<exists>s'. do { (b, s) \<leftarrow> bread d x s; s \<leftarrow> bwrite b (upd_buf b (\<lambda>k. k\<lparr>b_data := f (b_data k)\<rparr>) s); brelse b s } = Some s' \<and>
    bmoved pr d [(x, f (content d s x))] s s' \<and> pin d s' = pin d s"
proof -
  obtain i X s1 where p: "bread d x s = Some (i, s1)" "got pr i X s s1" "i < NBUF" "b_dev X = d" "b_blockno X = x" "b_valid X \<noteq> 0"
    "b_refcnt X = rc s i + 1" "b_data X = content d s x" "bc_inv d {i} s1 pr" "content d s1 = content d s"
    "rc s i = 0 \<longrightarrow> content d s x = disk s x" "cache_at d x s = Some i \<or> cache_at d x s = None \<and> rc s i = 0"
    using calm_bread [OF c] by blast
  have sh: "bc_shape d s" "length (bufs s) = NBUF" using c by (auto simp: calm_def bc_inv_def bc_shape_def)
  let ?D = "f (content d s x)"
  have b1: "bufs s1 = (bufs s)[i := X]" using p(2) by (simp add: got_def)
  let ?s2 = "upd_buf i (\<lambda>k. k\<lparr>b_data := f (b_data k)\<rparr>) s1"
  have e2: "?s2 = upd_buf i (\<lambda>k. k\<lparr>b_data := ?D\<rparr>) s1" using b1 p(3,8) sh(2) by (simp add: upd_buf_def)
  have s2: "bc_inv d {i} ?s2 pr" "content d ?s2 = (content d s1)(x := ?D)"
    using set_data [OF p(9) _ e2] b1 p(3,5) sh(2) by simp_all
  have b2: "bufs ?s2 = (bufs s)[i := X\<lparr>b_data := ?D\<rparr>]" using b1 p(3,8) sh(2) by simp
  have D: "?D = b_data (bufs ?s2 ! i)" "x = b_blockno (bufs ?s2 ! i)" using b2 p(3,5) sh(2) by simp_all
  obtain s3 where s3: "bwrite i ?s2 = Some s3" "bc_inv d {i} s3 pr" "content d s3 = content d ?s2" "bufs s3 = bufs ?s2"
    "disk s3 = (disk ?s2)(x := ?D)" "dwrites s3 = dwrites ?s2 @ [(x, ?D)]" "lksame (lk ?s2) (lk s3)" "procs s3 = procs ?s2" "bframe ?s2 s3"
    using bwrite_spec [OF s2(1) _ D] by blast
  have cl: "b_data (bufs s3 ! i) = disk s3 (b_blockno (bufs s3 ! i))" using s3(4,5) D by simp
  obtain s4 where s4: "brelse i s3 = Some s4" "bc_inv d ({i} - {i}) s4 pr" "content d s4 = content d s3"
    "bufs s4 = (bufs s3)[i := (bufs s3 ! i)\<lparr>b_refcnt := rc s3 i - 1\<rparr>]" "disk s4 = disk s3" "dwrites s4 = dwrites s3"
    "lksame (lk s3) (lk s4)" "pwoken (procs s3) (procs s4)" "bframe s3 s4"
    using brelse_spec [OF s3(2), of i] cl by blast
  have at: "bufs s4 ! j = (if j = i then X\<lparr>b_data := ?D, b_refcnt := rc s i\<rparr> else bufs s ! j)" for j
    using s4(4) s3(4) b1 p(3,7,8) sh(2) by (simp add: rc_def)
  have r4: "rc s4 j = rc s j" for j by (simp add: rc_def at)
  have i4: "bc_inv d {} s4 pr" using s4(2) by simp
  have "calm d s4 pr" by (rule calm_mono [OF c i4]) (simp add: r4)
  moreover have "lksame (lk s) (lk s4)" using p(2) lksame_trans [OF _ lksame_trans [OF s3(7) s4(7)]] by (simp add: got_def)
  moreover have "bframe s s4" using p(2) bframe_trans [OF s3(9) s4(9)] by (simp add: got_def bframe_def bstrip_def upd_buf_def)
  ultimately have "bmoved pr d [(x, ?D)] s s4"
    using s4(3,5,6,8) s3(3,5,6,8) s2(2) p(2,10) by (simp add: bmoved_def got_def)
  moreover have "pin d s4 = pin d s"
  proof (rule pin_same [OF sh(1)])
    show "\<forall>j<NBUF. rc s j \<noteq> 0 \<longrightarrow> b_dev (bufs s4 ! j) = b_dev (bufs s ! j) \<and> b_blockno (bufs s4 ! j) = b_blockno (bufs s ! j)"
      using p(4,5,12) cache_at_Some [OF sh(1), of x i] by (auto simp: at)
  qed (use i4 r4 in \<open>simp_all add: bc_inv_def\<close>)
  moreover have "do { (b, s) \<leftarrow> bread d x s; s \<leftarrow> bwrite b (upd_buf b (\<lambda>k. k\<lparr>b_data := f (b_data k)\<rparr>) s); brelse b s } = Some s4"
    using p(1) s3(1) s4(1) by simp
  ultimately show ?thesis by blast
qed

end
