(* ===== verification/Logcrash.thy ===== *)
theory Logcrash
  imports Logprops
begin

text \<open>
  The writes of a commit and of a recovery, and the crash atomicity of a transaction.
\<close>

section \<open>The loops of the log\<close>

lemma bframe_klog:
  fixes s s' :: "'z klog_scheme"
  assumes "bframe s s'"
  shows "lg_start s' = lg_start s" "lg_dev s' = lg_dev s" "lh_n s' = lh_n s" "lh_block s' = lh_block s"
    "lg_outstanding s' = lg_outstanding s" "lg_committing s' = lg_committing s"
proof -
  have e: "bstrip s' = bstrip s" using assms by (simp add: bframe_def)
  show "lg_start s' = lg_start s" using arg_cong [OF e, of lg_start] by (simp add: bstrip_def)
  show "lg_dev s' = lg_dev s" using arg_cong [OF e, of lg_dev] by (simp add: bstrip_def)
  show "lh_n s' = lh_n s" using arg_cong [OF e, of lh_n] by (simp add: bstrip_def)
  show "lh_block s' = lh_block s" using arg_cong [OF e, of lh_block] by (simp add: bstrip_def)
  show "lg_outstanding s' = lg_outstanding s" using arg_cong [OF e, of lg_outstanding] by (simp add: bstrip_def)
  show "lg_committing s' = lg_committing s" using arg_cong [OF e, of lg_committing] by (simp add: bstrip_def)
qed

text \<open>The header's block, the log's blocks and the home blocks of a transaction.\<close>

definition hblk :: "'z klog_scheme \<Rightarrow> u32" where "hblk s = word_of_int (lg_start s)"
definition lblk :: "'z klog_scheme \<Rightarrow> nat \<Rightarrow> u32" where "lblk s t = word_of_int (lg_start s + int t + 1)"
definition home :: "'z klog_scheme \<Rightarrow> nat \<Rightarrow> u32" where "home s t = word_of_int (lh_block s ! t)"
definition ldev :: "'z klog_scheme \<Rightarrow> u32" where "ldev s = word_of_int (lg_dev s)"

lemma blk_bframe:
  fixes s s' :: "'z klog_scheme"
  assumes "bframe s s'"
  shows "hblk s' = hblk s" "lblk s' = lblk s" "home s' = home s" "ldev s' = ldev s"
  using bframe_klog [OF assms] by (auto simp: hblk_def lblk_def home_def ldev_def)

lemma blk_bmoved:
  fixes s s' :: "'z klog_scheme"
  assumes "bmoved pr d ws s s'"
  shows "hblk s' = hblk s" "lblk s' = lblk s" "home s' = home s" "ldev s' = ldev s" "lh_n s' = lh_n s" "lh_block s' = lh_block s"
  using blk_bframe [of s s'] bframe_klog [of s s'] assms by (auto simp: bmoved_def)

lemma bread_blk:
  fixes s :: "'z klog_scheme"
  assumes c: "calm (ldev s) s pr"
  shows "\<exists>i s'. bread (ldev s) x s = Some (i, s') \<and> ldev s' = ldev s \<and> home s' = home s"
proof -
  obtain i s' X where "bread (ldev s) x s = Some (i, s')" "got pr i X s s'" using calm_bread [OF c] by blast
  moreover have "bframe s s'" using calculation(2) by (simp add: got_def)
  ultimately show ?thesis using blk_bframe by blast
qed

definition write_log_body :: "nat \<Rightarrow> 'z klog_scheme \<Rightarrow> 'z klog_scheme option" where
  "write_log_body t s = do { (to, s) \<leftarrow> bread (ldev s) (lblk s t) s; (fr, s) \<leftarrow> bread (ldev s) (home s t) s; copy_blocks False to fr s }"

definition install_body :: "bool \<Rightarrow> nat \<Rightarrow> 'z klog_scheme \<Rightarrow> 'z klog_scheme option" where
  "install_body u t s = do { (fr, s) \<leftarrow> bread (ldev s) (lblk s t) s; (to, s) \<leftarrow> bread (ldev s) (home s t) s; copy_blocks u to fr s }"

lemma write_log_body: "write_log s = for_each [0..<nat (lh_n s)] write_log_body s"
  by (simp add: write_log_def write_log_body_def [abs_def] copy_blocks_def [abs_def] Let_def ldev_def lblk_def home_def cong: if_cong)

lemma install_body: "install_trans r s = for_each [0..<nat (lh_n s)] (install_body (\<not> r)) s"
  by (simp add: install_trans_def install_body_def [abs_def] copy_blocks_def [abs_def] Let_def ldev_def lblk_def home_def cong: if_cong)

lemma write_log_body_spec:
  fixes s :: "'z klog_scheme"
  assumes "calm (ldev s) s pr" and "lblk s t \<noteq> home s t"
  shows "\<exists>s'. write_log_body t s = Some s' \<and> bmoved pr (ldev s) [(lblk s t, content (ldev s) s (home s t))] s s' \<and>
    pin (ldev s) s' = pin (ldev s) s"
proof -
  obtain i s1 where "bread (ldev s) (lblk s t) s = Some (i, s1)" "ldev s1 = ldev s" "home s1 = home s" using bread_blk [OF assms(1)] by blast
  then have "write_log_body t s = do { (to, s1) \<leftarrow> bread (ldev s) (lblk s t) s; (fr, s2) \<leftarrow> bread (ldev s) (home s t) s1; copy_blocks False to fr s2 }"
    by (simp add: write_log_body_def)
  then show ?thesis using write_log_turn [OF assms] by simp
qed

lemma install_body_spec:
  fixes s :: "'z klog_scheme"
  assumes "calm (ldev s) s pr" and "lblk s t \<noteq> home s t" and "u \<Longrightarrow> pin (ldev s) s (home s t) \<noteq> 0"
  shows "\<exists>s'. install_body u t s = Some s' \<and> bmoved pr (ldev s) [(home s t, content (ldev s) s (lblk s t))] s s' \<and>
    pin (ldev s) s' = (if u then (pin (ldev s) s)(home s t := pin (ldev s) s (home s t) - 1) else pin (ldev s) s)"
proof -
  obtain i s1 where "bread (ldev s) (lblk s t) s = Some (i, s1)" "ldev s1 = ldev s" "home s1 = home s" using bread_blk [OF assms(1)] by blast
  then have "install_body u t s = do { (fr, s1) \<leftarrow> bread (ldev s) (lblk s t) s; (to, s2) \<leftarrow> bread (ldev s) (home s t) s1; copy_blocks u to fr s2 }"
    by (simp add: install_body_def)
  then show ?thesis using install_turn [of "ldev s" s pr "lblk s t" "home s t" u] assms by simp
qed

lemma writes_other: "c \<notin> fst ` set ws \<Longrightarrow> writes ws f c = f c"
  by (induction ws arbitrary: f) auto

lemma write_log_loop:
  fixes s :: "'z klog_scheme"
  assumes "calm (ldev s) s pr" and "\<forall>t \<in> set ts. \<forall>t' \<in> set ts. lblk s t \<noteq> home s t'"
  shows "\<exists>s'. for_each ts write_log_body s = Some s' \<and>
    bmoved pr (ldev s) (map (\<lambda>t. (lblk s t, content (ldev s) s (home s t))) ts) s s' \<and> pin (ldev s) s' = pin (ldev s) s"
  using assms
proof (induction ts arbitrary: s)
  case Nil
  then show ?case by (simp add: bmoved_def)
next
  case (Cons t ts)
  obtain s1 where s1: "write_log_body t s = Some s1" "bmoved pr (ldev s) [(lblk s t, content (ldev s) s (home s t))] s s1" "pin (ldev s) s1 = pin (ldev s) s"
    using write_log_body_spec [OF Cons.prems(1), of t] Cons.prems(2) by auto
  note b = blk_bmoved [OF s1(2)]
  obtain s2 where s2: "for_each ts write_log_body s1 = Some s2"
    "bmoved pr (ldev s) (map (\<lambda>t. (lblk s t, content (ldev s) s1 (home s t))) ts) s1 s2" "pin (ldev s) s2 = pin (ldev s) s1"
    using Cons.IH [of s1] bmoved_calm [OF s1(2)] Cons.prems(2) by (auto simp: b)
  have "content (ldev s) s1 (home s t') = content (ldev s) s (home s t')" if "t' \<in> set ts" for t'
    using s1(2) Cons.prems(2) that by (auto simp: bmoved_def)
  then have "bmoved pr (ldev s) (map (\<lambda>t. (lblk s t, content (ldev s) s (home s t))) ts) s1 s2" using s2(2) by (simp cong: map_cong)
  then show ?case using bmoved_trans [OF s1(2)] s1(1,3) s2(1,3) by simp
qed

lemma install_loop:
  fixes s :: "'z klog_scheme"
  assumes "calm (ldev s) s pr" and "\<forall>t \<in> set ts. \<forall>t' \<in> set ts. lblk s t \<noteq> home s t'" and "distinct (map (home s) ts)"
    and "u \<Longrightarrow> \<forall>t \<in> set ts. pin (ldev s) s (home s t) \<noteq> 0"
  shows "\<exists>s'. for_each ts (install_body u) s = Some s' \<and>
    bmoved pr (ldev s) (map (\<lambda>t. (home s t, content (ldev s) s (lblk s t))) ts) s s'"
  using assms
proof (induction ts arbitrary: s)
  case Nil
  then show ?case by (simp add: bmoved_def)
next
  case (Cons t ts)
  obtain s1 where s1: "install_body u t s = Some s1" "bmoved pr (ldev s) [(home s t, content (ldev s) s (lblk s t))] s s1"
    "pin (ldev s) s1 = (if u then (pin (ldev s) s)(home s t := pin (ldev s) s (home s t) - 1) else pin (ldev s) s)"
    using install_body_spec [OF Cons.prems(1), of t u] Cons.prems(2,4) by auto
  note b = blk_bmoved [OF s1(2)]
  have pins: "u \<Longrightarrow> \<forall>t' \<in> set ts. pin (ldev s) s1 (home s t') \<noteq> 0"
  proof
    fix t' assume u: u and t': "t' \<in> set ts"
    then have "home s t' \<noteq> home s t" using Cons.prems(3) by (metis distinct.simps(2) image_eqI list.map(2) list.set_map)
    then show "pin (ldev s) s1 (home s t') \<noteq> 0" using s1(3) Cons.prems(4) u t' by simp
  qed
  obtain s2 where s2: "for_each ts (install_body u) s1 = Some s2"
    "bmoved pr (ldev s) (map (\<lambda>t. (home s t, content (ldev s) s1 (lblk s t))) ts) s1 s2"
    using Cons.IH [of s1] bmoved_calm [OF s1(2)] Cons.prems(2,3) pins by (auto simp: b)
  have "content (ldev s) s1 (lblk s t') = content (ldev s) s (lblk s t')" if "t' \<in> set ts" for t'
    using s1(2) Cons.prems(2) that by (auto simp: bmoved_def)
  then have "bmoved pr (ldev s) (map (\<lambda>t. (home s t, content (ldev s) s (lblk s t))) ts) s1 s2" using s2(2) by (simp cong: map_cong)
  then show ?case using bmoved_trans [OF s1(2)] s1(1) s2(1) by simp
qed

section \<open>The header\<close>

lemma length_put32: "off + 4 \<le> length D \<Longrightarrow> length (put32 D off w) = length D"
  by (simp add: put32_def)

lemma get32_put32: "off + 4 \<le> length D \<Longrightarrow> get32 (put32 D off w) off = w"
  using word_of_bytes_of_word [of 4 w] by (simp add: get32_def put32_def)

lemma get32_put32_other:
  assumes "off + 4 \<le> length D" and "off' + 4 \<le> off \<or> off + 4 \<le> off'"
  shows "get32 (put32 D off w) off' = get32 D off'"
proof -
  have "take 4 (drop off' (put32 D off w)) = take 4 (drop off' D)"
    using assms(2)
  proof
    assume o: "off' + 4 \<le> off"
    then have "drop off' (put32 D off w) = take (off - off') (drop off' D) @ bytes_of_word 4 w @ drop (off + 4) D"
      using assms(1) by (simp add: put32_def drop_take)
    moreover have "4 \<le> length (take (off - off') (drop off' D))" using o assms(1) by simp
    ultimately show ?thesis using o by (simp only: take_append) (simp add: min_def)
  next
    assume "off + 4 \<le> off'"
    then show ?thesis using assms(1) by (simp add: put32_def)
  qed
  then show ?thesis unfolding get32_def by (rule arg_cong)
qed

definition log_header :: "nat \<Rightarrow> int list \<Rightarrow> u8 list \<Rightarrow> u8 list" where
  "log_header n bl D = fold (\<lambda>i D. put32 D (4 + 4 * i) (word_of_int (bl ! i))) [0..<n] (put32 D 0 (word_of_int (int n)))"

lemma log_header_Suc:
  assumes "4 + 4 * n \<le> length D"
  shows "length (log_header n bl D) = length D \<and> get32 (log_header n bl D) 0 = word_of_int (int n) \<and>
    (\<forall>i < n. get32 (log_header n bl D) (4 + 4 * i) = word_of_int (bl ! i))"
proof -
  let ?f = "\<lambda>m. fold (\<lambda>i D. put32 D (4 + 4 * i) (word_of_int (bl ! i))) [0..<m] (put32 D 0 (word_of_int (int n)))"
  have "m \<le> n \<Longrightarrow> length (?f m) = length D \<and> get32 (?f m) 0 = word_of_int (int n) \<and>
    (\<forall>i < m. get32 (?f m) (4 + 4 * i) = word_of_int (bl ! i))" for m
  proof (induction m)
    case 0
    then show ?case using assms by (simp add: length_put32 get32_put32)
  next
    case (Suc m)
    then have IH: "length (?f m) = length D" "get32 (?f m) 0 = word_of_int (int n)" "\<forall>i < m. get32 (?f m) (4 + 4 * i) = word_of_int (bl ! i)" by auto
    have l: "4 + 4 * m + 4 \<le> length (?f m)" using IH(1) assms Suc.prems by simp
    have e: "?f (Suc m) = put32 (?f m) (4 + 4 * m) (word_of_int (bl ! m))" by simp
    have "get32 (?f (Suc m)) (4 + 4 * i) = word_of_int (bl ! i)" if "i < Suc m" for i
    proof (cases "i = m")
      case True
      then show ?thesis unfolding e using get32_put32 [OF l] by simp
    next
      case False
      then have "i < m" using that by simp
      then show ?thesis unfolding e using get32_put32_other [OF l, of "4 + 4 * i"] IH(3) by simp
    qed
    moreover have "get32 (?f (Suc m)) 0 = word_of_int (int n)" unfolding e using get32_put32_other [OF l, of 0] IH(2) by simp
    moreover have "length (?f (Suc m)) = length D" unfolding e using length_put32 [OF l] IH(1) by simp
    ultimately show ?case by blast
  qed
  from this [OF order.refl] show ?thesis by (simp add: log_header_def)
qed

lemma upd_buf_twice: "upd_buf b f (upd_buf b g s) = upd_buf b (\<lambda>x. f (g x)) s"
  by (cases "b < length (bufs s)") (simp_all add: upd_buf_def list_update_beyond)

lemma lh_upd_buf [simp]: "lh_block (upd_buf b f s) = lh_block s" "lh_n (upd_buf b f s) = lh_n s"
  by (simp_all add: upd_buf_def)

lemma head_fold:
  fixes s :: "'z klog_scheme"
  shows "fold (\<lambda>i s. upd_buf b (\<lambda>x. x\<lparr>b_data := put32 (b_data x) (4 + 4 * i) (word_of_int (lh_block s ! i))\<rparr>) s) is
      (upd_buf b (\<lambda>x. x\<lparr>b_data := g (b_data x)\<rparr>) s) =
    upd_buf b (\<lambda>x. x\<lparr>b_data := fold (\<lambda>i D. put32 D (4 + 4 * i) (word_of_int (lh_block s ! i))) is (g (b_data x))\<rparr>) s"
proof (induction "is" arbitrary: g)
  case (Cons i "is")
  show ?case using Cons.IH [of "\<lambda>D. put32 (g D) (4 + 4 * i) (word_of_int (lh_block s ! i))"] by (simp add: upd_buf_twice)
qed simp

lemma write_head_spec:
  fixes s :: "'z klog_scheme"
  assumes c: "calm (ldev s) s pr" and n: "0 \<le> lh_n s"
  shows "\<exists>s'. write_head s = Some s' \<and>
    bmoved pr (ldev s) [(hblk s, log_header (nat (lh_n s)) (lh_block s) (content (ldev s) s (hblk s)))] s s' \<and> pin (ldev s) s' = pin (ldev s) s"
proof -
  obtain i s1 X where s1: "bread (ldev s) (hblk s) s = Some (i, s1)" "got pr i X s s1" using calm_bread [OF c] by blast
  have "bframe s s1" using s1(2) by (simp add: got_def)
  note k = bframe_klog [OF this]
  have "write_head s = do { s \<leftarrow> bwrite i (upd_buf i (\<lambda>k. k\<lparr>b_data := log_header (nat (lh_n s)) (lh_block s) (b_data k)\<rparr>) s1); brelse i s }"
    using s1(1) head_fold [of i "[0..<nat (lh_n s)]" "\<lambda>D. put32 D 0 (word_of_int (lh_n s))" s1] n
    by (simp add: write_head_def ldev_def hblk_def k log_header_def Let_def)
  then have "write_head s = do { (b, s1) \<leftarrow> bread (ldev s) (hblk s) s;
      s2 \<leftarrow> bwrite b (upd_buf b (\<lambda>k. k\<lparr>b_data := log_header (nat (lh_n s)) (lh_block s) (b_data k)\<rparr>) s1); brelse b s2 }"
    using s1(1) by simp
  then show ?thesis using rewrite_block [OF c, of "hblk s" "log_header (nat (lh_n s)) (lh_block s)"] by simp
qed

section \<open>Committing\<close>

lemma of_int_i32: "(word_of_int (i32 x) :: u32) = word_of_int x"
proof -
  have "(word_of_int (i32 x) :: u32) = word_of_int ((x + 2147483648) mod 2 ^ LENGTH(32)) - word_of_int 2147483648"
    by (simp add: i32_def)
  also have "word_of_int ((x + 2147483648) mod 2 ^ LENGTH(32)) = (word_of_int (x + 2147483648) :: u32)"
    by (rule word_of_int_eq_iff [THEN iffD2]) (simp add: take_bit_eq_mod)
  finally show ?thesis by simp
qed

lemma i32_uint_small:
  assumes "n \<le> LOGBLOCKS"
  shows "i32 (uint (word_of_int (int n) :: u32)) = int n"
proof -
  have "n < 2 ^ 32" using assms by (simp add: LOGBLOCKS_def MAXOPBLOCKS_def)
  then have "uint (word_of_int (int n) :: u32) = int n" by (simp add: unsigned_of_nat take_bit_nat_eq_self)
  then show ?thesis using assms by (simp add: i32_def LOGBLOCKS_def MAXOPBLOCKS_def)
qed

lemma calm_lh [simp]:
  "calm d (s\<lparr>lh_n := k\<rparr>) pr = calm d s pr" "calm d (s\<lparr>lh_block := bl\<rparr>) pr = calm d s pr"
  "bc_inv d H (s\<lparr>lh_n := k\<rparr>) pr = bc_inv d H s pr" "bc_inv d H (s\<lparr>lh_block := bl\<rparr>) pr = bc_inv d H s pr"
  by (simp_all add: calm_def bc_inv_def bc_shape_def rc_def has_lock_def mypid_def bio_ready_def procs_ready_def myproc_def mycpu_def)

lemma content_lh [simp]: "content d (s\<lparr>lh_n := k\<rparr>) = content d s" "content d (s\<lparr>lh_block := bl\<rparr>) = content d s"
  by (simp_all add: content_def cache_at_def fun_eq_iff split: option.split)

lemma blk_lh [simp]:
  "hblk (s\<lparr>lh_n := k\<rparr>) = hblk s" "lblk (s\<lparr>lh_n := k\<rparr>) = lblk s" "home (s\<lparr>lh_n := k\<rparr>) = home s" "ldev (s\<lparr>lh_n := k\<rparr>) = ldev s"
  "hblk (s\<lparr>lh_block := bl\<rparr>) = hblk s" "lblk (s\<lparr>lh_block := bl\<rparr>) = lblk s" "ldev (s\<lparr>lh_block := bl\<rparr>) = ldev s"
  by (simp_all add: hblk_def lblk_def home_def ldev_def fun_eq_iff)

lemma bframe_lh:
  fixes s s' :: "'z klog_scheme"
  assumes "bframe s s'"
  shows "bframe (s\<lparr>lh_n := k\<rparr>) (s'\<lparr>lh_n := k\<rparr>)" "bframe (s\<lparr>lh_block := bl\<rparr>) (s'\<lparr>lh_block := bl\<rparr>)"
proof -
  have n: "bstrip (t\<lparr>lh_n := k\<rparr>) = (bstrip t)\<lparr>lh_n := k\<rparr>" for t :: "'z klog_scheme" by (rule klog.equality) (simp_all add: bstrip_def)
  have b: "bstrip (t\<lparr>lh_block := bl\<rparr>) = (bstrip t)\<lparr>lh_block := bl\<rparr>" for t :: "'z klog_scheme" by (rule klog.equality) (simp_all add: bstrip_def)
  show "bframe (s\<lparr>lh_n := k\<rparr>) (s'\<lparr>lh_n := k\<rparr>)" "bframe (s\<lparr>lh_block := bl\<rparr>) (s'\<lparr>lh_block := bl\<rparr>)" using assms by (simp_all add: bframe_def n b)
qed

lemma bmoved_lh_n: "bmoved pr d ws s s' \<Longrightarrow> bmoved pr d ws (s\<lparr>lh_n := k\<rparr>) (s'\<lparr>lh_n := k\<rparr>)"
  using bframe_lh(1) [of s s' k] by (simp add: bmoved_def)

text \<open>Where a transaction's blocks may lie, and that the logged blocks are pinned.\<close>

definition log_area :: "'z klog_scheme \<Rightarrow> u32 set" where
  "log_area s = insert (hblk s) (lblk s ` {..<LOGBLOCKS})"

definition log_layout :: "'z klog_scheme \<Rightarrow> bool" where
  "log_layout s \<longleftrightarrow> 0 \<le> lh_n s \<and> lh_n s \<le> int LOGBLOCKS \<and> length (lh_block s) = LOGBLOCKS \<and>
     distinct (map (lblk s) [0..<LOGBLOCKS]) \<and> (\<forall>t < LOGBLOCKS. lblk s t \<noteq> hblk s) \<and>
     distinct (map (home s) [0..<nat (lh_n s)]) \<and>
     (\<forall>t < nat (lh_n s). home s t \<noteq> hblk s \<and> (\<forall>t' < LOGBLOCKS. lblk s t' \<noteq> home s t))"

definition log_pinned :: "'z klog_scheme \<Rightarrow> bool" where
  "log_pinned s \<longleftrightarrow> (\<forall>t < nat (lh_n s). pin (ldev s) s (home s t) \<noteq> 0)"

text \<open>The block writes of a commit, in order.\<close>

definition logged :: "'z klog_scheme \<Rightarrow> (u32 \<times> u8 list) list" where
  "logged s = map (\<lambda>t. (lblk s t, content (ldev s) s (home s t))) [0..<nat (lh_n s)]"

definition installed :: "'z klog_scheme \<Rightarrow> (u32 \<times> u8 list) list" where
  "installed s = map (\<lambda>t. (home s t, content (ldev s) s (home s t))) [0..<nat (lh_n s)]"

definition new_header :: "'z klog_scheme \<Rightarrow> u8 list" where
  "new_header s = log_header (nat (lh_n s)) (lh_block s) (content (ldev s) s (hblk s))"

definition commit_writes :: "'z klog_scheme \<Rightarrow> (u32 \<times> u8 list) list" where
  "commit_writes s = logged s @ [(hblk s, new_header s)] @ installed s @ [(hblk s, log_header 0 (lh_block s) (new_header s))]"

lemma writes_map:
  assumes "distinct (map f ts)" and "t \<in> set ts"
  shows "writes (map (\<lambda>t. (f t, g t)) ts) h (f t) = g t"
  using assms
proof (induction ts arbitrary: h)
  case (Cons a ts)
  show ?case
  proof (cases "t = a")
    case True
    then have "f t \<notin> fst ` set (map (\<lambda>t. (f t, g t)) ts)" using Cons.prems(1) by auto
    then show ?thesis using True by (simp add: writes_other)
  next
    case False
    then show ?thesis using Cons by simp
  qed
qed simp

lemma log_layoutD:
  assumes "log_layout s" and "t < nat (lh_n s)"
  shows "home s t \<noteq> hblk s" "t' < LOGBLOCKS \<Longrightarrow> lblk s t' \<noteq> home s t" "t < LOGBLOCKS" "lblk s t \<noteq> hblk s"
  using assms by (auto simp: log_layout_def)

lemma commit_spec:
  fixes s :: "'z klog_scheme"
  assumes c: "calm (ldev s) s pr" and l: "log_layout s" and p: "log_pinned s" and n: "lh_n s > 0"
  shows "\<exists>s'. commit s = Some s' \<and> bmoved pr (ldev s) (commit_writes s) (s\<lparr>lh_n := 0\<rparr>) s'"
proof -
  let ?d = "ldev s" let ?ts = "[0..<nat (lh_n s)]"
  have ne: "\<forall>t \<in> set ?ts. \<forall>t' \<in> set ?ts. lblk s t \<noteq> home s t'" using log_layoutD [OF l] by auto
  obtain s1 where s1: "write_log s = Some s1" "bmoved pr ?d (logged s) s s1" "pin ?d s1 = pin ?d s"
    using write_log_loop [OF c ne] by (auto simp: write_log_body logged_def)
  note b1 = blk_bmoved [OF s1(2)]
  have c1: "calm ?d s1 pr" using s1(2) by (rule bmoved_calm)
  have k1: "content ?d s1 = writes (logged s) (content ?d s)" using s1(2) by (simp add: bmoved_def)
  have "hblk s \<notin> fst ` set (logged s)" 
    using log_layoutD(4) [OF l] by (auto simp: logged_def image_iff) metis
  then have h1: "content ?d s1 (hblk s) = content ?d s (hblk s)" using k1 by (simp add: writes_other)
  obtain s2 where s2: "write_head s1 = Some s2" "bmoved pr ?d [(hblk s, new_header s)] s1 s2" "pin ?d s2 = pin ?d s1"
    using write_head_spec [of s1 pr] c1 n h1 by (auto simp: b1 new_header_def)
  note b2 = blk_bmoved [OF s2(2)]
  have c2: "calm ?d s2 pr" using s2(2) by (rule bmoved_calm)
  have k2: "content ?d s2 (lblk s t) = content ?d s (home s t)" if "t \<in> set ?ts" for t
  proof -
    have "t < LOGBLOCKS" using log_layoutD(3) [OF l] that by simp
    then have "lblk s t \<noteq> hblk s" using l by (auto simp: log_layout_def)
    moreover have "distinct (map (lblk s) ?ts)"
      using l by (auto simp: log_layout_def distinct_map intro: inj_on_subset)
    ultimately show ?thesis
      using s2(2) writes_map [of "lblk s" ?ts t "\<lambda>t. content ?d s (home s t)" "content ?d s"] that by (simp add: bmoved_def k1 logged_def)
  qed
  have ds: "distinct (map (home s) ?ts)" using l by (simp add: log_layout_def)
  have "\<forall>t \<in> set ?ts. pin ?d s2 (home s t) \<noteq> 0" using p s1(3) s2(3) by (simp add: log_pinned_def)
  then obtain s3 where s3: "install_trans False s2 = Some s3" "bmoved pr ?d (map (\<lambda>t. (home s t, content ?d s2 (lblk s t))) ?ts) s2 s3"
    using install_loop [of s2 pr ?ts True] c2 ne ds by (auto simp: b1 b2 install_body)
  have "map (\<lambda>t. (home s t, content ?d s2 (lblk s t))) ?ts = installed s" unfolding installed_def by (rule map_cong) (simp_all add: k2)
  with s3(2) have m3: "bmoved pr ?d (installed s) s2 s3" by simp
  note b3 = blk_bmoved [OF m3]
  have m: "bmoved pr ?d (logged s @ [(hblk s, new_header s)] @ installed s) s s3"
    using bmoved_trans [OF s1(2) bmoved_trans [OF s2(2) m3]] .
  have "hblk s \<notin> fst ` set (installed s)" 
    using log_layoutD(1) [OF l] by (auto simp: installed_def image_iff) metis
  then have h3: "content ?d s3 (hblk s) = new_header s" using m by (simp add: bmoved_def writes_other)
  have "calm ?d (s3\<lparr>lh_n := 0\<rparr>) pr" using bmoved_calm [OF m3] by simp
  then obtain s4 where s4: "write_head (s3\<lparr>lh_n := 0\<rparr>) = Some s4"
      "bmoved pr ?d [(hblk s, log_header 0 (lh_block s) (new_header s))] (s3\<lparr>lh_n := 0\<rparr>) s4"
    using write_head_spec [of "s3\<lparr>lh_n := 0\<rparr>" pr] h3 by (auto simp: b1 b2 b3)
  have "bmoved pr ?d (commit_writes s) (s\<lparr>lh_n := 0\<rparr>) s4"
    using bmoved_trans [OF bmoved_lh_n [OF m, of 0] s4(2)] by (simp add: commit_writes_def)
  then show ?thesis using s1(1) s2(1) s3(1) s4(1) n by (auto simp: commit_def)
qed

section \<open>Recovery\<close>

lemma read_head_spec:
  fixes s :: "'z klog_scheme"
  assumes c: "calm (ldev s) s pr" and D: "D = content (ldev s) s (hblk s)" and n: "n = i32 (uint (get32 D 0))" "n \<le> int LOGBLOCKS"
    and bl: "bl = fold (\<lambda>i bl. bl[i := i32 (uint (get32 D (4 + 4 * i)))]) [0..<nat n] (lh_block s)"
  shows "\<exists>s'. read_head s = Some s' \<and> bmoved pr (ldev s) [] (s\<lparr>lh_n := n, lh_block := bl\<rparr>) s'"
proof -
  let ?d = "ldev s" let ?g = "\<lambda>t. t\<lparr>lh_n := n, lh_block := bl\<rparr> :: 'z klog_scheme"
  obtain i X s1 where p: "bread ?d (hblk s) s = Some (i, s1)" "got pr i X s s1" "i < NBUF" "b_dev X = ?d" "b_blockno X = hblk s" "b_valid X \<noteq> 0"
    "b_refcnt X = rc s i + 1" "b_data X = content ?d s (hblk s)" "bc_inv ?d {i} s1 pr" "content ?d s1 = content ?d s"
    "rc s i = 0 \<longrightarrow> content ?d s (hblk s) = disk s (hblk s)" "cache_at ?d (hblk s) s = Some i \<or> cache_at ?d (hblk s) s = None \<and> rc s i = 0"
    using calm_bread [OF c] by blast
  have len: "length (bufs s) = NBUF" using c by (auto simp: calm_def bc_inv_def bc_shape_def)
  have b1: "bufs s1 = (bufs s)[i := X]" and fr: "bframe s s1" using p(2) by (simp_all add: got_def)
  have x: "bufs s1 ! i = X" and xD: "b_data X = D" using b1 p(3,8) len D by simp_all
  have fold: "fold (\<lambda>i s. s\<lparr>lh_block := (lh_block s)[i := i32 (uint (get32 D (4 + 4 * i)))]\<rparr>) is t =
    t\<lparr>lh_block := fold (\<lambda>i bl. bl[i := i32 (uint (get32 D (4 + 4 * i)))]) is (lh_block t)\<rparr>" for "is" and t :: "'z klog_scheme"
    by (induction "is" arbitrary: t) simp_all
  have "read_head s = brelse i (?g s1)"
    using p(1) xD x n bframe_klog(4) [OF fr] by (simp add: read_head_def ldev_def hblk_def fold bl Let_def)
  moreover have i1: "bc_inv ?d {i} (?g s1) pr" using p(9) by simp
  moreover have "b_data (bufs (?g s1) ! i) = disk (?g s1) (b_blockno (bufs (?g s1) ! i))" if "rc (?g s1) i = 1"
    using that p(2,5,7,8,11) x by (simp add: rc_def got_def)
  ultimately obtain s2 where s2: "read_head s = Some s2" "bc_inv ?d ({i} - {i}) s2 pr" "content ?d s2 = content ?d (?g s1)"
    "bufs s2 = (bufs (?g s1))[i := (bufs (?g s1) ! i)\<lparr>b_refcnt := rc (?g s1) i - 1\<rparr>]" "disk s2 = disk (?g s1)" "dwrites s2 = dwrites (?g s1)"
    "lksame (lk (?g s1)) (lk s2)" "pwoken (procs (?g s1)) (procs s2)" "bframe (?g s1) s2"
    using brelse_spec [OF i1, of i] by auto
  have "rc s2 j = rc s j" for j
    using s2(4) b1 p(3,7) len by (cases "j = i") (simp_all add: rc_def)
  then have "calm ?d s2 pr" using calm_mono [OF c, of s2] s2(2) by simp
  moreover have "bframe (?g s) s2" using bframe_trans [OF bframe_lh(2) [OF bframe_lh(1) [OF fr]] s2(9)] .
  moreover have "lksame (lk s) (lk s2)" using p(2) s2(7) lksame_trans by (auto simp: got_def)
  ultimately have "bmoved pr ?d [] (?g s) s2"
    using s2(3,5,6,8) p(2,10) by (simp add: bmoved_def got_def)
  then show ?thesis using s2(1) by blast
qed

lemma fold_block_nth:
  assumes "n \<le> length bl" and "i < n"
  shows "fold (\<lambda>i bl. bl[i := f i]) [0..<n] bl ! i = f i"
proof -
  have "m \<le> length bl \<Longrightarrow> length (fold (\<lambda>i bl. bl[i := f i]) [0..<m] bl) = length bl \<and>
    (\<forall>i < m. fold (\<lambda>i bl. bl[i := f i]) [0..<m] bl ! i = f i)" for m
    by (induction m) (auto simp: nth_list_update less_Suc_eq)
  then show ?thesis using assms by blast
qed

text \<open>The blocks a header names.\<close>

definition hhome :: "u8 list \<Rightarrow> nat \<Rightarrow> u32" where "hhome D t = get32 D (4 + 4 * t)"

lemma recover_spec:
  fixes s :: "'z klog_scheme"
  assumes c: "calm (ldev s) s pr" and D: "D = content (ldev s) s (hblk s)" and n: "i32 (uint (get32 D 0)) = int n" "n \<le> LOGBLOCKS"
    and bl: "length (lh_block s) = LOGBLOCKS"
    and ne: "\<forall>t < n. \<forall>t' < n. lblk s t \<noteq> hhome D t'" and dist: "distinct (map (hhome D) [0..<n])"
    and ws: "ws = map (\<lambda>t. (hhome D t, content (ldev s) s (lblk s t))) [0..<n]"
  shows "\<exists>s' E. recover_from_log s = Some s' \<and> disk s' = (writes ws (disk s))(hblk s := E)"
proof -
  let ?d = "ldev s"
  let ?bl = "fold (\<lambda>i bl. bl[i := i32 (uint (get32 D (4 + 4 * i)))]) [0..<n] (lh_block s)"
  let ?t = "s\<lparr>lh_n := int n, lh_block := ?bl\<rparr>"
  obtain s1 where s1: "read_head s = Some s1" "bmoved pr ?d [] ?t s1"
    using read_head_spec [OF c D n(1) [symmetric], of ?bl] n(2) by auto
  note b1 = blk_bmoved [OF s1(2)]
  have h1: "home s1 t = hhome D t" if "t < n" for t
    using b1(3) fold_block_nth [of n "lh_block s" t "\<lambda>i. i32 (uint (get32 D (4 + 4 * i)))"] that n(2) bl
    by (simp add: home_def hhome_def of_int_i32)
  have k1: "content ?d s1 = content ?d s" "disk s1 = disk s" using s1(2) by (simp_all add: bmoved_def)
  have "map (home s1) [0..<n] = map (hhome D) [0..<n]" using h1 by simp
  then have d1: "distinct (map (home s1) [0..<n])" using dist by (simp only:)
  have c1: "calm (ldev s1) s1 pr" using bmoved_calm [OF s1(2)] by (simp add: b1)
  have ne1: "\<forall>t \<in> set [0..<n]. \<forall>t' \<in> set [0..<n]. lblk s1 t \<noteq> home s1 t'" using ne h1 by (simp add: b1)
  have "\<exists>s2. for_each [0..<n] (install_body False) s1 = Some s2 \<and>
    bmoved pr (ldev s1) (map (\<lambda>t. (home s1 t, content (ldev s1) s1 (lblk s1 t))) [0..<n]) s1 s2"
    by (rule install_loop [OF c1 ne1 d1]) simp
  moreover have "map (\<lambda>t. (home s1 t, content (ldev s1) s1 (lblk s1 t))) [0..<n] = ws"
    unfolding ws using h1 by (simp add: b1 k1)
  ultimately obtain s2 where s2: "install_trans True s1 = Some s2" "bmoved pr ?d ws s1 s2"
    by (auto simp: install_body b1)
  note b2 = blk_bmoved [OF s2(2)]
  have "calm (ldev (s2\<lparr>lh_n := 0\<rparr>)) (s2\<lparr>lh_n := 0\<rparr>) pr" using bmoved_calm [OF s2(2)] by (simp add: b1 b2)
  from write_head_spec [OF this] obtain s3 E where "write_head (s2\<lparr>lh_n := 0\<rparr>) = Some s3" "bmoved pr ?d [(hblk s, E)] (s2\<lparr>lh_n := 0\<rparr>) s3"
    by (auto simp: b1 b2)
  moreover have "disk s2 = writes ws (disk s)" using s2(2) k1(2) by (simp add: bmoved_def)
  ultimately show ?thesis using s1(1) s2(1)
    by (intro exI [of _ s3] exI [of _ E]) (simp add: recover_from_log_def bmoved_def)
qed

section \<open>A crash at any moment\<close>

text \<open>
  \<open>rebooted s dk t pr\<close>: the machine has started again with the disk \<open>dk\<close>, an empty cache and the log of
  \<open>s\<close> at the same place.
\<close>

definition rebooted :: "'z klog_scheme \<Rightarrow> (u32 \<Rightarrow> u8 list) \<Rightarrow> 'z klog_scheme \<Rightarrow> nat \<Rightarrow> bool" where
  "rebooted s dk t pr \<longleftrightarrow> calm (ldev s) t pr \<and> ldev t = ldev s \<and> lg_start t = lg_start s \<and>
     length (lh_block t) = LOGBLOCKS \<and> content (ldev s) t = dk \<and> disk t = dk"

definition before_disk :: "'z klog_scheme \<Rightarrow> (u32 \<Rightarrow> u8 list) \<Rightarrow> bool" where
  "before_disk s dk \<longleftrightarrow> (\<forall>c. c \<notin> log_area s \<longrightarrow> dk c = disk s c)"

definition after_disk :: "'z klog_scheme \<Rightarrow> (u32 \<Rightarrow> u8 list) \<Rightarrow> bool" where
  "after_disk s dk \<longleftrightarrow> (\<forall>c. c \<notin> log_area s \<longrightarrow>
     dk c = (if c \<in> home s ` {..<nat (lh_n s)} then content (ldev s) s c else disk s c))"

lemma recover_nothing:
  fixes t :: "'z klog_scheme"
  assumes "rebooted s dk t pr" and "get32 (dk (hblk s)) 0 = 0"
  shows "\<exists>t'. recover_from_log t = Some t' \<and> (\<forall>c. c \<notin> log_area s \<longrightarrow> disk t' c = dk c)"
proof -
  have h: "hblk t = hblk s" using assms(1) by (simp add: rebooted_def hblk_def)
  have "\<exists>t' E. recover_from_log t = Some t' \<and> disk t' = (writes [] (disk t))(hblk t := E)"
    by (rule recover_spec [where n = 0 and pr = pr and D = "dk (hblk s)"]) (use assms h in \<open>simp_all add: rebooted_def i32_def\<close>)
  then show ?thesis using assms(1) h by (auto simp: rebooted_def log_area_def)
qed

lemma fst_logged: "fst ` set (take k (logged s)) \<subseteq> lblk s ` {..<nat (lh_n s)}"
proof -
  have "fst ` set (take k (logged s)) \<subseteq> fst ` set (logged s)" by (intro image_mono set_take_subset)
  also have "\<dots> \<subseteq> lblk s ` {..<nat (lh_n s)}" by (auto simp: logged_def)
  finally show ?thesis .
qed

lemma fst_installed: "fst ` set (take k (installed s)) \<subseteq> home s ` {..<nat (lh_n s)}"
proof -
  have "fst ` set (take k (installed s)) \<subseteq> fst ` set (installed s)" by (intro image_mono set_take_subset)
  also have "\<dots> \<subseteq> home s ` {..<nat (lh_n s)}" by (auto simp: installed_def)
  finally show ?thesis .
qed

lemma log_area_lblk:
  assumes "log_layout s" shows "lblk s ` {..<nat (lh_n s)} \<subseteq> log_area s" "hblk s \<notin> lblk s ` {..<nat (lh_n s)}"
    "hblk s \<notin> home s ` {..<nat (lh_n s)}"
proof -
  show "lblk s ` {..<nat (lh_n s)} \<subseteq> log_area s" using log_layoutD(3) [OF assms] by (auto simp: log_area_def)
  show "hblk s \<notin> lblk s ` {..<nat (lh_n s)}" using log_layoutD(4) [OF assms] by (metis imageE lessThan_iff)
  show "hblk s \<notin> home s ` {..<nat (lh_n s)}" using log_layoutD(1) [OF assms] by (metis imageE lessThan_iff)
qed

lemma crash_before:
  fixes s t :: "'z klog_scheme"
  assumes l: "log_layout s" and clear: "get32 (disk s (hblk s)) 0 = 0" and r: "rebooted s (writes (take k (logged s)) (disk s)) t pr"
  shows "\<exists>t'. recover_from_log t = Some t' \<and> before_disk s (disk t')"
proof -
  note a = log_area_lblk [OF l] and f = fst_logged [of k s]
  have "hblk s \<notin> fst ` set (take k (logged s))" using a(2) f by blast
  then obtain t' where t': "recover_from_log t = Some t'" "\<forall>c. c \<notin> log_area s \<longrightarrow> disk t' c = writes (take k (logged s)) (disk s) c"
    using recover_nothing [OF r] clear by (auto simp: writes_other)
  have "writes (take k (logged s)) (disk s) c = disk s c" if "c \<notin> log_area s" for c
    by (rule writes_other) (use that a(1) f in blast)
  then show ?thesis using t' by (auto simp: before_disk_def)
qed

lemma installed_after:
  assumes "log_layout s" and "\<forall>c. c \<notin> log_area s \<longrightarrow> c \<notin> home s ` {..<nat (lh_n s)} \<longrightarrow> f c = disk s c"
  shows "after_disk s (writes (installed s) f)"
  unfolding after_disk_def
proof (intro allI impI)
  fix c assume c: "c \<notin> log_area s"
  show "writes (installed s) f c = (if c \<in> home s ` {..<nat (lh_n s)} then content (ldev s) s c else disk s c)"
  proof (cases "c \<in> home s ` {..<nat (lh_n s)}")
    case True
    then obtain t where t: "t < nat (lh_n s)" "c = home s t" by auto
    have "distinct (map (home s) [0..<nat (lh_n s)])" using assms(1) by (simp add: log_layout_def)
    then show ?thesis using writes_map [of "home s" "[0..<nat (lh_n s)]" t "\<lambda>t. content (ldev s) s (home s t)" f] t True
      by (simp add: installed_def)
  next
    case False
    then have "c \<notin> fst ` set (installed s)" using fst_installed [of "length (installed s)" s] by auto
    then show ?thesis using False assms(2) c by (simp add: writes_other)
  qed
qed

lemma new_header_fields:
  assumes "log_layout s" and "length (content (ldev s) s (hblk s)) = BSIZE"
  shows "get32 (new_header s) 0 = word_of_int (lh_n s)" "t < nat (lh_n s) \<Longrightarrow> hhome (new_header s) t = home s t" "length (new_header s) = BSIZE"
proof -
  have n: "nat (lh_n s) \<le> 30" "0 \<le> lh_n s" using assms(1) by (auto simp: log_layout_def LOGBLOCKS_def MAXOPBLOCKS_def)
  then have "4 + 4 * nat (lh_n s) \<le> length (content (ldev s) s (hblk s))" using assms(2) by (simp add: BSIZE_def)
  from log_header_Suc [OF this, of "lh_block s"] show "get32 (new_header s) 0 = word_of_int (lh_n s)"
      "t < nat (lh_n s) \<Longrightarrow> hhome (new_header s) t = home s t" "length (new_header s) = BSIZE"
    using assms(2) n(2) by (simp_all add: new_header_def hhome_def home_def)
qed

lemma crash_installing:
  fixes s t :: "'z klog_scheme"
  assumes l: "log_layout s" and len: "length (content (ldev s) s (hblk s)) = BSIZE"
    and r: "rebooted s (writes (logged s @ (hblk s, new_header s) # take k (installed s)) (disk s)) t pr"
  shows "\<exists>t'. recover_from_log t = Some t' \<and> after_disk s (disk t')"
proof -
  let ?n = "nat (lh_n s)" and ?D = "new_header s"
  define dk where "dk = writes (logged s @ (hblk s, ?D) # take k (installed s)) (disk s)"
  note a = log_area_lblk [OF l] and f = fst_installed [of k s] and fl = fst_logged [of "length (logged s)" s, simplified]
  note hd = new_header_fields [OF l len]
  have nn: "0 \<le> lh_n s" "?n \<le> LOGBLOCKS" "int ?n = lh_n s" using l by (auto simp: log_layout_def)
  have t: "calm (ldev s) t pr" "ldev t = ldev s" "lg_start t = lg_start s" "length (lh_block t) = LOGBLOCKS" "content (ldev s) t = dk" "disk t = dk"
    using r by (simp_all add: rebooted_def dk_def)
  have bt: "hblk t = hblk s" "lblk t = lblk s" using t(3) by (auto simp: hblk_def lblk_def)
  have "dk (hblk s) = ((writes (logged s) (disk s))(hblk s := ?D)) (hblk s)"
    using a(3) f unfolding dk_def writes_simps fst_conv snd_conv by (intro writes_other) blast
  then have dh: "dk (hblk s) = ?D" by simp
  have dl: "dk (lblk s i) = content (ldev s) s (home s i)" if i: "i < ?n" for i
  proof -
    have "lblk s i \<notin> fst ` set (take k (installed s))" using f log_layoutD(2,3) [OF l] i by (metis (no_types, lifting) imageE lessThan_iff subsetD)
    moreover have "lblk s i \<noteq> hblk s" using log_layoutD(4) [OF l i] .
    moreover have "distinct (map (lblk s) [0..<?n])" using l by (auto simp: log_layout_def distinct_map intro: inj_on_subset)
    ultimately show ?thesis
      using i writes_map [of "lblk s" "[0..<?n]" i "\<lambda>t. content (ldev s) s (home s t)" "disk s"] by (simp add: dk_def writes_other logged_def)
  qed
  have hh: "map (hhome ?D) [0..<?n] = map (home s) [0..<?n]" using hd(2) by simp
  have "map (\<lambda>i. (hhome ?D i, content (ldev t) t (lblk t i))) [0..<?n] = installed s"
    unfolding installed_def using hd(2) dl by (simp add: t bt)
  then have ws: "installed s = map (\<lambda>i. (hhome ?D i, content (ldev t) t (lblk t i))) [0..<?n]" by (rule sym)
  have "\<exists>t' E. recover_from_log t = Some t' \<and> disk t' = (writes (installed s) (disk t))(hblk t := E)"
  proof (rule recover_spec [OF _ _ _ nn(2) t(4) _ _ ws])
    show "calm (ldev t) t pr" "?D = content (ldev t) t (hblk t)" using t bt dh by simp_all
    show "i32 (uint (get32 ?D 0)) = int ?n" using hd(1) i32_uint_small [OF nn(2)] nn(3) by simp
    show "\<forall>i<?n. \<forall>j<?n. lblk t i \<noteq> hhome ?D j" using hd(2) log_layoutD(2,3) [OF l] by (auto simp: bt)
    show "distinct (map (hhome ?D) [0..<?n])" unfolding hh using l by (simp add: log_layout_def)
  qed
  then obtain t' E where t': "recover_from_log t = Some t'" "disk t' = (writes (installed s) dk)(hblk s := E)" using t(6) bt(1) by auto
  have "dk c = disk s c" if c: "c \<notin> log_area s" "c \<notin> home s ` {..<?n}" for c
  proof -
    have "c \<noteq> hblk s" using c(1) by (auto simp: log_area_def)
    moreover have "c \<notin> fst ` set (logged s)" using subset_trans [OF fl a(1)] c(1) by (rule contra_subsetD)
    moreover have "c \<notin> fst ` set (take k (installed s))" using f c(2) by (rule contra_subsetD)
    ultimately have "c \<notin> fst ` set (logged s @ (hblk s, ?D) # take k (installed s))" by (simp add: image_Un)
    then show ?thesis unfolding dk_def by (rule writes_other)
  qed
  then have "after_disk s (writes (installed s) dk)" by (intro installed_after [OF l]) blast
  then have "after_disk s (disk t')" using t'(2) by (simp add: after_disk_def log_area_def)
  then show ?thesis using t'(1) by blast
qed

lemma commit_writes_final:
  assumes l: "log_layout s" and len: "length (content (ldev s) s (hblk s)) = BSIZE"
  shows "after_disk s (writes (commit_writes s) (disk s)) \<and> get32 (writes (commit_writes s) (disk s) (hblk s)) 0 = 0"
proof -
  let ?H = "log_header 0 (lh_block s) (new_header s)" and ?f = "(writes (logged s) (disk s))(hblk s := new_header s)"
  note a = log_area_lblk [OF l] and fl = fst_logged [of "length (logged s)" s, simplified]
  have w: "writes (commit_writes s) (disk s) = (writes (installed s) ?f)(hblk s := ?H)" by (simp add: commit_writes_def)
  have "get32 ?H 0 = 0"
    using log_header_Suc [of 0 "new_header s" "lh_block s"] new_header_fields(3) [OF l len] by (simp add: BSIZE_def)
  moreover have "?f c = disk s c" if "c \<notin> log_area s" for c
    using that a(1) fl by (simp add: log_area_def) (rule writes_other, blast)
  then have "after_disk s (writes (installed s) ?f)" by (intro installed_after [OF l]) blast
  ultimately show ?thesis by (simp add: after_disk_def w log_area_def)
qed

lemma crash_after:
  fixes s t :: "'z klog_scheme"
  assumes l: "log_layout s" and len: "length (content (ldev s) s (hblk s)) = BSIZE" and r: "rebooted s (writes (commit_writes s) (disk s)) t pr"
  shows "\<exists>t'. recover_from_log t = Some t' \<and> after_disk s (disk t')"
  using commit_writes_final [OF l len] recover_nothing [OF r] by (auto simp: after_disk_def)

text \<open>The prefixes of a commit's writes.\<close>

lemma take_commit_writes:
  "take k (commit_writes s) = take k (logged s) \<and> k \<le> length (logged s) \<or>
   (\<exists>j. take k (commit_writes s) = logged s @ (hblk s, new_header s) # take j (installed s)) \<or>
   take k (commit_writes s) = commit_writes s"
proof -
  let ?a = "length (logged s)" and ?b = "length (installed s)"
  show ?thesis
  proof (cases "k \<le> ?a")
    case True
    then show ?thesis by (simp add: commit_writes_def)
  next
    case False
    then obtain j where k: "k = ?a + Suc j" using less_imp_Suc_add [of ?a k] by auto
    show ?thesis
    proof (cases "j \<le> ?b")
      case True
      then have "take k (commit_writes s) = logged s @ (hblk s, new_header s) # take j (installed s)" by (simp add: commit_writes_def k)
      then show ?thesis by blast
    next
      case False
      then show ?thesis by (simp add: commit_writes_def k)
    qed
  qed
qed

text \<open>
  C3: Committing a transaction writes its blocks in an order that makes it atomic. The commit ends
  with every logged block at its home location and the header cleared. If the machine stops after
  any number of the commit's block writes and starts again, recovery succeeds and leaves the disk
  outside the log either as it was before the commit or with every block of the transaction written.
\<close>

theorem commit_crash_atomic:
  fixes s :: "'z klog_scheme"
  assumes c: "calm (ldev s) s pr" and l: "log_layout s" and p: "log_pinned s" and n: "0 < lh_n s"
    and clear: "get32 (disk s (hblk s)) 0 = 0" and len: "length (content (ldev s) s (hblk s)) = BSIZE"
  shows "\<exists>s' ws. commit s = Some s' \<and> dwrites s' = dwrites s @ ws \<and> disk s' = writes ws (disk s) \<and> lh_n s' = 0 \<and>
    after_disk s (disk s') \<and> get32 (disk s' (hblk s)) 0 = 0 \<and>
    (\<forall>k t pr'. rebooted s (writes (take k ws) (disk s)) (t :: 'z klog_scheme) pr' \<longrightarrow>
      (\<exists>t'. recover_from_log t = Some t' \<and> (before_disk s (disk t') \<or> after_disk s (disk t'))))"
proof -
  obtain s' where s': "commit s = Some s'" "bmoved pr (ldev s) (commit_writes s) (s\<lparr>lh_n := 0\<rparr>) s'"
    using commit_spec [OF c l p n] by blast
  have "\<exists>t'. recover_from_log t = Some t' \<and> (before_disk s (disk t') \<or> after_disk s (disk t'))"
    if r: "rebooted s (writes (take k (commit_writes s)) (disk s)) t pr'" for k pr' and t :: "'z klog_scheme"
    using take_commit_writes [of k s]
  proof (elim disjE exE conjE)
    assume e: "take k (commit_writes s) = take k (logged s)"
    show ?thesis using crash_before [OF l clear r [unfolded e]] by blast
  next
    fix j assume e: "take k (commit_writes s) = logged s @ (hblk s, new_header s) # take j (installed s)"
    show ?thesis using crash_installing [OF l len r [unfolded e]] by blast
  next
    assume e: "take k (commit_writes s) = commit_writes s"
    show ?thesis using crash_after [OF l len r [unfolded e]] by blast
  qed
  moreover have "after_disk s (disk s') \<and> get32 (disk s' (hblk s)) 0 = 0"
    using commit_writes_final [OF l len] s'(2) by (simp add: bmoved_def)
  ultimately show ?thesis using s' blk_bmoved(5) [OF s'(2)]
    by (intro exI [of _ s'] exI [of _ "commit_writes s"]) (simp add: bmoved_def)
qed

text \<open>
  C18: Reading a block through the cache gives its current contents, whether it is cached or on disk,
  in a buffer locked by the caller. The read evicts only unreferenced buffers, so that no block's
  contents change, and writing the buffer back changes exactly that block of the disk.
\<close>

theorem bread_bwrite_coherent:
  fixes s :: "'z kbio_scheme"
  assumes inv: "bc_inv d H s pr" and hit: "\<And>i. cache_at d b s = Some i \<Longrightarrow> i \<notin> H \<and> rc s i + 1 \<noteq> 0"
    and miss: "cache_at d b s = None \<Longrightarrow> \<exists>i < NBUF. rc s i = 0"
  shows "\<exists>i s1 s2. bread d b s = Some (i, s1) \<and> i \<notin> H \<and> bc_inv d (insert i H) s1 pr \<and>
    b_data (bufs s1 ! i) = content d s b \<and> content d s1 = content d s \<and> disk s1 = disk s \<and>
    bwrite i s1 = Some s2 \<and> bc_inv d (insert i H) s2 pr \<and> content d s2 = content d s \<and>
    disk s2 = (disk s)(b := content d s b) \<and> dwrites s2 = dwrites s @ [(b, content d s b)]"
proof -
  obtain i x s1 where r: "bread d b s = Some (i, s1)" "got pr i x s s1" "i < NBUF" "i \<notin> H" "b_dev x = d" "b_blockno x = b" "b_valid x \<noteq> 0"
    "b_refcnt x = rc s i + 1" "b_data x = content d s b" "bc_inv d (insert i H) s1 pr" "content d s1 = content d s"
    using bread_spec [OF inv hit miss] by blast
  have "length (bufs s) = NBUF" using inv by (simp add: bc_inv_def bc_shape_def)
  then have x: "bufs s1 ! i = x" "disk s1 = disk s" "dwrites s1 = dwrites s" using r(2,3) by (simp_all add: got_def)
  then have D: "content d s b = b_data (bufs s1 ! i)" "b = b_blockno (bufs s1 ! i)" using r(6,9) by simp_all
  obtain s2 where "bwrite i s1 = Some s2" "bc_inv d (insert i H) s2 pr" "content d s2 = content d s1"
      "disk s2 = (disk s1)(b := content d s b)" "dwrites s2 = dwrites s1 @ [(b, content d s b)]"
    using bwrite_spec [OF r(10) _ D] by blast
  then show ?thesis using r(1,4,10,11) x D by (intro exI [of _ i] exI [of _ s1] exI [of _ s2]) simp
qed

section \<open>A small transaction\<close>

text \<open>
  Process 0 runs; the log of device 1 starts at block 2 with one logged block, 40, cached in buffer 0
  with new contents; the disk holds zeros.
\<close>

definition sample_buf :: buf where
  "sample_buf = \<lparr>b_valid = 1, b_disk = 0, b_dev = 1, b_blockno = 40, b_refcnt = 1, b_data = replicate 1024 7\<rparr>"

definition unused_buf :: buf where
  "unused_buf = \<lparr>b_valid = 0, b_disk = 0, b_dev = 0, b_blockno = 0, b_refcnt = 0, b_data = []\<rparr>"

definition log_sample :: "buf \<Rightarrow> int \<Rightarrow> (u32 \<Rightarrow> u8 list) \<Rightarrow> klog" where
  "log_sample x n dk = \<lparr>lk = boot_lk\<lparr>cpus := (\<lambda>_. \<lparr>c_proc = Some 0, noff = 0, intena = False\<rparr>)\<rparr>,
     kend = 0x80020000, freelist = 0, mem = (\<lambda>_. 0),
     procs = blank_proc\<lparr>p_state := RUNNING, p_pid := 1\<rparr> # replicate 63 blank_proc,
     initproc = Some 0, nextpid = 10, readcount = 0, ticks = 0, trampoline = 0x80007000, forkret_addr = 0x80001000,
     shm_table = [], mutextable = [], pipes = (\<lambda>_. \<lparr>pi_data = [], pi_nread = 0, pi_nwrite = 0, pi_readopen = 0, pi_writeopen = 0\<rparr>),
     sleeplocks = (\<lambda>_. \<lparr>sl_locked = 0, sl_name = [], sl_pid = 0\<rparr>),
     bufs = x # replicate 29 unused_buf, lru = [0..<30], disk = dk, dwrites = [],
     lg_start = 2, lg_outstanding = 0, lg_committing = 1, lg_dev = 1, lh_n = n, lh_block = 40 # replicate 29 0\<rparr>"

abbreviation sample_disk :: "u32 \<Rightarrow> u8 list" where
  "sample_disk \<equiv> (\<lambda>_. replicate 1024 0)"

lemma log_sample_bufs: "i < NBUF \<Longrightarrow> bufs (log_sample x n dk) ! i = (if i = 0 then x else unused_buf)"
  by (cases i) (simp_all add: log_sample_def NBUF_def MAXOPBLOCKS_def)

lemma log_sample_calm:
  assumes "x = sample_buf \<or> x = unused_buf"
  shows "calm 1 (log_sample x n dk) 0"
proof -
  let ?s = "log_sample x n dk"
  note b = log_sample_bufs
  have "bio_ready ?s 0"
    by (auto simp: log_sample_def bio_ready_def procs_ready_def myproc_def mycpu_def boot_lk_def lkwf_def held_def NPROC_def)
  moreover have "bc_shape 1 ?s"
    unfolding bc_shape_def
  proof (intro conjI)
    show "length (bufs ?s) = NBUF" "distinct (lru ?s)" "set (lru ?s) = {..<NBUF}"
      by (auto simp: log_sample_def NBUF_def MAXOPBLOCKS_def)
  qed (use assms in \<open>auto simp: b sample_buf_def unused_buf_def split: if_splits\<close>)
  moreover have "sl_locked (sleeplocks ?s k) = 0" for k by (simp add: log_sample_def)
  ultimately have "bc_inv 1 {} ?s 0"
    using assms unfolding bc_inv_def by (auto simp: b rc_def sample_buf_def unused_buf_def split: if_splits)
  moreover have "\<forall>i < NBUF. rc ?s i < 0x7FFFFFFF" using assms by (auto simp: b rc_def sample_buf_def unused_buf_def)
  moreover have "\<exists>i < NBUF. \<exists>j < NBUF. i \<noteq> j \<and> rc ?s i = 0 \<and> rc ?s j = 0"
    by (intro exI [of _ 1] exI [of _ 2] conjI) (simp_all add: b rc_def unused_buf_def NBUF_def MAXOPBLOCKS_def)
  ultimately show ?thesis by (simp add: calm_def)
qed

lemma log_sample_blocks [simp]:
  "ldev (log_sample x n dk) = 1" "hblk (log_sample x n dk) = 2" "lblk (log_sample x n dk) t = word_of_int (int t + 3)"
  "home (log_sample x n dk) 0 = 40" "disk (log_sample x n dk) = dk" "lh_n (log_sample x n dk) = n" "lg_start (log_sample x n dk) = 2"
  by (simp_all add: ldev_def hblk_def lblk_def home_def log_sample_def algebra_simps)

lemma log_sample_content:
  "content 1 (log_sample sample_buf n dk) = dk(40 := replicate 1024 7)" "content 1 (log_sample unused_buf n dk) = dk"
proof -
  have "cache_at 1 c (log_sample sample_buf n dk) = (if c = 40 then Some 0 else None)" for c
    by (simp add: cache_at_def log_sample_def upt_rec sample_buf_def unused_buf_def)
  then show "content 1 (log_sample sample_buf n dk) = dk(40 := replicate 1024 7)"
    by (auto simp: content_def fun_eq_iff log_sample_bufs NBUF_def MAXOPBLOCKS_def sample_buf_def)
  have "cache_at 1 c (log_sample unused_buf n dk) = None" for c
    by (simp add: cache_at_def log_sample_def upt_rec unused_buf_def)
  then show "content 1 (log_sample unused_buf n dk) = dk" by (simp add: content_def fun_eq_iff)
qed

lemma log_sample_ready:
  "log_layout (log_sample sample_buf 1 sample_disk)" "log_pinned (log_sample sample_buf 1 sample_disk)"
proof -
  have "distinct (map (\<lambda>t. word_of_int (int t + 3) :: u32) [0..<30])" by code_simp
  moreover have "\<forall>t < 30. (word_of_int (int t + 3) :: u32) \<noteq> 2 \<and> (word_of_int (int t + 3) :: u32) \<noteq> 40"
    by code_simp
  moreover have "length (lh_block (log_sample sample_buf 1 sample_disk)) = 30" by (simp add: log_sample_def)
  moreover have "lblk (log_sample sample_buf 1 sample_disk) = (\<lambda>t. word_of_int (int t + 3))" by (rule ext) simp
  ultimately show "log_layout (log_sample sample_buf 1 sample_disk)"
    by (simp add: log_layout_def LOGBLOCKS_def MAXOPBLOCKS_def)
  have "cache_at 1 40 (log_sample sample_buf 1 sample_disk) = Some 0"
    by (simp add: cache_at_def log_sample_def upt_rec sample_buf_def)
  then show "log_pinned (log_sample sample_buf 1 sample_disk)"
    by (simp add: log_pinned_def pin_def rc_def log_sample_bufs NBUF_def MAXOPBLOCKS_def) (simp add: sample_buf_def)
qed

theorem commit_crash_atomic_witness:
  "\<exists>s' ws t'. commit (log_sample sample_buf 1 sample_disk) = Some s' \<and> dwrites s' = ws \<and> disk s' 40 = replicate 1024 7 \<and>
     recover_from_log (log_sample unused_buf 0 (writes (take 2 ws) sample_disk)) = Some t' \<and>
     disk t' 40 \<in> {replicate 1024 0, replicate 1024 7}"
proof -
  let ?s = "log_sample sample_buf 1 sample_disk"
  have g: "get32 (replicate 1024 0) 0 = 0" by (simp add: get32_def word_of_bytes_def numeral_eq_Suc)
  obtain s' ws where s': "commit ?s = Some s'" "dwrites s' = dwrites ?s @ ws" "after_disk ?s (disk s')"
    "\<forall>k t pr'. rebooted ?s (writes (take k ws) (disk ?s)) t pr' \<longrightarrow>
      (\<exists>t'. recover_from_log t = Some t' \<and> (before_disk ?s (disk t') \<or> after_disk ?s (disk t')))"
    using commit_crash_atomic [of ?s 0] log_sample_calm [of sample_buf 1 sample_disk] log_sample_ready g
    by (auto simp: log_sample_content BSIZE_def)
  have "(word_of_int (int t + 3) :: u32) \<noteq> 40" if "t < LOGBLOCKS" for t
    using log_sample_ready(1) that by (simp add: log_layout_def)
  then have o: "40 \<notin> log_area ?s" by (auto simp: log_area_def)
  let ?t = "log_sample unused_buf 0 (writes (take 2 ws) sample_disk)"
  have "rebooted ?s (writes (take 2 ws) (disk ?s)) ?t 0"
    using log_sample_calm [of unused_buf 0] by (simp add: rebooted_def log_sample_content)
      (simp add: log_sample_def LOGBLOCKS_def MAXOPBLOCKS_def)
  then obtain t' where "recover_from_log ?t = Some t'" "before_disk ?s (disk t') \<or> after_disk ?s (disk t')" using s'(4) by blast
  moreover have "home ?s ` {..<nat 1} = {40}" by (simp add: lessThan_Suc)
  then have "disk s' 40 = replicate 1024 7" "before_disk ?s (disk t') \<or> after_disk ?s (disk t') \<Longrightarrow> disk t' 40 \<in> {replicate 1024 0, replicate 1024 7}" for t' :: klog
    using s'(3) o by (auto simp: before_disk_def after_disk_def log_sample_content)
  moreover have "dwrites s' = ws" using s'(2) by (simp add: log_sample_def)
  ultimately show ?thesis using s'(1) by blast
qed

theorem bread_bwrite_coherent_witness:
  "\<exists>i s1 s2. bread 1 40 (log_sample sample_buf 1 sample_disk) = Some (i, s1) \<and> b_data (bufs s1 ! i) = replicate 1024 7 \<and>
     bwrite i s1 = Some s2 \<and> disk s2 40 = replicate 1024 7 \<and> disk s2 41 = replicate 1024 0"
proof -
  let ?s = "log_sample sample_buf 1 sample_disk"
  have c: "calm 1 ?s 0" by (rule log_sample_calm) simp
  then have inv: "bc_inv 1 {} ?s 0" and m: "\<exists>i < NBUF. rc ?s i = 0" by (auto simp: calm_def)
  have "i \<notin> {} \<and> rc ?s i + 1 \<noteq> 0" if "cache_at 1 40 ?s = Some i" for i
    using that calm_rc [OF c] cache_at_Some [of 1 ?s 40 i] inv by (simp add: bc_inv_def)
  from bread_bwrite_coherent [of 1 "{}" ?s 0 40, OF inv this m] show ?thesis by (auto simp: log_sample_content)
qed

end
