(* ===== verification/Logfull.thy ===== *)
theory Logfull
  imports Logcrash
begin

text \<open>
  What happens to a transaction that fills the log: its blocks occupy the whole buffer cache, so that
  the commit finds no buffer for the first block of the log.
\<close>

text \<open>Every buffer holds a block of the transaction.\<close>

lemma full_log_buffers:
  assumes sh: "bc_shape (ldev s) s" and l: "log_layout s" and p: "log_pinned s" and full: "lh_n s = int LOGBLOCKS" and i: "i < NBUF"
  shows "rc s i \<noteq> 0 \<and> (\<exists>t < LOGBLOCKS. b_blockno (bufs s ! i) = home s t)"
proof -
  define f where "f t = the (cache_at (ldev s) (home s t) s)" for t
  have g: "cache_at (ldev s) (home s t) s = Some (f t)" "rc s (f t) \<noteq> 0" if "t < LOGBLOCKS" for t
    using p that full by (auto simp: f_def log_pinned_def pin_def split: option.splits)
  have at: "f t < NBUF" "b_blockno (bufs s ! f t) = home s t" if "t < LOGBLOCKS" for t
    using g(1) [OF that] unfolding cache_at_Some [OF sh] by blast+
  have inj: "inj_on f {..<LOGBLOCKS}"
  proof (rule inj_onI)
    fix t u assume t: "t \<in> {..<LOGBLOCKS}" and u: "u \<in> {..<LOGBLOCKS}" and "f t = f u"
    then have "home s t = home s u" using at(2) [of t] at(2) [of u] by simp
    moreover have "inj_on (home s) (set [0..<LOGBLOCKS])" using l full by (simp add: log_layout_def distinct_map)
    ultimately show "t = u" using t u by (simp add: inj_on_def)
  qed
  have sub: "f ` {..<LOGBLOCKS} \<subseteq> {..<NBUF}" by (rule image_subsetI) (simp add: at(1))
  have "card (f ` {..<LOGBLOCKS}) = card {..<NBUF}" unfolding card_image [OF inj] by (simp add: NBUF_def LOGBLOCKS_def)
  then have all: "f ` {..<LOGBLOCKS} = {..<NBUF}" by (rule card_subset_eq [OF finite_lessThan sub])
  have "i \<in> f ` {..<LOGBLOCKS}" unfolding all using i by (rule lessThan_iff [THEN iffD2])
  then obtain t where ig: "i = f t" and "t \<in> {..<LOGBLOCKS}" by (rule imageE)
  then have t: "t < LOGBLOCKS" by simp
  have "rc s i \<noteq> 0" unfolding ig by (rule g(2) [OF t])
  moreover have "b_blockno (bufs s ! i) = home s t" unfolding ig by (rule at(2) [OF t])
  ultimately show ?thesis using t by blast
qed

lemma bread_no_buffer:
  assumes sh: "bc_shape d s" and used: "\<forall>i < NBUF. rc s i \<noteq> 0 \<and> b_blockno (bufs s ! i) \<noteq> b"
  shows "bread d b s = None"
proof (cases "BcacheLock \<in> held (lk s)")
  case True
  then have "acquire BcacheLock s = None" by (auto simp: acquire_def spin_acquire_def holding_def held_def Let_def)
  then show ?thesis by (simp add: bread_def bget_def)
next
  case False
  have "find (\<lambda>i. b_dev (bufs s ! i) = d \<and> b_blockno (bufs s ! i) = b) (lru s) = None"
    "find (\<lambda>i. b_refcnt (bufs s ! i) = 0) (rev (lru s)) = None"
    using sh used by (auto simp: find_None_iff bc_shape_def rc_def)
  then show ?thesis using False by (simp add: bread_def bget_def)
qed

text \<open>
  C38: a transaction of as many blocks as the log has room for, which \<^verbatim>\<open>log_write\<close> accepts, cannot be
  committed: \<^verbatim>\<open>NBUF\<close> equals \<^verbatim>\<open>LOGBLOCKS\<close>, its blocks are pinned in all the buffers of the cache, and
  \<^verbatim>\<open>commit\<close> ends in the panic for want of a buffer before it has written anything.
\<close>

theorem full_log_cannot_commit:
  fixes s :: "'z klog_scheme"
  assumes "bc_shape (ldev s) s" and "log_layout s" and "log_pinned s" and "lh_n s = int LOGBLOCKS"
  shows "commit s = None"
proof -
  have pos: "0 < LOGBLOCKS" by (simp add: LOGBLOCKS_def MAXOPBLOCKS_def)
  have "lblk s 0 \<noteq> home s t" if "t < LOGBLOCKS" for t using log_layoutD(2) [OF assms(2), of t 0] that assms(4) pos by simp
  then have "bread (ldev s) (lblk s 0) s = None"
    using full_log_buffers [OF assms] by (intro bread_no_buffer [OF assms(1)]) metis
  then have "write_log_body 0 s = None" by (simp add: write_log_body_def)
  moreover have "[0..<LOGBLOCKS] = 0 # [1..<LOGBLOCKS]" using pos by (simp add: upt_conv_Cons)
  ultimately have "write_log s = None" using assms(4) by (simp add: write_log_body)
  then show ?thesis using assms(4) pos by (simp add: commit_def)
qed

definition full_log :: klog where
  "full_log = log_sample unused_buf 30 sample_disk\<lparr>lh_block := map (\<lambda>t. int t + 40) [0..<30],
     bufs := map (\<lambda>t. \<lparr>b_valid = 1, b_disk = 0, b_dev = 1, b_blockno = of_nat t + 40, b_refcnt = 1, b_data = replicate 1024 7\<rparr>) [0..<30]\<rparr>"

lemma full_log_fields:
  "ldev full_log = 1" "hblk full_log = 2" "lblk full_log t = word_of_int (int t + 3)" "t < 30 \<Longrightarrow> home full_log t = word_of_int (int t + 40)"
  "length (bufs full_log) = 30" "lru full_log = [0..<30]" "lh_n full_log = 30" "length (lh_block full_log) = 30"
  "i < 30 \<Longrightarrow> bufs full_log ! i = \<lparr>b_valid = 1, b_disk = 0, b_dev = 1, b_blockno = of_nat i + 40, b_refcnt = 1, b_data = replicate 1024 7\<rparr>"
  by (simp_all add: full_log_def log_sample_def ldev_def hblk_def lblk_def home_def add.commute del: upt_rec_numeral)

lemma small_block: "0 \<le> a \<Longrightarrow> a < 2 ^ 32 \<Longrightarrow> 0 \<le> b \<Longrightarrow> b < 2 ^ 32 \<Longrightarrow> (word_of_int a :: u32) = word_of_int b \<longleftrightarrow> a = b"
  by (simp add: word_uint_eq_iff uint_word_of_int take_bit_int_eq_self)

lemma block_of_nat: "(of_nat i + 40 :: u32) = word_of_int (int i + 40)"
  by simp

lemma full_log_shape: "bc_shape 1 full_log"
proof -
  have "i = j" if "i < 30" "j < 30" "(of_nat i + 40 :: u32) = of_nat j + 40" for i j
    using that small_block [of "int i + 40" "int j + 40"] unfolding block_of_nat by simp
  then show ?thesis by (auto simp: bc_shape_def full_log_fields NBUF_def MAXOPBLOCKS_def simp del: upt_rec_numeral)
qed

theorem full_log_cannot_commit_witness: "commit full_log = None"
proof (rule full_log_cannot_commit)
  have n: "NBUF = 30" "LOGBLOCKS = 30" by (simp_all add: NBUF_def LOGBLOCKS_def MAXOPBLOCKS_def)
  show "bc_shape (ldev full_log) full_log" using full_log_shape by (simp add: full_log_fields)
  show "lh_n full_log = int LOGBLOCKS" by (simp add: full_log_fields n)
  have two: "(2 :: u32) = word_of_int 2" by simp
  have "lblk full_log t \<noteq> hblk full_log" if "t < 30" for t
    using that small_block [of "int t + 3" 2] unfolding full_log_fields two by simp
  moreover have "home full_log t \<noteq> hblk full_log" if "t < 30" for t
    using that small_block [of "int t + 40" 2] unfolding full_log_fields(2) full_log_fields(4) [OF that] two by simp
  moreover have "lblk full_log u \<noteq> home full_log t" if "t < 30" "u < 30" for t u
    using that small_block [of "int u + 3" "int t + 40"] unfolding full_log_fields(3) full_log_fields(4) [OF that(1)] by simp
  moreover have "inj_on (home full_log) {0..<30}" "inj_on (lblk full_log) {0..<30}"
    using small_block by (auto intro!: inj_onI simp: full_log_fields simp del: of_int_add of_int_of_nat_eq)
  ultimately show "log_layout full_log"
    by (simp add: log_layout_def full_log_fields(7,8) n distinct_map del: upt_rec_numeral)
  have "cache_at 1 (home full_log t) full_log = Some t" if "t < 30" for t
    using that unfolding cache_at_Some [OF full_log_shape] by (simp add: full_log_fields n)
  then show "log_pinned full_log" by (simp add: log_pinned_def pin_def rc_def full_log_fields)
qed

end
