(* ===== verification/Fs.thy ===== *)
theory Fs
  imports Log
begin

text \<open>
  \<^verbatim>\<open>kernel/fs.c\<close> with \<^verbatim>\<open>kernel/fs.h\<close> and \<^verbatim>\<open>kernel/file.h\<close>: blocks, inodes, directories and path names on
  top of the log. A pointer to an inode is its index in the inode table, a null pointer is \<open>None\<close>.
  The code sleeps only for locks and for the log; it is followed in the runs in which these are
  free. Messages printed on the console are left out.
\<close>

section \<open>The disk format\<close>

definition ROOTDEV :: u32 where "ROOTDEV = 1"
definition ROOTINO :: u32 where "ROOTINO = 1"
definition FSMAGIC :: u32 where "FSMAGIC = 0x10203040"
definition NDIRECT :: nat where "NDIRECT = 12"
definition NINDIRECT :: nat where "NINDIRECT = BSIZE div 4"
definition MAXFILE :: nat where "MAXFILE = NDIRECT + NINDIRECT"
definition NINODE :: nat where "NINODE = 50"
definition DIRSIZ :: nat where "DIRSIZ = 14"
definition T_DIR :: u16 where "T_DIR = 1"
definition T_FILE :: u16 where "T_FILE = 2"
definition T_DEVICE :: u16 where "T_DEVICE = 3"

record superblock =
  sb_magic :: u32
  sb_size :: u32
  sb_nblocks :: u32
  sb_ninodes :: u32
  sb_nlog :: u32
  sb_logstart :: u32
  sb_inodestart :: u32
  sb_bmapstart :: u32

text \<open>\<^verbatim>\<open>struct dinode\<close>: 64 bytes, so 16 to a block.\<close>

record dinode =
  d_type :: u16
  d_major :: u16
  d_minor :: u16
  d_nlink :: u16
  d_size :: u32
  d_addrs :: "u32 list"

definition IPB :: nat where "IPB = BSIZE div 64"
definition BPB :: nat where "BPB = BSIZE * 8"

definition IBLOCK :: "u32 \<Rightarrow> superblock \<Rightarrow> u32" where
  "IBLOCK i sb = i div of_nat IPB + sb_inodestart sb"

definition BBLOCK :: "u32 \<Rightarrow> superblock \<Rightarrow> u32" where
  "BBLOCK b sb = b div of_nat BPB + sb_bmapstart sb"

definition get16 :: "u8 list \<Rightarrow> nat \<Rightarrow> u16" where
  "get16 d off = word_of_bytes (take 2 (drop off d))"

text \<open>Bytes stored at an offset of a block, and the two structures the code lays over blocks.\<close>

definition put_bytes :: "u8 list \<Rightarrow> nat \<Rightarrow> u8 list \<Rightarrow> u8 list" where
  "put_bytes d off bs = take off d @ bs @ drop (off + length bs) d"

definition get_dinode :: "u8 list \<Rightarrow> nat \<Rightarrow> dinode" where
  "get_dinode d off =
     \<lparr>d_type = get16 d off, d_major = get16 d (off + 2), d_minor = get16 d (off + 4), d_nlink = get16 d (off + 6),
      d_size = get32 d (off + 8), d_addrs = map (\<lambda>i. get32 d (off + 12 + 4 * i)) [0..<NDIRECT + 1]\<rparr>"

definition dinode_bytes :: "dinode \<Rightarrow> u8 list" where
  "dinode_bytes x = bytes_of_word 2 (d_type x) @ bytes_of_word 2 (d_major x) @ bytes_of_word 2 (d_minor x)
     @ bytes_of_word 2 (d_nlink x) @ bytes_of_word 4 (d_size x) @ concat (map (bytes_of_word 4) (d_addrs x))"

record dirent =
  de_inum :: u16
  de_name :: "u8 list"

definition get_dirent :: "u8 list \<Rightarrow> dirent" where
  "get_dirent bs = \<lparr>de_inum = get16 bs 0, de_name = take DIRSIZ (drop 2 bs)\<rparr>"

definition dirent_bytes :: "dirent \<Rightarrow> u8 list" where
  "dirent_bytes de = bytes_of_word 2 (de_inum de) @ de_name de"

section \<open>State\<close>

record inode =
  i_dev :: u32
  i_inum :: u32
  i_ref :: int
  i_valid :: int
  i_type :: u16
  i_major :: u16
  i_minor :: u16
  i_nlink :: u16
  i_size :: u32
  i_addrs :: "u32 list"

record kfs = klog +
  sb :: superblock
  itable :: "inode list"

definition upd_inode :: "nat \<Rightarrow> (inode \<Rightarrow> inode) \<Rightarrow> 'z kfs_scheme \<Rightarrow> 'z kfs_scheme" where
  "upd_inode ip f s = s\<lparr>itable := (itable s)[ip := f (itable s ! ip)]\<rparr>"

definition set_bdata :: "nat \<Rightarrow> u8 list \<Rightarrow> 'z kbio_scheme \<Rightarrow> 'z kbio_scheme" where
  "set_bdata b d s = upd_buf b (\<lambda>x. x\<lparr>b_data := d\<rparr>) s"

section \<open>Blocks\<close>

definition readsb :: "int \<Rightarrow> 'z kfs_scheme \<Rightarrow> 'z kfs_scheme option" where
  "readsb dev s =
     do { (bp, s) \<leftarrow> bread (word_of_int dev) 1 s;
          let d = b_data (bufs s ! bp);
          let s = s\<lparr>sb := \<lparr>sb_magic = get32 d 0, sb_size = get32 d 4, sb_nblocks = get32 d 8, sb_ninodes = get32 d 12,
                           sb_nlog = get32 d 16, sb_logstart = get32 d 20, sb_inodestart = get32 d 24, sb_bmapstart = get32 d 28\<rparr>\<rparr>;
          brelse bp s }"

definition bzero :: "u32 \<Rightarrow> u32 \<Rightarrow> 'z kfs_scheme \<Rightarrow> 'z kfs_scheme option" where
  "bzero dev bno s =
     do { (bp, s) \<leftarrow> bread dev bno s;
          let s = set_bdata bp (replicate BSIZE 0) s;
          s \<leftarrow> log_write bp s;
          brelse bp s }"

definition bit_mask :: "nat \<Rightarrow> u8" where
  "bit_mask bi = push_bit (bi mod 8) 1"

definition bit_free :: "u8 list \<Rightarrow> nat \<Rightarrow> bool" where
  "bit_free d bi \<longleftrightarrow> d ! (bi div 8) AND bit_mask bi = 0"

text \<open>
  The outer loop of \<^verbatim>\<open>balloc\<close> runs over the blocks of the bitmap, the inner one looks for the first
  clear bit and changes nothing before it finds one.
\<close>

definition balloc :: "u32 \<Rightarrow> 'z kfs_scheme \<Rightarrow> (u32 \<times> 'z kfs_scheme) option" where
  "balloc dev s =
     do { (r, s) \<leftarrow> for_find (map (\<lambda>k. k * BPB) [0..<(unat (sb_size (sb s)) + BPB - 1) div BPB]) (\<lambda>b s.
            do { (bp, s) \<leftarrow> bread dev (BBLOCK (of_nat b) (sb s)) s;
                 let d = b_data (bufs s ! bp);
                 case find (bit_free d) [0..<min BPB (unat (sb_size (sb s)) - b)] of
                   Some bi \<Rightarrow>
                     do { let s = set_bdata bp (d[bi div 8 := d ! (bi div 8) OR bit_mask bi]) s;
                          s \<leftarrow> log_write bp s;
                          s \<leftarrow> brelse bp s;
                          s \<leftarrow> bzero dev (of_nat (b + bi)) s;
                          Some (Some (of_nat (b + bi)), s) }
                 | None \<Rightarrow> do { s \<leftarrow> brelse bp s; Some (None, s) } }) s;
          Some (case r of Some a \<Rightarrow> a | None \<Rightarrow> 0, s) }"

definition bfree :: "u32 \<Rightarrow> u32 \<Rightarrow> 'z kfs_scheme \<Rightarrow> 'z kfs_scheme option" where
  "bfree dev b s =
     do { (bp, s) \<leftarrow> bread dev (BBLOCK b (sb s)) s;
          let bi = unat b mod BPB;
          let d = b_data (bufs s ! bp);
          if bit_free d bi then None
          else do { let s = set_bdata bp (d[bi div 8 := d ! (bi div 8) AND NOT (bit_mask bi)]) s;
                    s \<leftarrow> log_write bp s;
                    brelse bp s } }"

section \<open>Inodes\<close>

definition iinit :: "'z kfs_scheme \<Rightarrow> 'z kfs_scheme" where
  "iinit s = fold (\<lambda>i s. initsleeplock (InodeSleep i) ''inode'' s) [0..<NINODE] (s\<lparr>lk := initlock ItableLock ''itable'' (lk s)\<rparr>)"

text \<open>
  The loop of \<^verbatim>\<open>iget\<close> stops at the first entry for the inode; the first entry without references is
  used when there is none.
\<close>

definition iget :: "u32 \<Rightarrow> u32 \<Rightarrow> 'z kfs_scheme \<Rightarrow> (nat \<times> 'z kfs_scheme) option" where
  "iget dev inum s =
     do { s \<leftarrow> acquire ItableLock s;
          case find (\<lambda>i. i_ref (itable s ! i) > 0 \<and> i_dev (itable s ! i) = dev \<and> i_inum (itable s ! i) = inum) [0..<NINODE] of
            Some i \<Rightarrow> do { let s = upd_inode i (\<lambda>x. x\<lparr>i_ref := i_ref x + 1\<rparr>) s;
                          s \<leftarrow> release ItableLock s; Some (i, s) }
          | None \<Rightarrow>
              (case find (\<lambda>i. i_ref (itable s ! i) = 0) [0..<NINODE] of
                 None \<Rightarrow> None
               | Some i \<Rightarrow> do { let s = upd_inode i (\<lambda>x. x\<lparr>i_dev := dev, i_inum := inum, i_ref := 1, i_valid := 0\<rparr>) s;
                               s \<leftarrow> release ItableLock s; Some (i, s) }) }"

definition ialloc :: "u32 \<Rightarrow> u16 \<Rightarrow> 'z kfs_scheme \<Rightarrow> (nat option \<times> 'z kfs_scheme) option" where
  "ialloc dev type s =
     for_find [1..<unat (sb_ninodes (sb s))] (\<lambda>inum s.
       do { (bp, s) \<leftarrow> bread dev (IBLOCK (of_nat inum) (sb s)) s;
            let d = b_data (bufs s ! bp);
            let off = 64 * (inum mod IPB);
            if get16 d off = 0
            then do { let s = set_bdata bp (put_bytes d off (bytes_of_word 2 type @ replicate 62 0)) s;
                      s \<leftarrow> log_write bp s;
                      s \<leftarrow> brelse bp s;
                      (i, s) \<leftarrow> iget dev (of_nat inum) s;
                      Some (Some i, s) }
            else do { s \<leftarrow> brelse bp s; Some (None, s) } }) s"

definition dinode_of :: "inode \<Rightarrow> dinode" where
  "dinode_of x = \<lparr>d_type = i_type x, d_major = i_major x, d_minor = i_minor x, d_nlink = i_nlink x, d_size = i_size x, d_addrs = i_addrs x\<rparr>"

definition iupdate :: "nat \<Rightarrow> 'z kfs_scheme \<Rightarrow> 'z kfs_scheme option" where
  "iupdate ip s =
     do { let x = itable s ! ip;
          (bp, s) \<leftarrow> bread (i_dev x) (IBLOCK (i_inum x) (sb s)) s;
          let s = set_bdata bp (put_bytes (b_data (bufs s ! bp)) (64 * (unat (i_inum x) mod IPB)) (dinode_bytes (dinode_of x))) s;
          s \<leftarrow> log_write bp s;
          brelse bp s }"

definition idup :: "nat \<Rightarrow> 'z kfs_scheme \<Rightarrow> (nat \<times> 'z kfs_scheme) option" where
  "idup ip s =
     do { s \<leftarrow> acquire ItableLock s;
          let s = upd_inode ip (\<lambda>x. x\<lparr>i_ref := i_ref x + 1\<rparr>) s;
          s \<leftarrow> release ItableLock s;
          Some (ip, s) }"

definition ilock :: "nat \<Rightarrow> 'z kfs_scheme \<Rightarrow> 'z kfs_scheme option" where
  "ilock ip s =
     (if i_ref (itable s ! ip) < 1 then None
      else do { s \<leftarrow> acquiresleep_now (InodeSleep ip) s;
                let x = itable s ! ip;
                if i_valid x = 0
                then do { (bp, s) \<leftarrow> bread (i_dev x) (IBLOCK (i_inum x) (sb s)) s;
                          let dip = get_dinode (b_data (bufs s ! bp)) (64 * (unat (i_inum x) mod IPB));
                          let s = upd_inode ip (\<lambda>x. x\<lparr>i_type := d_type dip, i_major := d_major dip, i_minor := d_minor dip,
                                    i_nlink := d_nlink dip, i_size := d_size dip, i_addrs := d_addrs dip\<rparr>) s;
                          s \<leftarrow> brelse bp s;
                          let s = upd_inode ip (\<lambda>x. x\<lparr>i_valid := 1\<rparr>) s;
                          if i_type (itable s ! ip) = 0 then None else Some s }
                else Some s })"

definition iunlock :: "nat \<Rightarrow> 'z kfs_scheme \<Rightarrow> 'z kfs_scheme option" where
  "iunlock ip s =
     do { (h, s) \<leftarrow> holdingsleep (InodeSleep ip) s;
          if \<not> h \<or> i_ref (itable s ! ip) < 1 then None
          else releasesleep (InodeSleep ip) s }"

section \<open>Inode contents\<close>

definition bmap :: "nat \<Rightarrow> nat \<Rightarrow> 'z kfs_scheme \<Rightarrow> (u32 \<times> 'z kfs_scheme) option" where
  "bmap ip bn s =
     (if bn < NDIRECT
      then do { let addr = i_addrs (itable s ! ip) ! bn;
                if addr = 0
                then do { (addr, s) \<leftarrow> balloc (i_dev (itable s ! ip)) s;
                          if addr = 0 then Some (0, s)
                          else Some (addr, upd_inode ip (\<lambda>x. x\<lparr>i_addrs := (i_addrs x)[bn := addr]\<rparr>) s) }
                else Some (addr, s) }
      else let bn = bn - NDIRECT in
        if bn < NINDIRECT
        then do { let addr = i_addrs (itable s ! ip) ! NDIRECT;
                  (addr, s) \<leftarrow> (if addr = 0
                     then do { (addr, s) \<leftarrow> balloc (i_dev (itable s ! ip)) s;
                               if addr = 0 then Some (0, s)
                               else Some (addr, upd_inode ip (\<lambda>x. x\<lparr>i_addrs := (i_addrs x)[NDIRECT := addr]\<rparr>) s) }
                     else Some (addr, s));
                  if addr = 0 then Some (0, s)
                  else do { (bp, s) \<leftarrow> bread (i_dev (itable s ! ip)) addr s;
                            let addr = get32 (b_data (bufs s ! bp)) (4 * bn);
                            (addr, s) \<leftarrow> (if addr = 0
                               then do { (addr, s) \<leftarrow> balloc (i_dev (itable s ! ip)) s;
                                         if addr \<noteq> 0
                                         then do { let s = set_bdata bp (put32 (b_data (bufs s ! bp)) (4 * bn) addr) s;
                                                   s \<leftarrow> log_write bp s;
                                                   Some (addr, s) }
                                         else Some (addr, s) }
                               else Some (addr, s));
                            s \<leftarrow> brelse bp s;
                            Some (addr, s) } }
        else None)"

definition itrunc :: "nat \<Rightarrow> 'z kfs_scheme \<Rightarrow> 'z kfs_scheme option" where
  "itrunc ip s =
     do { s \<leftarrow> for_each [0..<NDIRECT] (\<lambda>i s.
            let addr = i_addrs (itable s ! ip) ! i in
            if addr \<noteq> 0
            then do { s \<leftarrow> bfree (i_dev (itable s ! ip)) addr s;
                      Some (upd_inode ip (\<lambda>x. x\<lparr>i_addrs := (i_addrs x)[i := 0]\<rparr>) s) }
            else Some s) s;
          s \<leftarrow> (if i_addrs (itable s ! ip) ! NDIRECT \<noteq> 0
            then do { (bp, s) \<leftarrow> bread (i_dev (itable s ! ip)) (i_addrs (itable s ! ip) ! NDIRECT) s;
                      s \<leftarrow> for_each [0..<NINDIRECT] (\<lambda>j s.
                        let a = get32 (b_data (bufs s ! bp)) (4 * j) in
                        if a \<noteq> 0 then bfree (i_dev (itable s ! ip)) a s else Some s) s;
                      s \<leftarrow> brelse bp s;
                      s \<leftarrow> bfree (i_dev (itable s ! ip)) (i_addrs (itable s ! ip) ! NDIRECT) s;
                      Some (upd_inode ip (\<lambda>x. x\<lparr>i_addrs := (i_addrs x)[NDIRECT := 0]\<rparr>) s) }
            else Some s);
          iupdate ip (upd_inode ip (\<lambda>x. x\<lparr>i_size := 0\<rparr>) s) }"

definition iput :: "nat \<Rightarrow> 'z kfs_scheme \<Rightarrow> 'z kfs_scheme option" where
  "iput ip s =
     do { s \<leftarrow> acquire ItableLock s;
          let x = itable s ! ip;
          s \<leftarrow> (if i_ref x = 1 \<and> i_valid x \<noteq> 0 \<and> i_nlink x = 0
                then do { s \<leftarrow> acquiresleep_now (InodeSleep ip) s;
                          s \<leftarrow> release ItableLock s;
                          s \<leftarrow> itrunc ip s;
                          s \<leftarrow> iupdate ip (upd_inode ip (\<lambda>x. x\<lparr>i_type := 0\<rparr>) s);
                          s \<leftarrow> releasesleep (InodeSleep ip) (upd_inode ip (\<lambda>x. x\<lparr>i_valid := 0\<rparr>) s);
                          acquire ItableLock s }
                else Some s);
          release ItableLock (upd_inode ip (\<lambda>x. x\<lparr>i_ref := i_ref x - 1\<rparr>) s) }"

definition iunlockput :: "nat \<Rightarrow> 'z kfs_scheme \<Rightarrow> 'z kfs_scheme option" where
  "iunlockput ip s = do { s \<leftarrow> iunlock ip s; iput ip s }"

definition ireclaim :: "int \<Rightarrow> 'z kfs_scheme \<Rightarrow> 'z kfs_scheme option" where
  "ireclaim dev s =
     for_each [1..<unat (sb_ninodes (sb s))] (\<lambda>inum s.
       do { (bp, s) \<leftarrow> bread (word_of_int dev) (IBLOCK (of_nat inum) (sb s)) s;
            let dip = get_dinode (b_data (bufs s ! bp)) (64 * (inum mod IPB));
            (ip, s) \<leftarrow> (if d_type dip \<noteq> 0 \<and> d_nlink dip = 0
                        then do { (ip, s) \<leftarrow> iget (word_of_int dev) (of_nat inum) s; Some (Some ip, s) }
                        else Some (None, s));
            s \<leftarrow> brelse bp s;
            case ip of
              None \<Rightarrow> Some s
            | Some ip \<Rightarrow> do { s \<leftarrow> begin_op_now s;
                              s \<leftarrow> ilock ip s;
                              s \<leftarrow> iunlock ip s;
                              s \<leftarrow> iput ip s;
                              end_op s } }) s"

definition fsinit :: "int \<Rightarrow> 'z kfs_scheme \<Rightarrow> 'z kfs_scheme option" where
  "fsinit dev s =
     do { s \<leftarrow> readsb dev s;
          if sb_magic (sb s) \<noteq> FSMAGIC then None
          else do { s \<leftarrow> initlog dev (sb_logstart (sb s)) s;
                    ireclaim dev s } }"

text \<open>\<^verbatim>\<open>struct stat\<close> as \<^verbatim>\<open>stati\<close> fills it.\<close>

record stat =
  st_dev :: int
  st_ino :: u32
  st_type :: u16
  st_nlink :: u16
  st_size :: u64

definition stati :: "nat \<Rightarrow> 'z kfs_scheme \<Rightarrow> stat" where
  "stati ip s =
     (let x = itable s ! ip in
      \<lparr>st_dev = i32 (uint (i_dev x)), st_ino = i_inum x, st_type = i_type x, st_nlink = i_nlink x, st_size = ucast (i_size x)\<rparr>)"

text \<open>
  Where \<^verbatim>\<open>readi\<close> copies to: user memory, kernel memory or a local variable of the caller, whose new
  contents are the bytes returned. \<^verbatim>\<open>writei\<close> copies from user memory or from a local variable.
\<close>

datatype iodst = ToUser u64 | ToKernel u64 | ToLocal
datatype iosrc = FromUser u64 | FromLocal "u8 list"

definition copy_dst :: "iodst \<Rightarrow> nat \<Rightarrow> u8 list \<Rightarrow> 'z kproc_scheme \<Rightarrow> (int \<times> 'z kproc_scheme) option" where
  "copy_dst dst tot bs s = (case dst of
     ToUser va \<Rightarrow> either_copyout True (va + of_nat tot) bs s
   | ToKernel pa \<Rightarrow> either_copyout False (pa + of_nat tot) bs s
   | ToLocal \<Rightarrow> Some (0, s))"

definition copy_src :: "iosrc \<Rightarrow> nat \<Rightarrow> nat \<Rightarrow> 'z kproc_scheme \<Rightarrow> ((int \<times> u8 list) \<times> 'z kproc_scheme) option" where
  "copy_src src tot m s = (case src of
     FromUser va \<Rightarrow> either_copyin True (va + of_nat tot) m s
   | FromLocal bs \<Rightarrow> Some ((0, take m (drop tot bs)), s))"

text \<open>\<open>off\<close> is the offset of the first byte read, \<open>tot\<close> what has been read and \<open>acc\<close> the bytes.\<close>

function readi_loop :: "nat \<Rightarrow> iodst \<Rightarrow> nat \<Rightarrow> nat \<Rightarrow> nat \<Rightarrow> u8 list \<Rightarrow> 'z kfs_scheme \<Rightarrow> ((int \<times> u8 list) \<times> 'z kfs_scheme) option" where
  "readi_loop ip dst off n tot acc s =
     (if tot < n
      then do { (addr, s) \<leftarrow> bmap ip ((off + tot) div BSIZE) s;
                if addr = 0 then Some ((i32 (int tot), acc), s)
                else do { (bp, s) \<leftarrow> bread (i_dev (itable s ! ip)) addr s;
                          let m = min (n - tot) (BSIZE - (off + tot) mod BSIZE);
                          let bs = take m (drop ((off + tot) mod BSIZE) (b_data (bufs s ! bp)));
                          (c, s) \<leftarrow> copy_dst dst tot bs s;
                          if c = - 1 then do { s \<leftarrow> brelse bp s; Some ((- 1, acc), s) }
                          else do { s \<leftarrow> brelse bp s;
                                    readi_loop ip dst off n (tot + min (n - tot) (BSIZE - (off + tot) mod BSIZE)) (acc @ bs) s } } }
      else Some ((i32 (int tot), acc), s))"
  by pat_completeness auto
termination
  by (relation "measure (\<lambda>(ip, dst, off, n, tot, acc, s). n - tot)") (auto simp: BSIZE_def)

declare readi_loop.simps [simp del]

definition readi :: "nat \<Rightarrow> iodst \<Rightarrow> u32 \<Rightarrow> u32 \<Rightarrow> 'z kfs_scheme \<Rightarrow> ((int \<times> u8 list) \<times> 'z kfs_scheme) option" where
  "readi ip dst off n s =
     (let size = i_size (itable s ! ip) in
      if off > size \<or> off + n < off then Some ((0, []), s)
      else let n = (if off + n > size then size - off else n)
           in readi_loop ip dst (unat off) (unat n) 0 [] s)"

text \<open>\<^verbatim>\<open>either_copyin\<close> stores what it could copy in the buffer also when it fails.\<close>

function writei_loop :: "nat \<Rightarrow> iosrc \<Rightarrow> nat \<Rightarrow> nat \<Rightarrow> nat \<Rightarrow> 'z kfs_scheme \<Rightarrow> (nat \<times> 'z kfs_scheme) option" where
  "writei_loop ip src off n tot s =
     (if tot < n
      then do { (addr, s) \<leftarrow> bmap ip ((off + tot) div BSIZE) s;
                if addr = 0 then Some (tot, s)
                else do { (bp, s) \<leftarrow> bread (i_dev (itable s ! ip)) addr s;
                          let m = min (n - tot) (BSIZE - (off + tot) mod BSIZE);
                          ((c, bs), s) \<leftarrow> copy_src src tot m s;
                          let s = set_bdata bp (put_bytes (b_data (bufs s ! bp)) ((off + tot) mod BSIZE) bs) s;
                          if c = - 1 then do { s \<leftarrow> brelse bp s; Some (tot, s) }
                          else do { s \<leftarrow> log_write bp s;
                                    s \<leftarrow> brelse bp s;
                                    writei_loop ip src off n (tot + min (n - tot) (BSIZE - (off + tot) mod BSIZE)) s } } }
      else Some (tot, s))"
  by pat_completeness auto
termination
  by (relation "measure (\<lambda>(ip, src, off, n, tot, s). n - tot)") (auto simp: BSIZE_def)

declare writei_loop.simps [simp del]

definition writei :: "nat \<Rightarrow> iosrc \<Rightarrow> u32 \<Rightarrow> u32 \<Rightarrow> 'z kfs_scheme \<Rightarrow> (int \<times> 'z kfs_scheme) option" where
  "writei ip src off n s =
     (if off > i_size (itable s ! ip) \<or> off + n < off then Some (- 1, s)
      else if unat (off + n) > MAXFILE * BSIZE then Some (- 1, s)
      else do { (tot, s) \<leftarrow> writei_loop ip src (unat off) (unat n) 0 s;
                let off = off + of_nat tot;
                let s = (if off > i_size (itable s ! ip) then upd_inode ip (\<lambda>x. x\<lparr>i_size := off\<rparr>) s else s);
                s \<leftarrow> iupdate ip s;
                Some (int tot, s) })"

section \<open>Directories\<close>

definition namecmp :: "u8 list \<Rightarrow> u8 list \<Rightarrow> int option" where
  "namecmp s t = strncmp s t DIRSIZ"

text \<open>The offsets of the entries of a directory of \<open>n\<close> bytes, from entry \<open>k\<close> on.\<close>

definition dir_offs :: "nat \<Rightarrow> u32 \<Rightarrow> nat list" where
  "dir_offs k n = map (\<lambda>i. 16 * i) [k..<(unat n + 15) div 16]"

definition read_dirent :: "nat \<Rightarrow> nat \<Rightarrow> 'z kfs_scheme \<Rightarrow> (dirent \<times> 'z kfs_scheme) option" where
  "read_dirent dp off s =
     do { ((r, bs), s) \<leftarrow> readi dp ToLocal (of_nat off) 16 s;
          if r \<noteq> 16 then None else Some (get_dirent bs, s) }"

text \<open>The second component of the result is what is stored in \<^verbatim>\<open>*poff\<close>.\<close>

definition dirlookup :: "nat \<Rightarrow> u8 list \<Rightarrow> 'z kfs_scheme \<Rightarrow> ((nat \<times> u32) option \<times> 'z kfs_scheme) option" where
  "dirlookup dp name s =
     (if i_type (itable s ! dp) \<noteq> T_DIR then None
      else for_find (dir_offs 0 (i_size (itable s ! dp))) (\<lambda>off s.
        do { (de, s) \<leftarrow> read_dirent dp off s;
             if de_inum de = 0 then Some (None, s)
             else do { c \<leftarrow> namecmp name (de_name de);
                       if c = 0
                       then do { (ip, s) \<leftarrow> iget (i_dev (itable s ! dp)) (ucast (de_inum de)) s;
                                 Some (Some (ip, of_nat off), s) }
                       else Some (None, s) } }) s)"

definition dirlink :: "nat \<Rightarrow> u8 list \<Rightarrow> u32 \<Rightarrow> 'z kfs_scheme \<Rightarrow> (int \<times> 'z kfs_scheme) option" where
  "dirlink dp name inum s =
     do { (r, s) \<leftarrow> dirlookup dp name s;
          case r of
            Some (ip, _) \<Rightarrow> do { s \<leftarrow> iput ip s; Some (- 1, s) }
          | None \<Rightarrow>
              do { (free, s) \<leftarrow> for_find (dir_offs 0 (i_size (itable s ! dp))) (\<lambda>off s.
                     do { (de, s) \<leftarrow> read_dirent dp off s;
                          Some (if de_inum de = 0 then Some off else None, s) }) s;
                   let off = (case free of Some off \<Rightarrow> off | None \<Rightarrow> 16 * ((unat (i_size (itable s ! dp)) + 15) div 16));
                   nm \<leftarrow> strncpy (replicate DIRSIZ 0) name DIRSIZ;
                   (w, s) \<leftarrow> writei dp (FromLocal (dirent_bytes \<lparr>de_inum = ucast inum, de_name = nm\<rparr>)) (of_nat off) 16 s;
                   Some (if w \<noteq> 16 then - 1 else 0, s) } }"

section \<open>Paths\<close>

text \<open>
  Strings are arrays with their NUL; the slash is 47. \<open>skipelem\<close> is \<open>None\<close> for an array without a NUL,
  \<open>Some None\<close> for the null pointer, and otherwise gives the rest of the path and the array \<^verbatim>\<open>name\<close>.
\<close>

definition skipelem :: "u8 list \<Rightarrow> u8 list \<Rightarrow> (u8 list \<times> u8 list) option option" where
  "skipelem path name =
     (case dropWhile (\<lambda>c. c = 47) path of
        [] \<Rightarrow> None
      | c # r \<Rightarrow>
          if c = 0 then Some None
          else let s = takeWhile (\<lambda>c. c \<noteq> 47 \<and> c \<noteq> 0) (c # r);
                   len = length s;
                   name = (if len \<ge> DIRSIZ then put_bytes name 0 (take DIRSIZ s) else put_bytes name 0 (s @ [0]));
                   path = dropWhile (\<lambda>c. c = 47) (dropWhile (\<lambda>c. c \<noteq> 47 \<and> c \<noteq> 0) (c # r))
               in if path = [] then None else Some (Some (path, name)))"

lemma skipelem_shorter:
  assumes "skipelem path name = Some (Some (path', name'))"
  shows "length path' < length path"
proof -
  obtain c r where c: "dropWhile (\<lambda>c. c = 47) path = c # r" "c \<noteq> 0"
    using assms by (cases "dropWhile (\<lambda>c. c = 47) path") (auto simp: skipelem_def split: if_splits)
  have "c \<noteq> 47" using hd_dropWhile [of "\<lambda>c. c = 47" path] c(1) by simp
  then have "length (dropWhile (\<lambda>c. c \<noteq> 47 \<and> c \<noteq> 0) (c # r)) \<le> length r"
    using c(2) by (simp add: length_dropWhile_le)
  moreover have "length (c # r) \<le> length path" using length_dropWhile_le [of "\<lambda>c. c = 47" path] c by simp
  moreover have "path' = dropWhile (\<lambda>c. c = 47) (dropWhile (\<lambda>c. c \<noteq> 47 \<and> c \<noteq> 0) (c # r))"
    using assms c(2) unfolding skipelem_def c(1) Let_def 
    by (simp only: list.case if_False option.inject prod.inject option.distinct split: if_splits)
  moreover have "length path' \<le> length (dropWhile (\<lambda>c. c \<noteq> 47 \<and> c \<noteq> 0) (c # r))" 
    unfolding calculation(3) by (rule length_dropWhile_le)
  ultimately show ?thesis by simp
qed

function namex_loop :: "u8 list \<Rightarrow> bool \<Rightarrow> u8 list \<Rightarrow> nat \<Rightarrow> 'z kfs_scheme \<Rightarrow> ((nat option \<times> u8 list) \<times> 'z kfs_scheme) option" where
  "namex_loop path nameiparent name ip s =
     (case skipelem path name of
        None \<Rightarrow> None
      | Some None \<Rightarrow>
          (if nameiparent then do { s \<leftarrow> iput ip s; Some ((None, name), s) }
           else Some ((Some ip, name), s))
      | Some (Some (path', name')) \<Rightarrow>
          do { s \<leftarrow> ilock ip s;
               if i_type (itable s ! ip) \<noteq> T_DIR then do { s \<leftarrow> iunlockput ip s; Some ((None, name'), s) }
               else if nameiparent \<and> hd path' = 0 then do { s \<leftarrow> iunlock ip s; Some ((Some ip, name'), s) }
               else do { (r, s) \<leftarrow> dirlookup ip name' s;
                         case r of
                           None \<Rightarrow> do { s \<leftarrow> iunlockput ip s; Some ((None, name'), s) }
                         | Some (nxt, _) \<Rightarrow> do { s \<leftarrow> iunlockput ip s; namex_loop path' nameiparent name' nxt s } } })"
  by pat_completeness auto
termination
  by (relation "measure (\<lambda>(path, np, name, ip, s). length path)") (auto dest: skipelem_shorter)

declare namex_loop.simps [simp del]

definition namex :: "u8 list \<Rightarrow> bool \<Rightarrow> u8 list \<Rightarrow> 'z kfs_scheme \<Rightarrow> ((nat option \<times> u8 list) \<times> 'z kfs_scheme) option" where
  "namex path nameiparent name s =
     (case path of
        [] \<Rightarrow> None
      | c # _ \<Rightarrow>
          do { (ip, s) \<leftarrow> (if c = 47 then iget ROOTDEV ROOTINO s
                           else do { p \<leftarrow> myproc s; cwd \<leftarrow> p_cwd (procs s ! p); idup cwd s });
               namex_loop path nameiparent name ip s })"

text \<open>The array \<^verbatim>\<open>name\<close> is a local variable; what it holds after a NUL is never read.\<close>

definition namei :: "u8 list \<Rightarrow> 'z kfs_scheme \<Rightarrow> (nat option \<times> 'z kfs_scheme) option" where
  "namei path s = do { ((ip, _), s) \<leftarrow> namex path False (replicate DIRSIZ 0) s; Some (ip, s) }"

definition nameiparent :: "u8 list \<Rightarrow> u8 list \<Rightarrow> 'z kfs_scheme \<Rightarrow> ((nat option \<times> u8 list) \<times> 'z kfs_scheme) option" where
  "nameiparent path name s = namex path True name s"

end
