(* ===== verification/Uart.thy ===== *)
theory Uart
  imports Fs
begin

text \<open>
  \<^verbatim>\<open>kernel/uart.c\<close> up to its interrupt handler, and the state of \<^verbatim>\<open>kernel/console.c\<close>: the serial port.
  The port is what the driver reads and writes of it: the registers written (\<open>uart_cfg\<close>), the bytes given
  to the transmit register (\<open>uart_out\<close>), the received bytes not yet read (\<open>uart_rx\<close>) and whether the
  transmitter is idle. A character is an unsigned byte on this machine.
\<close>

section \<open>State\<close>

record kcons = kfs +
  panicking :: int
  panicked :: int
  tx_busy :: int
  uart_cfg :: "(nat \<times> u8) list"
  uart_out :: "u8 list"
  uart_rx :: "u8 list"
  uart_idle :: bool
  cons_buf :: "u8 list"
  cons_r :: u32
  cons_w :: u32
  cons_e :: u32

definition INPUT_BUF_SIZE :: nat where "INPUT_BUF_SIZE = 128"
definition BACKSPACE :: int where "BACKSPACE = 0x100"

text \<open>\<^verbatim>\<open>C(x)\<close>, and the characters the code names.\<close>

definition ctrl :: "int \<Rightarrow> int" where "ctrl x = x - 64"

section \<open>The serial port\<close>

definition WriteReg :: "nat \<Rightarrow> u8 \<Rightarrow> 'z kcons_scheme \<Rightarrow> 'z kcons_scheme" where
  "WriteReg reg v s = s\<lparr>uart_cfg := uart_cfg s @ [(reg, v)]\<rparr>"

definition WriteTHR :: "u8 \<Rightarrow> 'z kcons_scheme \<Rightarrow> 'z kcons_scheme" where
  "WriteTHR v s = s\<lparr>uart_out := uart_out s @ [v]\<rparr>"

text \<open>Registers: \<^verbatim>\<open>IER\<close> 1, \<^verbatim>\<open>FCR\<close> 2, \<^verbatim>\<open>LCR\<close> 3; registers 0 and 1 hold the divisor in baud-rate mode.\<close>

definition uartinit :: "'z kcons_scheme \<Rightarrow> 'z kcons_scheme" where
  "uartinit s =
     (let s = WriteReg 1 0 s;
          s = WriteReg 3 0x80 s;
          s = WriteReg 0 3 s;
          s = WriteReg 1 0 s;
          s = WriteReg 3 3 s;
          s = WriteReg 2 (1 OR 6) s;
          s = WriteReg 1 (2 OR 1) s
      in s\<lparr>lk := initlock TxLock ''uart'' (lk s)\<rparr>)"

text \<open>
  The loop of \<^verbatim>\<open>uartwrite\<close> from index \<open>i\<close>, with the lock held. It sleeps whenever the transmitter is
  busy; \<open>i\<close> is kept meanwhile.
\<close>

function uartwrite_loop :: "u8 list \<Rightarrow> nat \<Rightarrow> 'z kcons_scheme \<Rightarrow> ((unit outcome \<times> nat) \<times> 'z kcons_scheme) option" where
  "uartwrite_loop buf i s =
     (if i < length buf
      then if tx_busy s \<noteq> 0
           then do { (ie, s) \<leftarrow> sleep_enter ChTx TxLock s; Some ((Asleep ie, i), s) }
           else let s = WriteTHR (buf ! i) s in uartwrite_loop buf (i + 1) (s\<lparr>tx_busy := 1\<rparr>)
      else do { s \<leftarrow> release TxLock s; Some ((Done (), i), s) })"
  by pat_completeness auto
termination
  by (relation "measure (\<lambda>(buf, i, s). length buf - i)") auto

declare uartwrite_loop.simps [simp del]

definition uartwrite :: "u8 list \<Rightarrow> 'z kcons_scheme \<Rightarrow> ((unit outcome \<times> nat) \<times> 'z kcons_scheme) option" where
  "uartwrite buf s = do { s \<leftarrow> acquire TxLock s; uartwrite_loop buf 0 s }"

definition uartwrite_resume :: "u8 list \<Rightarrow> nat \<Rightarrow> bool \<Rightarrow> 'z kcons_scheme \<Rightarrow> ((unit outcome \<times> nat) \<times> 'z kcons_scheme) option" where
  "uartwrite_resume buf i ie s = do { s \<leftarrow> sleep_resume TxLock ie s; uartwrite_loop buf i s }"

text \<open>After a panic the code loops for ever; otherwise it waits for the transmitter to become idle.\<close>

definition uartputc_sync :: "int \<Rightarrow> 'z kcons_scheme \<Rightarrow> 'z kcons_scheme option" where
  "uartputc_sync c s =
     do { let s = (if panicking s = 0 then s\<lparr>lk := push_off (lk s)\<rparr> else s);
          if panicked s \<noteq> 0 then None
          else do { let s = WriteTHR (word_of_int c) s;
                    if panicking s = 0 then do { l \<leftarrow> pop_off (lk s); Some (s\<lparr>lk := l\<rparr>) } else Some s } }"

definition uartgetc :: "'z kcons_scheme \<Rightarrow> int \<times> 'z kcons_scheme" where
  "uartgetc s = (case uart_rx s of [] \<Rightarrow> (- 1, s) | c # cs \<Rightarrow> (uint c, s\<lparr>uart_rx := cs\<rparr>))"

section \<open>One character\<close>

definition consputc :: "int \<Rightarrow> 'z kcons_scheme \<Rightarrow> 'z kcons_scheme option" where
  "consputc c s =
     (if c = BACKSPACE
      then do { s \<leftarrow> uartputc_sync 8 s; s \<leftarrow> uartputc_sync 32 s; uartputc_sync 8 s }
      else uartputc_sync c s)"

end
