(* ===== verification/Printf.thy ===== *)
theory Printf
  imports Uart
begin

text \<open>
  \<^verbatim>\<open>kernel/printf.c\<close> and \<^verbatim>\<open>procdump\<close>: formatted output on the console. A string is a list of bytes that
  ends with a NUL; reading past its end, a missing argument and a store past the end of \<^verbatim>\<open>buf\<close> are
  \<open>None\<close>.
\<close>

definition chars :: "string \<Rightarrow> u8 list" where
  "chars t = map (\<lambda>c. of_nat (of_char c)) t"

definition cstring :: "string \<Rightarrow> u8 list" where
  "cstring t = chars t @ [0]"

section \<open>Numbers\<close>

definition digit :: "u64 \<Rightarrow> u8" where
  "digit d = (if d < 10 then 48 + ucast d else 87 + ucast d)"

text \<open>The loop that fills \<^verbatim>\<open>buf\<close>, of which \<open>n\<close> bytes are left; the least significant digit comes first.\<close>

fun fill_digits :: "nat \<Rightarrow> u64 \<Rightarrow> u64 \<Rightarrow> u8 list option" where
  "fill_digits 0 x base = None"
| "fill_digits (Suc n) x base =
     (if x div base = 0 then Some [digit (x mod base)]
      else map_option ((#) (digit (x mod base))) (fill_digits n (x div base) base))"

definition printint_buf :: "u64 \<Rightarrow> u64 \<Rightarrow> bool \<Rightarrow> u8 list option" where
  "printint_buf xx base sign =
     (let neg = (sign \<and> sint xx < 0);
          x = (if neg then - xx else xx)
      in do { buf \<leftarrow> fill_digits 20 x base;
              if neg then if length buf < 20 then Some (buf @ [45]) else None
              else Some buf })"

definition putchars :: "u8 list \<Rightarrow> 'z kcons_scheme \<Rightarrow> 'z kcons_scheme option" where
  "putchars cs s = for_each cs (\<lambda>c. consputc (uint c)) s"

definition printint :: "u64 \<Rightarrow> u64 \<Rightarrow> bool \<Rightarrow> 'z kcons_scheme \<Rightarrow> 'z kcons_scheme option" where
  "printint xx base sign s = do { buf \<leftarrow> printint_buf xx base sign; putchars (rev buf) s }"

definition printptr :: "u64 \<Rightarrow> 'z kcons_scheme \<Rightarrow> 'z kcons_scheme option" where
  "printptr x s =
     do { s \<leftarrow> consputc 48 s;
          s \<leftarrow> consputc 120 s;
          for_each [0..<16] (\<lambda>i. consputc (uint (digit (drop_bit 60 (push_bit (4 * i) x))))) s }"

section \<open>Format strings\<close>

text \<open>
  A conversion: a number with the width of its argument, its base and its sign, or one of the others.
  \<open>conversion\<close> is the cascade of tests on the three bytes after the percent sign; its second result is
  how many of the bytes after the first belong to the conversion.
\<close>

datatype conv = Num bool u64 bool | Ptr | Chr | Str | Percent | End | Unknown

definition conversion :: "u8 \<Rightarrow> u8 \<Rightarrow> u8 \<Rightarrow> conv \<times> nat" where
  "conversion c0 c1 c2 =
     (if c0 = 100 then (Num False 10 True, 0)
      else if c0 = 108 \<and> c1 = 100 then (Num True 10 True, 1)
      else if c0 = 108 \<and> c1 = 108 \<and> c2 = 100 then (Num True 10 True, 2)
      else if c0 = 117 then (Num False 10 False, 0)
      else if c0 = 108 \<and> c1 = 117 then (Num True 10 False, 1)
      else if c0 = 108 \<and> c1 = 108 \<and> c2 = 117 then (Num True 10 False, 2)
      else if c0 = 120 then (Num False 16 False, 0)
      else if c0 = 108 \<and> c1 = 120 then (Num True 16 False, 1)
      else if c0 = 108 \<and> c1 = 108 \<and> c2 = 120 then (Num True 16 False, 2)
      else if c0 = 112 then (Ptr, 0)
      else if c0 = 99 then (Chr, 0)
      else if c0 = 115 then (Str, 0)
      else if c0 = 37 then (Percent, 0)
      else if c0 = 0 then (End, 0)
      else (Unknown, 0))"

text \<open>An argument is the 64-bit register or stack slot it is passed in, or a pointer to a string.\<close>

datatype vararg = Word u64 | Pointer "u8 list option"

fun take_word :: "vararg list \<Rightarrow> (u64 \<times> vararg list) option" where
  "take_word (Word w # ap) = Some (w, ap)"
| "take_word _ = None"

fun take_pointer :: "vararg list \<Rightarrow> (u8 list option \<times> vararg list) option" where
  "take_pointer (Pointer p # ap) = Some (p, ap)"
| "take_pointer _ = None"

text \<open>What a narrow or wide argument is as the \<^verbatim>\<open>long long\<close> that \<^verbatim>\<open>printint\<close> takes.\<close>

definition arg_value :: "bool \<Rightarrow> bool \<Rightarrow> u64 \<Rightarrow> u64" where
  "arg_value wide sign w =
     (if wide then w else if sign then word_of_int (sint (ucast w :: u32)) else ucast (ucast w :: u32))"

fun put_string :: "u8 list \<Rightarrow> 'z kcons_scheme \<Rightarrow> 'z kcons_scheme option" where
  "put_string [] s = None"
| "put_string (c # cs) s = (if c = 0 then Some s else do { s \<leftarrow> consputc (uint c) s; put_string cs s })"

text \<open>One conversion with the character after the percent sign; the remaining arguments.\<close>

definition do_conv :: "conv \<Rightarrow> u8 \<Rightarrow> vararg list \<Rightarrow> 'z kcons_scheme \<Rightarrow> (vararg list \<times> 'z kcons_scheme) option" where
  "do_conv cv c0 ap s =
     (case cv of
        Num wide base sign \<Rightarrow>
          do { (w, ap) \<leftarrow> take_word ap; s \<leftarrow> printint (arg_value wide sign w) base sign s; Some (ap, s) }
      | Ptr \<Rightarrow> do { (w, ap) \<leftarrow> take_word ap; s \<leftarrow> printptr w s; Some (ap, s) }
      | Chr \<Rightarrow> do { (w, ap) \<leftarrow> take_word ap; s \<leftarrow> consputc (sint (ucast w :: u32)) s; Some (ap, s) }
      | Str \<Rightarrow> do { (p, ap) \<leftarrow> take_pointer ap;
                     s \<leftarrow> put_string (case p of Some t \<Rightarrow> t | None \<Rightarrow> cstring ''(null)'') s;
                     Some (ap, s) }
      | Percent \<Rightarrow> do { s \<leftarrow> consputc 37 s; Some (ap, s) }
      | End \<Rightarrow> Some (ap, s)
      | Unknown \<Rightarrow> do { s \<leftarrow> consputc 37 s; s \<leftarrow> consputc (uint c0) s; Some (ap, s) })"

function printf_loop :: "u8 list \<Rightarrow> vararg list \<Rightarrow> 'z kcons_scheme \<Rightarrow> 'z kcons_scheme option" where
  "printf_loop fmt ap s =
     (case fmt of
        [] \<Rightarrow> None
      | cx # fmt \<Rightarrow>
          if cx = 0 then Some s
          else if cx \<noteq> 37 then do { s \<leftarrow> consputc (uint cx) s; printf_loop fmt ap s }
          else case fmt of
            [] \<Rightarrow> None
          | c0 # fmt \<Rightarrow>
              (let c1 = (if c0 \<noteq> 0 \<and> fmt \<noteq> [] then fmt ! 0 else 0);
                   c2 = (if c1 \<noteq> 0 \<and> length fmt > 1 then fmt ! 1 else 0);
                   (cv, extra) = conversion c0 c1 c2
               in do { (ap, s) \<leftarrow> do_conv cv c0 ap s;
                       if cv = End then Some s else printf_loop (drop extra fmt) ap s }))"
  by pat_completeness auto
termination
  by (relation "measure (\<lambda>(fmt, ap, s). length fmt)") auto

declare printf_loop.simps [simp del]

definition printf :: "u8 list \<Rightarrow> vararg list \<Rightarrow> 'z kcons_scheme \<Rightarrow> 'z kcons_scheme option" where
  "printf fmt ap s =
     do { s \<leftarrow> (if panicking s = 0 then acquire PrLock s else Some s);
          s \<leftarrow> printf_loop fmt ap s;
          if panicking s = 0 then release PrLock s else Some s }"

text \<open>
  \<open>panic\<close> never returns; this is the state in which it loops for ever. A panic of the code is \<open>None\<close>
  in the rest of the development.
\<close>

definition panic :: "u8 list \<Rightarrow> 'z kcons_scheme \<Rightarrow> 'z kcons_scheme option" where
  "panic msg s =
     do { s \<leftarrow> printf (cstring ''panic: '') [] (s\<lparr>panicking := 1\<rparr>);
          s \<leftarrow> printf (chars ''%s'' @ [10, 0]) [Pointer (Some msg)] s;
          Some (s\<lparr>panicked := 1\<rparr>) }"

definition printfinit :: "'z kcons_scheme \<Rightarrow> 'z kcons_scheme" where
  "printfinit s = s\<lparr>lk := initlock PrLock ''pr'' (lk s)\<rparr>"

definition state_name :: "procstate \<Rightarrow> u8 list" where
  "state_name st = cstring (case st of UNUSED \<Rightarrow> ''unused'' | USED \<Rightarrow> ''used'' | SLEEPING \<Rightarrow> ''sleep ''
     | RUNNABLE \<Rightarrow> ''runble'' | RUNNING \<Rightarrow> ''run   '' | ZOMBIE \<Rightarrow> ''zombie'')"

definition procdump :: "'z kcons_scheme \<Rightarrow> 'z kcons_scheme option" where
  "procdump s =
     do { s \<leftarrow> printf [10, 0] [] s;
          for_each [0..<NPROC] (\<lambda>p s.
            let x = procs s ! p in
            if p_state x = UNUSED then Some s
            else do { s \<leftarrow> printf (cstring ''%d %s %s'')
                            [Word (word_of_int (p_pid x)), Pointer (Some (state_name (p_state x))), Pointer (Some (p_name x))] s;
                      printf [10, 0] [] s }) s }"

section \<open>What is printed\<close>

text \<open>The usual notation of a number, most significant digit first.\<close>

function radix :: "nat \<Rightarrow> nat \<Rightarrow> u8 list" where
  "radix b k = (if k < b \<or> b < 2 then [chars ''0123456789abcdef'' ! k] else radix b (k div b) @ [chars ''0123456789abcdef'' ! (k mod b)])"
  by pat_completeness auto
termination
  by (relation "measure snd") (auto simp: div_less_dividend)

declare radix.simps [simp del]

definition decimal :: "int \<Rightarrow> u8 list" where
  "decimal n = (if n < 0 then 45 # radix 10 (nat (- n)) else radix 10 (nat n))"

lemma digit_char:
  assumes "k < 16"
  shows "digit (of_nat k) = chars ''0123456789abcdef'' ! k"
proof -
  have "\<forall>i < 16. digit (of_nat i) = chars ''0123456789abcdef'' ! i" by code_simp
  then show ?thesis using assms by blast
qed

lemma fill_digits_radix:
  assumes "unat x < unat b ^ n" and "2 \<le> unat b" and "unat b \<le> 16" and "0 < n"
  shows "fill_digits n x b = Some (rev (radix (unat b) (unat x)))"
  using assms
proof (induction n arbitrary: x)
  case (Suc n)
  have dig: "digit (x mod b) = chars ''0123456789abcdef'' ! (unat x mod unat b)"
  proof -
    have "unat x mod unat b < 16" using Suc.prems using mod_less_divisor [of "unat b" "unat x"] by linarith
    moreover have "x mod b = of_nat (unat x mod unat b)" by (simp flip: unat_mod)
    ultimately show ?thesis using digit_char by simp
  qed
  have z: "x div b = 0 \<longleftrightarrow> unat x < unat b" using Suc.prems by (auto simp: unat_eq_0 [symmetric] unat_div div_eq_0_iff)
  show ?case
  proof (cases "unat x < unat b")
    case True
    then show ?thesis using z dig by (simp add: radix.simps [of "unat b" "unat x"])
  next
    case False
    then have n: "0 < n" using Suc.prems(1) by (cases n) auto
    have "unat (x div b) < unat b ^ n" using Suc.prems by (simp add: unat_div less_mult_imp_div_less mult.commute)
    then have "fill_digits n (x div b) b = Some (rev (radix (unat b) (unat x div unat b)))"
      using Suc.IH [of "x div b"] Suc.prems n by (simp add: unat_div)
    then show ?thesis using z dig False Suc.prems by (simp add: radix.simps [of "unat b" "unat x"])
  qed
qed simp

lemma length_radix:
  assumes "k < b ^ n" and "2 \<le> b" and "0 < n"
  shows "length (radix b k) \<le> n"
  using assms
proof (induction n arbitrary: k)
  case (Suc n)
  show ?case
  proof (cases "k < b")
    case False
    then have n: "0 < n" using Suc.prems(1) by (cases n) auto
    have "k div b < b ^ n" using Suc.prems by (simp add: less_mult_imp_div_less mult.commute)
    then show ?thesis using Suc.IH [of "k div b"] Suc.prems n False by (simp add: radix.simps [of b k])
  qed (simp add: radix.simps [of b k])
qed simp

lemma negate_sint:
  assumes "sint (x :: u64) < 0"
  shows "unat (- x) = nat (- sint x)"
proof -
  have "- x = word_of_int (- sint x)" by simp
  moreover have "- sint x \<le> 2 ^ 63" using sint_ge [of x] by simp
  ultimately have "uint (- x) = - sint x" using assms by (simp only: uint_word_of_int) (simp add: take_bit_int_eq_self)
  then show ?thesis by (simp only: unat_eq_nat_uint)
qed

lemma nonneg_sint:
  assumes "0 \<le> sint (x :: u64)"
  shows "unat x = nat (sint x)"
proof -
  have "sint x < 2 ^ 63" using sint_lt [of x] by simp
  then have "uint (word_of_int (sint x) :: u64) = sint x" using assms by (simp only: uint_word_of_int) (simp add: take_bit_int_eq_self)
  then have "uint x = sint x" by simp
  then show ?thesis by (simp only: unat_eq_nat_uint)
qed

lemma printint_buf_decimal: "printint_buf xx 10 True = Some (rev (decimal (sint xx)))"
proof (cases "sint xx < 0")
  case True
  have b: "unat (- xx) < 10 ^ 19" using sint_ge [of xx] unfolding negate_sint [OF True] by simp
  have "fill_digits 20 (- xx) 10 = Some (rev (radix 10 (unat (- xx))))" using fill_digits_radix [of "- xx" 10 20] b by simp
  moreover have "length (radix 10 (unat (- xx))) \<le> 19" using length_radix [OF b] by simp
  ultimately show ?thesis using True by (simp add: printint_buf_def decimal_def negate_sint)
next
  case False
  have "unat xx < 10 ^ 20" using unat64_bound [of xx] by simp
  then show ?thesis using False fill_digits_radix [of xx 10 20] by (simp add: printint_buf_def decimal_def nonneg_sint)
qed

lemma printint_buf_unsigned:
  assumes "b = 10 \<or> b = 16"
  shows "printint_buf xx b False = Some (rev (radix (unat b) (unat xx)))"
proof -
  have "unat xx < unat b ^ 20" using unat64_bound [of xx] assms by auto
  then show ?thesis using assms fill_digits_radix [of xx b 20] by (auto simp: printint_buf_def)
qed

text \<open>
  C28: \<^verbatim>\<open>printint\<close> prints the usual notation of every 64-bit number, the most negative one and the largest
  unsigned one included: in decimal with a sign, and in decimal and hexadecimal without. Its buffer of
  20 bytes is never overrun.
\<close>

theorem printint_notation:
  "printint xx 10 True s = putchars (decimal (sint xx)) s \<and>
   printint xx 10 False s = putchars (radix 10 (unat xx)) s \<and>
   printint xx 16 False s = putchars (radix 16 (unat xx)) s"
  by (simp add: printint_def printint_buf_decimal printint_buf_unsigned)

end
