(* ===== verification/Console.thy ===== *)
theory Console
  imports Printf
begin

text \<open>
  \<^verbatim>\<open>kernel/console.c\<close> and the interrupt handler of \<^verbatim>\<open>kernel/uart.c\<close>: reading and writing the console, and
  the line discipline that an arriving character runs through.
\<close>

section \<open>Writing and reading\<close>

text \<open>
  \<^verbatim>\<open>consolewrite\<close> sends batches of 32 bytes. While it sleeps inside \<^verbatim>\<open>uartwrite\<close> its locals are the
  batch, the index in it and \<open>i\<close>.
\<close>

function consolewrite_loop ::
  "bool \<Rightarrow> u64 \<Rightarrow> int \<Rightarrow> int \<Rightarrow> 'z kcons_scheme \<Rightarrow> ((int outcome \<times> (u8 list \<times> nat \<times> int)) \<times> 'z kcons_scheme) option" where
  "consolewrite_loop user_src src n i s =
     (if i < n
      then do { ((c, bs), s) \<leftarrow> either_copyin user_src (src + word_of_int i) (nat (min 32 (n - i))) s;
                if c = - 1 then Some ((Done i, ([], 0, i)), s)
                else do { ((r, j), s) \<leftarrow> uartwrite bs s;
                          case r of
                            Asleep ie \<Rightarrow> Some ((Asleep ie, (bs, j, i)), s)
                          | Done _ \<Rightarrow> consolewrite_loop user_src src n (i + min 32 (n - i)) s } }
      else Some ((Done i, ([], 0, i)), s))"
  by pat_completeness auto
termination
  by (relation "measure (\<lambda>(u, src, n, i, s). nat (n - i))") auto

declare consolewrite_loop.simps [simp del]

definition consolewrite ::
  "bool \<Rightarrow> u64 \<Rightarrow> int \<Rightarrow> 'z kcons_scheme \<Rightarrow> ((int outcome \<times> (u8 list \<times> nat \<times> int)) \<times> 'z kcons_scheme) option" where
  "consolewrite user_src src n s = consolewrite_loop user_src src n 0 s"

definition consolewrite_resume ::
  "bool \<Rightarrow> u64 \<Rightarrow> int \<Rightarrow> (u8 list \<times> nat \<times> int) \<Rightarrow> bool \<Rightarrow> 'z kcons_scheme \<Rightarrow>
     ((int outcome \<times> (u8 list \<times> nat \<times> int)) \<times> 'z kcons_scheme) option" where
  "consolewrite_resume user_src src n l ie s =
     (case l of (bs, j, i) \<Rightarrow>
        do { ((r, j), s) \<leftarrow> uartwrite_resume bs j ie s;
             case r of
               Asleep ie \<Rightarrow> Some ((Asleep ie, (bs, j, i)), s)
             | Done _ \<Rightarrow> consolewrite_loop user_src src n (i + int (length bs)) s })"

text \<open>
  \<^verbatim>\<open>consoleread\<close> from the head of its loop, with the lock held; \<open>dst\<close> and \<open>n\<close> are kept while it sleeps.
\<close>

function consoleread_loop ::
  "bool \<Rightarrow> int \<Rightarrow> u64 \<Rightarrow> int \<Rightarrow> 'z kcons_scheme \<Rightarrow> ((int outcome \<times> (u64 \<times> int)) \<times> 'z kcons_scheme) option" where
  "consoleread_loop user_dst target dst n s =
     (if n > 0
      then if cons_r s = cons_w s
           then do { p \<leftarrow> myproc s;
                     (k, s) \<leftarrow> killed p s;
                     if k \<noteq> 0 then do { s \<leftarrow> release ConsLock s; Some ((Done (- 1), (dst, n)), s) }
                     else do { (ie, s) \<leftarrow> sleep_enter ChConsR ConsLock s; Some ((Asleep ie, (dst, n)), s) } }
           else do { let c = uint (cons_buf s ! (unat (cons_r s) mod INPUT_BUF_SIZE));
                     let s = s\<lparr>cons_r := cons_r s + 1\<rparr>;
                     if c = ctrl 68
                     then do { let s = (if n < target then s\<lparr>cons_r := cons_r s - 1\<rparr> else s);
                               s \<leftarrow> release ConsLock s;
                               Some ((Done (target - n), (dst, n)), s) }
                     else do { (e, s) \<leftarrow> either_copyout user_dst dst [word_of_int c] s;
                               if e = - 1 then do { s \<leftarrow> release ConsLock s; Some ((Done (target - n), (dst, n)), s) }
                               else if c = 10
                               then do { s \<leftarrow> release ConsLock s; Some ((Done (target - (n - 1)), (dst + 1, n - 1)), s) }
                               else consoleread_loop user_dst target (dst + 1) (n - 1) s } }
      else do { s \<leftarrow> release ConsLock s; Some ((Done (target - n), (dst, n)), s) })"
  by pat_completeness auto
termination
  by (relation "measure (\<lambda>(u, target, dst, n, s). nat n)") auto

declare consoleread_loop.simps [simp del]

definition consoleread ::
  "bool \<Rightarrow> u64 \<Rightarrow> int \<Rightarrow> 'z kcons_scheme \<Rightarrow> ((int outcome \<times> (u64 \<times> int)) \<times> 'z kcons_scheme) option" where
  "consoleread user_dst dst n s = do { s \<leftarrow> acquire ConsLock s; consoleread_loop user_dst n dst n s }"

definition consoleread_resume ::
  "bool \<Rightarrow> int \<Rightarrow> (u64 \<times> int) \<Rightarrow> bool \<Rightarrow> 'z kcons_scheme \<Rightarrow> ((int outcome \<times> (u64 \<times> int)) \<times> 'z kcons_scheme) option" where
  "consoleread_resume user_dst target l ie s =
     (case l of (dst, n) \<Rightarrow> do { s \<leftarrow> sleep_resume ConsLock ie s; consoleread_loop user_dst target dst n s })"

text \<open>The loop that erases the line being edited.\<close>

lemma uartputc_sync_fields:
  "uartputc_sync c s = Some s' \<Longrightarrow> cons_e s' = cons_e s \<and> cons_w s' = cons_w s \<and> cons_r s' = cons_r s \<and> cons_buf s' = cons_buf s"
  by (auto simp: uartputc_sync_def WriteTHR_def Let_def split: if_splits bind_splits)

lemma consputc_fields:
  assumes "consputc c s = Some s'"
  shows "cons_e s' = cons_e s \<and> cons_w s' = cons_w s \<and> cons_r s' = cons_r s \<and> cons_buf s' = cons_buf s"
proof (cases "c = BACKSPACE")
  case True
  then obtain s1 s2 where "uartputc_sync 8 s = Some s1" "uartputc_sync 32 s1 = Some s2" "uartputc_sync 8 s2 = Some s'"
    using assms by (auto simp: consputc_def split: bind_splits)
  then show ?thesis using uartputc_sync_fields by metis
next
  case False
  then show ?thesis using assms uartputc_sync_fields by (simp add: consputc_def)
qed

function kill_line :: "'z kcons_scheme \<Rightarrow> 'z kcons_scheme option" where
  "kill_line s =
     (if cons_e s \<noteq> cons_w s \<and> cons_buf s ! (unat (cons_e s - 1) mod INPUT_BUF_SIZE) \<noteq> 10
      then do { s' \<leftarrow> consputc BACKSPACE (s\<lparr>cons_e := cons_e s - 1\<rparr>); kill_line s' }
      else Some s)"
  by pat_completeness auto
termination
proof (relation "measure (\<lambda>s. unat (cons_e s - cons_w s))")
  fix s s' :: "'z kcons_scheme"
  assume ne: "cons_e s \<noteq> cons_w s \<and> cons_buf s ! (unat (cons_e s - 1) mod INPUT_BUF_SIZE) \<noteq> 10"
    and "consputc BACKSPACE (s\<lparr>cons_e := cons_e s - 1\<rparr>) = Some s'"
  then have "cons_e s' = cons_e s - 1" "cons_w s' = cons_w s" using consputc_fields by fastforce+
  then have "cons_e s' - cons_w s' = (cons_e s - cons_w s) - 1" by simp
  moreover have "cons_e s - cons_w s \<noteq> 0" using ne by simp
  ultimately show "(s', s) \<in> measure (\<lambda>s. unat (cons_e s - cons_w s))" using measure_unat [of "cons_e s - cons_w s"] by simp
qed simp

declare kill_line.simps [simp del]

definition consoleintr :: "int \<Rightarrow> 'z kcons_scheme \<Rightarrow> 'z kcons_scheme option" where
  "consoleintr c s =
     do { s \<leftarrow> acquire ConsLock s;
          s \<leftarrow> (if c = ctrl 80 then procdump s
                else if c = ctrl 85 then kill_line s
                else if c = ctrl 72 \<or> c = 0x7F
                then if cons_e s \<noteq> cons_w s then consputc BACKSPACE (s\<lparr>cons_e := cons_e s - 1\<rparr>) else Some s
                else if c \<noteq> 0 \<and> unat (cons_e s - cons_r s) < INPUT_BUF_SIZE
                then do { let c = (if c = 13 then 10 else c);
                          s \<leftarrow> consputc c s;
                          let s = s\<lparr>cons_buf := (cons_buf s)[unat (cons_e s) mod INPUT_BUF_SIZE := word_of_int c], cons_e := cons_e s + 1\<rparr>;
                          if c = 10 \<or> c = ctrl 68 \<or> unat (cons_e s - cons_r s) = INPUT_BUF_SIZE
                          then wakeup ChConsR (s\<lparr>cons_w := cons_e s\<rparr>)
                          else Some s }
                else Some s);
          release ConsLock s }"

text \<open>The bytes waiting are read one by one, until none is left.\<close>

definition uartintr :: "'z kcons_scheme \<Rightarrow> 'z kcons_scheme option" where
  "uartintr s =
     do { s \<leftarrow> acquire TxLock s;
          s \<leftarrow> (if uart_idle s then wakeup ChTx (s\<lparr>tx_busy := 0\<rparr>) else Some s);
          s \<leftarrow> release TxLock s;
          for_each (uart_rx s) (\<lambda>_ s. let (c, s) = uartgetc s in consoleintr c s) s }"

end
