(* ===== verification/File.thy ===== *)
theory File
  imports Console
begin

text \<open>
  \<^verbatim>\<open>kernel/file.c\<close>, the allocation of pipes in \<^verbatim>\<open>kernel/pipe.c\<close> and the initialisation of the console:
  the table of open files. A pointer to a file is its index in the table, a null pointer is \<open>None\<close>.
\<close>

section \<open>State\<close>

datatype filetype = FD_NONE | FD_PIPE | FD_INODE | FD_DEVICE

record filerec =
  f_type :: filetype
  f_ref :: int
  f_readable :: int
  f_writable :: int
  f_pipe :: u64
  f_ip :: "nat option"
  f_off :: u32
  f_major :: u16

text \<open>An entry of \<^verbatim>\<open>devsw\<close>: its two function pointers are null or those of the console.\<close>

datatype devfns = NoDevice | ConsoleDevice

record kfile = kcons +
  ftable :: "filerec list"
  devsw :: "devfns list"

definition NFILE :: nat where "NFILE = 100"
definition NDEV :: nat where "NDEV = 10"
definition CONSOLE :: nat where "CONSOLE = 1"

definition upd_file :: "nat \<Rightarrow> (filerec \<Rightarrow> filerec) \<Rightarrow> 'z kfile_scheme \<Rightarrow> 'z kfile_scheme" where
  "upd_file f g s = s\<lparr>ftable := (ftable s)[f := g (ftable s ! f)]\<rparr>"

definition consoleinit :: "'z kfile_scheme \<Rightarrow> 'z kfile_scheme" where
  "consoleinit s =
     (let s = s\<lparr>lk := initlock ConsLock ''cons'' (lk s)\<rparr>;
          s = uartinit s
      in s\<lparr>devsw := (devsw s)[CONSOLE := ConsoleDevice]\<rparr>)"

section \<open>Operations\<close>

definition fileinit :: "'z kfile_scheme \<Rightarrow> 'z kfile_scheme" where
  "fileinit s = s\<lparr>lk := initlock FtableLock ''ftable'' (lk s)\<rparr>"

definition filealloc :: "'z kfile_scheme \<Rightarrow> (nat option \<times> 'z kfile_scheme) option" where
  "filealloc s =
     do { s \<leftarrow> acquire FtableLock s;
          case find (\<lambda>f. f_ref (ftable s ! f) = 0) [0..<NFILE] of
            Some f \<Rightarrow> do { s \<leftarrow> release FtableLock (upd_file f (\<lambda>x. x\<lparr>f_ref := 1\<rparr>) s); Some (Some f, s) }
          | None \<Rightarrow> do { s \<leftarrow> release FtableLock s; Some (None, s) } }"

definition filedup :: "nat \<Rightarrow> 'z kfile_scheme \<Rightarrow> 'z kfile_scheme option" where
  "filedup f s =
     do { s \<leftarrow> acquire FtableLock s;
          if f_ref (ftable s ! f) < 1 then None
          else release FtableLock (upd_file f (\<lambda>x. x\<lparr>f_ref := f_ref x + 1\<rparr>) s) }"

definition fileclose :: "nat \<Rightarrow> 'z kfile_scheme \<Rightarrow> 'z kfile_scheme option" where
  "fileclose f s =
     do { s \<leftarrow> acquire FtableLock s;
          if f_ref (ftable s ! f) < 1 then None
          else do { let s = upd_file f (\<lambda>x. x\<lparr>f_ref := f_ref x - 1\<rparr>) s;
                    if f_ref (ftable s ! f) > 0 then release FtableLock s
                    else do { let ff = ftable s ! f;
                              s \<leftarrow> release FtableLock (upd_file f (\<lambda>x. x\<lparr>f_ref := 0, f_type := FD_NONE\<rparr>) s);
                              if f_type ff = FD_PIPE then pipeclose (f_pipe ff) (f_writable ff \<noteq> 0) s
                              else if f_type ff = FD_INODE \<or> f_type ff = FD_DEVICE
                              then do { ip \<leftarrow> f_ip ff;
                                        s \<leftarrow> begin_op_now s;
                                        s \<leftarrow> iput ip s;
                                        end_op s }
                              else Some s } } }"

text \<open>\<^verbatim>\<open>struct stat\<close> is 24 bytes: four bytes of padding follow \<^verbatim>\<open>nlink\<close>; \<open>junk\<close> is what they held.\<close>

definition stat_bytes :: "u8 list \<Rightarrow> stat \<Rightarrow> u8 list" where
  "stat_bytes junk st = bytes_of_int (st_dev st) @ bytes_of_word 4 (st_ino st) @ bytes_of_word 2 (st_type st)
     @ bytes_of_word 2 (st_nlink st) @ take 4 junk @ bytes_of_word 8 (st_size st)"

definition filestat :: "u8 list \<Rightarrow> nat \<Rightarrow> u64 \<Rightarrow> 'z kfile_scheme \<Rightarrow> (int \<times> 'z kfile_scheme) option" where
  "filestat junk f addr s =
     do { p \<leftarrow> myproc s;
          if f_type (ftable s ! f) = FD_INODE \<or> f_type (ftable s ! f) = FD_DEVICE
          then do { ip \<leftarrow> f_ip (ftable s ! f);
                    s \<leftarrow> ilock ip s;
                    let st = stati ip s;
                    s \<leftarrow> iunlock ip s;
                    (c, s) \<leftarrow> copyout (p_pagetable (procs s ! p)) addr (stat_bytes junk st) s;
                    Some (if c < 0 then - 1 else 0, s) }
          else Some (- 1, s) }"

text \<open>What a read or a write keeps while it sleeps in the pipe or in the console.\<close>

datatype suspended = NoLocals | PipeLocals nat | ConsoleReadLocals "u64 \<times> int" | ConsoleWriteLocals "u8 list \<times> nat \<times> int"

definition fileread :: "nat \<Rightarrow> u64 \<Rightarrow> int \<Rightarrow> 'z kfile_scheme \<Rightarrow> ((int outcome \<times> suspended) \<times> 'z kfile_scheme) option" where
  "fileread f addr n s =
     (let x = ftable s ! f in
      if f_readable x = 0 then Some ((Done (- 1), NoLocals), s)
      else case f_type x of
        FD_PIPE \<Rightarrow> do { (r, s) \<leftarrow> piperead (f_pipe x) addr n s; Some ((r, NoLocals), s) }
      | FD_DEVICE \<Rightarrow>
          (if sint (f_major x) < 0 \<or> sint (f_major x) \<ge> int NDEV then Some ((Done (- 1), NoLocals), s)
           else case devsw s ! nat (sint (f_major x)) of
             NoDevice \<Rightarrow> Some ((Done (- 1), NoLocals), s)
           | ConsoleDevice \<Rightarrow> do { ((r, l), s) \<leftarrow> consoleread True addr n s; Some ((r, ConsoleReadLocals l), s) })
      | FD_INODE \<Rightarrow>
          do { ip \<leftarrow> f_ip x;
               s \<leftarrow> ilock ip s;
               ((r, _), s) \<leftarrow> readi ip (ToUser addr) (f_off (ftable s ! f)) (word_of_int n) s;
               let s = (if r > 0 then upd_file f (\<lambda>x. x\<lparr>f_off := f_off x + word_of_int r\<rparr>) s else s);
               s \<leftarrow> iunlock ip s;
               Some ((Done r, NoLocals), s) }
      | FD_NONE \<Rightarrow> None)"

text \<open>A write to a file is split so that each part fits in a transaction.\<close>

definition WRITEMAX :: int where
  "WRITEMAX = int (((MAXOPBLOCKS - 1 - 1 - 2) div 2) * BSIZE)"

function filewrite_loop :: "nat \<Rightarrow> nat \<Rightarrow> u64 \<Rightarrow> int \<Rightarrow> int \<Rightarrow> 'z kfile_scheme \<Rightarrow> (int \<times> 'z kfile_scheme) option" where
  "filewrite_loop f ip addr n i s =
     (if i < n
      then do { let n1 = min (n - i) WRITEMAX;
                s \<leftarrow> begin_op_now s;
                s \<leftarrow> ilock ip s;
                (r, s) \<leftarrow> writei ip (FromUser (addr + word_of_int i)) (f_off (ftable s ! f)) (word_of_int n1) s;
                let s = (if r > 0 then upd_file f (\<lambda>x. x\<lparr>f_off := f_off x + word_of_int r\<rparr>) s else s);
                s \<leftarrow> iunlock ip s;
                s \<leftarrow> end_op s;
                if r \<noteq> n1 then Some (i, s) else filewrite_loop f ip addr n (i + min (n - i) WRITEMAX) s }
      else Some (i, s))"
  by pat_completeness auto
termination
  by (relation "measure (\<lambda>(f, ip, addr, n, i, s). nat (n - i))") (auto simp: WRITEMAX_def MAXOPBLOCKS_def BSIZE_def)

declare filewrite_loop.simps [simp del]

definition filewrite :: "nat \<Rightarrow> u64 \<Rightarrow> int \<Rightarrow> 'z kfile_scheme \<Rightarrow> ((int outcome \<times> suspended) \<times> 'z kfile_scheme) option" where
  "filewrite f addr n s =
     (let x = ftable s ! f in
      if f_writable x = 0 then Some ((Done (- 1), NoLocals), s)
      else case f_type x of
        FD_PIPE \<Rightarrow> do { ((r, i), s) \<leftarrow> pipewrite (f_pipe x) addr n s; Some ((r, PipeLocals i), s) }
      | FD_DEVICE \<Rightarrow>
          (if sint (f_major x) < 0 \<or> sint (f_major x) \<ge> int NDEV then Some ((Done (- 1), NoLocals), s)
           else case devsw s ! nat (sint (f_major x)) of
             NoDevice \<Rightarrow> Some ((Done (- 1), NoLocals), s)
           | ConsoleDevice \<Rightarrow> do { ((r, l), s) \<leftarrow> consolewrite True addr n s; Some ((r, ConsoleWriteLocals l), s) })
      | FD_INODE \<Rightarrow>
          do { ip \<leftarrow> f_ip x;
               (i, s) \<leftarrow> filewrite_loop f ip addr n 0 s;
               Some ((Done (if i = n then n else - 1), NoLocals), s) }
      | FD_NONE \<Rightarrow> None)"

text \<open>\<^verbatim>\<open>pipealloc\<close> returns the two files, unless it fails.\<close>

definition pipealloc_bad :: "nat option \<Rightarrow> nat option \<Rightarrow> 'z kfile_scheme \<Rightarrow> 'z kfile_scheme option" where
  "pipealloc_bad f0 f1 s =
     do { s \<leftarrow> (case f0 of Some f \<Rightarrow> fileclose f s | None \<Rightarrow> Some s);
          case f1 of Some f \<Rightarrow> fileclose f s | None \<Rightarrow> Some s }"

definition pipealloc :: "'z kfile_scheme \<Rightarrow> ((nat \<times> nat) option \<times> 'z kfile_scheme) option" where
  "pipealloc s =
     do { (f0, s) \<leftarrow> filealloc s;
          (f1, s) \<leftarrow> (if f0 = None then Some (None, s) else filealloc s);
          case (f0, f1) of
            (Some a, Some b) \<Rightarrow>
              do { (pi, s) \<leftarrow> kalloc s;
                   if pi = 0 then do { s \<leftarrow> pipealloc_bad f0 f1 s; Some (None, s) }
                   else do { let s = upd_pipe pi (\<lambda>x. x\<lparr>pi_readopen := 1, pi_writeopen := 1, pi_nwrite := 0, pi_nread := 0\<rparr>) s;
                             let s = s\<lparr>lk := initlock (PipeLock pi) ''pipe'' (lk s)\<rparr>;
                             let s = upd_file a (\<lambda>x. x\<lparr>f_type := FD_PIPE, f_readable := 1, f_writable := 0, f_pipe := pi\<rparr>) s;
                             let s = upd_file b (\<lambda>x. x\<lparr>f_type := FD_PIPE, f_readable := 0, f_writable := 1, f_pipe := pi\<rparr>) s;
                             Some (Some (a, b), s) } }
          | _ \<Rightarrow> do { s \<leftarrow> pipealloc_bad f0 f1 s; Some (None, s) } }"

end
