(* ===== verification/Sysfile.thy ===== *)
theory Sysfile
  imports File
begin

text \<open>
  \<^verbatim>\<open>kernel/sysfile.c\<close>: the system calls on files, and the part of \<^verbatim>\<open>kernel/proc.c\<close> that handles open
  files and directories: fork, exit and the first process.
\<close>

section \<open>Descriptors\<close>

text \<open>\<open>argfd\<close> is the descriptor and the file, \<open>Some None\<close> for the error \<^verbatim>\<open>-1\<close>.\<close>

definition argfd :: "nat \<Rightarrow> 'z kfile_scheme \<Rightarrow> (nat \<times> nat) option option" where
  "argfd n s =
     do { fd \<leftarrow> argint n s;
          p \<leftarrow> myproc s;
          Some (if fd < 0 \<or> fd \<ge> int NOFILE then None
                else case p_ofile (procs s ! p) ! nat fd of None \<Rightarrow> None | Some f \<Rightarrow> Some (nat fd, f)) }"

definition fdalloc :: "nat \<Rightarrow> 'z kfile_scheme \<Rightarrow> (int \<times> 'z kfile_scheme) option" where
  "fdalloc f s =
     do { p \<leftarrow> myproc s;
          case find (\<lambda>fd. p_ofile (procs s ! p) ! fd = None) [0..<NOFILE] of
            Some fd \<Rightarrow> Some (int fd, upd_proc p (\<lambda>x. x\<lparr>p_ofile := (p_ofile x)[fd := Some f]\<rparr>) s)
          | None \<Rightarrow> Some (- 1, s) }"

definition clear_fd :: "nat \<Rightarrow> int \<Rightarrow> 'z kproc_scheme \<Rightarrow> 'z kproc_scheme" where
  "clear_fd p fd s = upd_proc p (\<lambda>x. x\<lparr>p_ofile := (p_ofile x)[nat fd := None]\<rparr>) s"

definition sys_dup :: "'z kfile_scheme \<Rightarrow> (u64 \<times> 'z kfile_scheme) option" where
  "sys_dup s =
     do { a \<leftarrow> argfd 0 s;
          case a of
            None \<Rightarrow> Some (- 1, s)
          | Some (_, f) \<Rightarrow>
              do { (fd, s) \<leftarrow> fdalloc f s;
                   if fd < 0 then Some (- 1, s)
                   else do { s \<leftarrow> filedup f s; Some (word_of_int fd, s) } } }"

definition ret_suspended ::
  "((int outcome \<times> suspended) \<times> 'z kfile_scheme) option \<Rightarrow> ((u64 outcome \<times> suspended) \<times> 'z kfile_scheme) option" where
  "ret_suspended x = do { ((r, l), s) \<leftarrow> x; Some ((map_outcome word_of_int r, l), s) }"

definition sys_read :: "'z kfile_scheme \<Rightarrow> ((u64 outcome \<times> suspended) \<times> 'z kfile_scheme) option" where
  "sys_read s =
     do { p \<leftarrow> argaddr 1 s;
          n \<leftarrow> argint 2 s;
          a \<leftarrow> argfd 0 s;
          case a of
            None \<Rightarrow> Some ((Done (- 1), NoLocals), s)
          | Some (_, f) \<Rightarrow> do { s \<leftarrow> increment_readcount s; ret_suspended (fileread f p n s) } }"

definition sys_write :: "'z kfile_scheme \<Rightarrow> ((u64 outcome \<times> suspended) \<times> 'z kfile_scheme) option" where
  "sys_write s =
     do { p \<leftarrow> argaddr 1 s;
          n \<leftarrow> argint 2 s;
          a \<leftarrow> argfd 0 s;
          case a of
            None \<Rightarrow> Some ((Done (- 1), NoLocals), s)
          | Some (_, f) \<Rightarrow> ret_suspended (filewrite f p n s) }"

definition sys_close :: "'z kfile_scheme \<Rightarrow> (u64 \<times> 'z kfile_scheme) option" where
  "sys_close s =
     do { a \<leftarrow> argfd 0 s;
          case a of
            None \<Rightarrow> Some (- 1, s)
          | Some (fd, f) \<Rightarrow>
              do { p \<leftarrow> myproc s;
                   s \<leftarrow> fileclose f (clear_fd p (int fd) s);
                   Some (0, s) } }"

definition sys_fstat :: "u8 list \<Rightarrow> 'z kfile_scheme \<Rightarrow> (u64 \<times> 'z kfile_scheme) option" where
  "sys_fstat junk s =
     do { st \<leftarrow> argaddr 1 s;
          a \<leftarrow> argfd 0 s;
          case a of
            None \<Rightarrow> Some (- 1, s)
          | Some (_, f) \<Rightarrow> do { (r, s) \<leftarrow> filestat junk f st s; Some (word_of_int r, s) } }"

section \<open>Names\<close>

definition MAXPATH :: nat where "MAXPATH = 128"
definition O_RDONLY :: int where "O_RDONLY = 0"
definition O_WRONLY :: int where "O_WRONLY = 1"
definition O_RDWR :: int where "O_RDWR = 2"
definition O_CREATE :: int where "O_CREATE = 0x200"
definition O_TRUNC :: int where "O_TRUNC = 0x400"

text \<open>Leaving a transaction with the result \<open>r\<close>, after putting an inode.\<close>

definition op_end :: "u64 \<Rightarrow> 'z kfile_scheme \<Rightarrow> (u64 \<times> 'z kfile_scheme) option" where
  "op_end r s = do { s \<leftarrow> end_op s; Some (r, s) }"

definition put_end :: "nat \<Rightarrow> u64 \<Rightarrow> 'z kfile_scheme \<Rightarrow> (u64 \<times> 'z kfile_scheme) option" where
  "put_end ip r s = do { s \<leftarrow> iunlockput ip s; op_end r s }"

definition add_nlink :: "nat \<Rightarrow> u16 \<Rightarrow> 'z kfs_scheme \<Rightarrow> 'z kfs_scheme option" where
  "add_nlink ip d s = iupdate ip (upd_inode ip (\<lambda>x. x\<lparr>i_nlink := i_nlink x + d\<rparr>) s)"

text \<open>The label \<^verbatim>\<open>bad\<close> of \<^verbatim>\<open>sys_link\<close>.\<close>

definition link_bad :: "nat \<Rightarrow> 'z kfile_scheme \<Rightarrow> (u64 \<times> 'z kfile_scheme) option" where
  "link_bad ip s =
     do { s \<leftarrow> ilock ip s;
          s \<leftarrow> add_nlink ip (- 1) s;
          put_end ip (- 1) s }"

definition sys_link :: "'z kfile_scheme \<Rightarrow> (u64 \<times> 'z kfile_scheme) option" where
  "sys_link s =
     do { ((a, old), s) \<leftarrow> argstr 0 MAXPATH s;
          if a < 0 then Some (- 1, s)
          else do { ((b, new), s) \<leftarrow> argstr 1 MAXPATH s;
          if b < 0 then Some (- 1, s)
          else do { s \<leftarrow> begin_op_now s;
                    (r, s) \<leftarrow> namei old s;
                    case r of
                      None \<Rightarrow> op_end (- 1) s
                    | Some ip \<Rightarrow>
                        do { s \<leftarrow> ilock ip s;
                             if i_type (itable s ! ip) = T_DIR then put_end ip (- 1) s
                             else do { s \<leftarrow> add_nlink ip 1 s;
                                       s \<leftarrow> iunlock ip s;
                                       ((d, name), s) \<leftarrow> nameiparent new (replicate DIRSIZ 0) s;
                                       case d of
                                         None \<Rightarrow> link_bad ip s
                                       | Some dp \<Rightarrow>
                                           do { s \<leftarrow> ilock dp s;
                                                (c, s) \<leftarrow> (if i_dev (itable s ! dp) \<noteq> i_dev (itable s ! ip) then Some (- 1, s)
                                                          else dirlink dp name (i_inum (itable s ! ip)) s);
                                                if c < 0 then do { s \<leftarrow> iunlockput dp s; link_bad ip s }
                                                else do { s \<leftarrow> iunlockput dp s;
                                                          s \<leftarrow> iput ip s;
                                                          op_end 0 s } } } } } } }"

definition isdirempty :: "nat \<Rightarrow> 'z kfs_scheme \<Rightarrow> (bool \<times> 'z kfs_scheme) option" where
  "isdirempty dp s =
     do { (r, s) \<leftarrow> for_find (dir_offs 2 (i_size (itable s ! dp))) (\<lambda>off s.
            do { (de, s) \<leftarrow> read_dirent dp off s;
                 Some (if de_inum de \<noteq> 0 then Some () else None, s) }) s;
          Some (r = None, s) }"

definition sys_unlink :: "'z kfile_scheme \<Rightarrow> (u64 \<times> 'z kfile_scheme) option" where
  "sys_unlink s =
     do { ((a, path), s) \<leftarrow> argstr 0 MAXPATH s;
          if a < 0 then Some (- 1, s)
          else do { s \<leftarrow> begin_op_now s;
                    ((d, name), s) \<leftarrow> nameiparent path (replicate DIRSIZ 0) s;
                    case d of
                      None \<Rightarrow> op_end (- 1) s
                    | Some dp \<Rightarrow>
                        do { s \<leftarrow> ilock dp s;
                             c1 \<leftarrow> namecmp name [46, 0];
                             c2 \<leftarrow> namecmp name [46, 46, 0];
                             if c1 = 0 \<or> c2 = 0 then put_end dp (- 1) s
                             else do { (r, s) \<leftarrow> dirlookup dp name s;
                                       case r of
                                         None \<Rightarrow> put_end dp (- 1) s
                                       | Some (ip, off) \<Rightarrow>
                                           do { s \<leftarrow> ilock ip s;
                                                if sint (i_nlink (itable s ! ip)) < 1 then None
                                                else do { (e, s) \<leftarrow> (if i_type (itable s ! ip) = T_DIR then isdirempty ip s else Some (True, s));
                                                          if \<not> e then do { s \<leftarrow> iunlockput ip s; put_end dp (- 1) s }
                                                          else do { (w, s) \<leftarrow> writei dp (FromLocal (replicate 16 0)) off 16 s;
                                                                    if w \<noteq> 16 then None
                                                                    else do { s \<leftarrow> (if i_type (itable s ! ip) = T_DIR then add_nlink dp (- 1) s else Some s);
                                                                              s \<leftarrow> iunlockput dp s;
                                                                              s \<leftarrow> add_nlink ip (- 1) s;
                                                                              put_end ip 0 s } } } } } } } }"

text \<open>The label \<^verbatim>\<open>fail\<close> of \<^verbatim>\<open>create\<close>.\<close>

definition create_fail :: "nat \<Rightarrow> nat \<Rightarrow> 'z kfs_scheme \<Rightarrow> (nat option \<times> 'z kfs_scheme) option" where
  "create_fail ip dp s =
     do { s \<leftarrow> iupdate ip (upd_inode ip (\<lambda>x. x\<lparr>i_nlink := 0\<rparr>) s);
          s \<leftarrow> iunlockput ip s;
          s \<leftarrow> iunlockput dp s;
          Some (None, s) }"

definition create :: "u8 list \<Rightarrow> u16 \<Rightarrow> u16 \<Rightarrow> u16 \<Rightarrow> 'z kfs_scheme \<Rightarrow> (nat option \<times> 'z kfs_scheme) option" where
  "create path type major minor s =
     do { ((d, name), s) \<leftarrow> nameiparent path (replicate DIRSIZ 0) s;
          case d of
            None \<Rightarrow> Some (None, s)
          | Some dp \<Rightarrow>
              do { s \<leftarrow> ilock dp s;
                   (r, s) \<leftarrow> dirlookup dp name s;
                   case r of
                     Some (ip, _) \<Rightarrow>
                       do { s \<leftarrow> iunlockput dp s;
                            s \<leftarrow> ilock ip s;
                            if type = T_FILE \<and> (i_type (itable s ! ip) = T_FILE \<or> i_type (itable s ! ip) = T_DEVICE) then Some (Some ip, s)
                            else do { s \<leftarrow> iunlockput ip s; Some (None, s) } }
                   | None \<Rightarrow>
                       do { (r, s) \<leftarrow> ialloc (i_dev (itable s ! dp)) type s;
                            case r of
                              None \<Rightarrow> do { s \<leftarrow> iunlockput dp s; Some (None, s) }
                            | Some ip \<Rightarrow>
                                do { s \<leftarrow> ilock ip s;
                                     s \<leftarrow> iupdate ip (upd_inode ip (\<lambda>x. x\<lparr>i_major := major, i_minor := minor, i_nlink := 1\<rparr>) s);
                                     (c, s) \<leftarrow> (if type = T_DIR
                                       then do { (c, s) \<leftarrow> dirlink ip [46, 0] (i_inum (itable s ! ip)) s;
                                                 if c < 0 then Some (c, s)
                                                 else dirlink ip [46, 46, 0] (i_inum (itable s ! dp)) s }
                                       else Some (0, s));
                                     if c < 0 then create_fail ip dp s
                                     else do { (c, s) \<leftarrow> dirlink dp name (i_inum (itable s ! ip)) s;
                                               if c < 0 then create_fail ip dp s
                                               else do { s \<leftarrow> (if type = T_DIR then add_nlink dp 1 s else Some s);
                                                         s \<leftarrow> iunlockput dp s;
                                                         Some (Some ip, s) } } } } } }"

section \<open>Opening\<close>

text \<open>The inode \<^verbatim>\<open>sys_open\<close> works on, locked, or \<open>None\<close> when it has returned \<^verbatim>\<open>-1\<close>.\<close>

definition open_inode :: "u8 list \<Rightarrow> int \<Rightarrow> 'z kfile_scheme \<Rightarrow> (nat option \<times> 'z kfile_scheme) option" where
  "open_inode path omode s =
     (if omode AND O_CREATE \<noteq> 0
      then do { (r, s) \<leftarrow> create path T_FILE 0 0 s;
                case r of None \<Rightarrow> do { s \<leftarrow> end_op s; Some (None, s) } | Some ip \<Rightarrow> Some (Some ip, s) }
      else do { (r, s) \<leftarrow> namei path s;
                case r of
                  None \<Rightarrow> do { s \<leftarrow> end_op s; Some (None, s) }
                | Some ip \<Rightarrow>
                    do { s \<leftarrow> ilock ip s;
                         if i_type (itable s ! ip) = T_DIR \<and> omode \<noteq> O_RDONLY
                         then do { s \<leftarrow> iunlockput ip s; s \<leftarrow> end_op s; Some (None, s) }
                         else Some (Some ip, s) } })"

definition open_file :: "nat \<Rightarrow> nat \<Rightarrow> int \<Rightarrow> 'z kfile_scheme \<Rightarrow> 'z kfile_scheme" where
  "open_file f ip omode s =
     (let s = (if i_type (itable s ! ip) = T_DEVICE
               then upd_file f (\<lambda>x. x\<lparr>f_type := FD_DEVICE, f_major := i_major (itable s ! ip)\<rparr>) s
               else upd_file f (\<lambda>x. x\<lparr>f_type := FD_INODE, f_off := 0\<rparr>) s)
      in upd_file f (\<lambda>x. x\<lparr>f_ip := Some ip,
           f_readable := (if omode AND O_WRONLY = 0 then 1 else 0),
           f_writable := (if omode AND O_WRONLY \<noteq> 0 \<or> omode AND O_RDWR \<noteq> 0 then 1 else 0)\<rparr>) s)"

definition sys_open :: "'z kfile_scheme \<Rightarrow> (u64 \<times> 'z kfile_scheme) option" where
  "sys_open s =
     do { omode \<leftarrow> argint 1 s;
          ((n, path), s) \<leftarrow> argstr 0 MAXPATH s;
          if n < 0 then Some (- 1, s)
          else do { s \<leftarrow> begin_op_now s;
                    (r, s) \<leftarrow> open_inode path omode s;
                    case r of
                      None \<Rightarrow> Some (- 1, s)
                    | Some ip \<Rightarrow>
                        if i_type (itable s ! ip) = T_DEVICE \<and> (sint (i_major (itable s ! ip)) < 0 \<or> sint (i_major (itable s ! ip)) \<ge> int NDEV)
                        then put_end ip (- 1) s
                        else do { (fo, s) \<leftarrow> filealloc s;
                                  case fo of
                                    None \<Rightarrow> put_end ip (- 1) s
                                  | Some f \<Rightarrow>
                                      do { (fd, s) \<leftarrow> fdalloc f s;
                                           if fd < 0 then do { s \<leftarrow> fileclose f s; put_end ip (- 1) s }
                                           else do { let s = open_file f ip omode s;
                                                     s \<leftarrow> (if omode AND O_TRUNC \<noteq> 0 \<and> i_type (itable s ! ip) = T_FILE
                                                           then itrunc ip s else Some s);
                                                     s \<leftarrow> iunlock ip s;
                                                     op_end (word_of_int fd) s } } } } }"

text \<open>The common tail of \<^verbatim>\<open>sys_mkdir\<close> and \<^verbatim>\<open>sys_mknod\<close>.\<close>

definition created :: "nat option \<Rightarrow> 'z kfile_scheme \<Rightarrow> (u64 \<times> 'z kfile_scheme) option" where
  "created r s = (case r of None \<Rightarrow> op_end (- 1) s | Some ip \<Rightarrow> put_end ip 0 s)"

definition sys_mkdir :: "'z kfile_scheme \<Rightarrow> (u64 \<times> 'z kfile_scheme) option" where
  "sys_mkdir s =
     do { s \<leftarrow> begin_op_now s;
          ((n, path), s) \<leftarrow> argstr 0 MAXPATH s;
          if n < 0 then op_end (- 1) s
          else do { (r, s) \<leftarrow> create path T_DIR 0 0 s; created r s } }"

definition sys_mknod :: "'z kfile_scheme \<Rightarrow> (u64 \<times> 'z kfile_scheme) option" where
  "sys_mknod s =
     do { s \<leftarrow> begin_op_now s;
          major \<leftarrow> argint 1 s;
          minor \<leftarrow> argint 2 s;
          ((n, path), s) \<leftarrow> argstr 0 MAXPATH s;
          if n < 0 then op_end (- 1) s
          else do { (r, s) \<leftarrow> create path T_DEVICE (word_of_int major) (word_of_int minor) s; created r s } }"

definition sys_chdir :: "'z kfile_scheme \<Rightarrow> (u64 \<times> 'z kfile_scheme) option" where
  "sys_chdir s =
     do { p \<leftarrow> myproc s;
          s \<leftarrow> begin_op_now s;
          ((n, path), s) \<leftarrow> argstr 0 MAXPATH s;
          if n < 0 then op_end (- 1) s
          else do { (r, s) \<leftarrow> namei path s;
                    case r of
                      None \<Rightarrow> op_end (- 1) s
                    | Some ip \<Rightarrow>
                        do { s \<leftarrow> ilock ip s;
                             if i_type (itable s ! ip) \<noteq> T_DIR then put_end ip (- 1) s
                             else do { s \<leftarrow> iunlock ip s;
                                       cwd \<leftarrow> p_cwd (procs s ! p);
                                       s \<leftarrow> iput cwd s;
                                       s \<leftarrow> end_op s;
                                       Some (0, upd_proc p (\<lambda>x. x\<lparr>p_cwd := Some ip\<rparr>) s) } } } }"

definition sys_pipe :: "'z kfile_scheme \<Rightarrow> (u64 \<times> 'z kfile_scheme) option" where
  "sys_pipe s =
     do { p \<leftarrow> myproc s;
          fdarray \<leftarrow> argaddr 0 s;
          (r, s) \<leftarrow> pipealloc s;
          case r of
            None \<Rightarrow> Some (- 1, s)
          | Some (rfile, wfile) \<Rightarrow>
              do { (fd0, s) \<leftarrow> fdalloc rfile s;
                   (fd1, s) \<leftarrow> (if fd0 < 0 then Some (- 1, s) else fdalloc wfile s);
                   if fd0 < 0 \<or> fd1 < 0
                   then do { let s = (if fd0 \<ge> 0 then clear_fd p fd0 s else s);
                             s \<leftarrow> fileclose rfile s;
                             s \<leftarrow> fileclose wfile s;
                             Some (- 1, s) }
                   else do { (c, s) \<leftarrow> copyout (p_pagetable (procs s ! p)) fdarray (bytes_of_int fd0) s;
                             (c, s) \<leftarrow> (if c < 0 then Some (c, s)
                                       else copyout (p_pagetable (procs s ! p)) (fdarray + 4) (bytes_of_int fd1) s);
                             if c < 0
                             then do { let s = clear_fd p fd1 (clear_fd p fd0 s);
                                       s \<leftarrow> fileclose rfile s;
                                       s \<leftarrow> fileclose wfile s;
                                       Some (- 1, s) }
                             else Some (0, s) } } }"

section \<open>Processes and their files\<close>

definition tf_set :: "nat \<Rightarrow> u64 \<Rightarrow> u64 \<Rightarrow> 'z kproc_scheme \<Rightarrow> 'z kproc_scheme" where
  "tf_set p off v s = s\<lparr>mem := write64 (mem s) (p_trapframe (procs s ! p) + off) v\<rparr>"

definition userinit :: "'z kfile_scheme \<Rightarrow> 'z kfile_scheme option" where
  "userinit s =
     do { (r, s) \<leftarrow> allocproc s;
          p \<leftarrow> r;
          (ip, s) \<leftarrow> namei [47, 0] (s\<lparr>initproc := Some p\<rparr>);
          release (ProcLock p) (upd_proc p (\<lambda>x. x\<lparr>p_cwd := ip, p_state := RUNNABLE\<rparr>) s) }"

text \<open>The registers are at the offsets of \<^verbatim>\<open>struct trapframe\<close>, which has 288 bytes; \<^verbatim>\<open>a0\<close> is at 112.\<close>

definition kfork :: "'z kfile_scheme \<Rightarrow> (int \<times> 'z kfile_scheme) option" where
  "kfork s =
     do { p \<leftarrow> myproc s;
          (r, s) \<leftarrow> allocproc s;
          case r of
            None \<Rightarrow> Some (- 1, s)
          | Some np \<Rightarrow>
              do { (c, s) \<leftarrow> uvmcopy (p_pagetable (procs s ! p)) (p_pagetable (procs s ! np)) (p_sz (procs s ! p)) s;
                   if c < 0 then do { s \<leftarrow> freeproc np s; s \<leftarrow> release (ProcLock np) s; Some (- 1, s) }
                   else do { let s = upd_proc np (\<lambda>x. x\<lparr>p_sz := p_sz (procs s ! p)\<rparr>) s;
                             let s = s\<lparr>mem := write_bytes (mem s) (p_trapframe (procs s ! np)) (read_bytes (mem s) (p_trapframe (procs s ! p)) 288)\<rparr>;
                             let s = tf_set np 112 0 s;
                             s \<leftarrow> for_each [0..<NOFILE] (\<lambda>i s.
                               case p_ofile (procs s ! p) ! i of
                                 None \<Rightarrow> Some s
                               | Some f \<Rightarrow> do { s \<leftarrow> filedup f s;
                                                Some (upd_proc np (\<lambda>x. x\<lparr>p_ofile := (p_ofile x)[i := Some f]\<rparr>) s) }) s;
                             cwd \<leftarrow> p_cwd (procs s ! p);
                             (ip, s) \<leftarrow> idup cwd s;
                             nm \<leftarrow> safestrcpy (p_name (procs s ! np)) (p_name (procs s ! p)) 16;
                             let s = upd_proc np (\<lambda>x. x\<lparr>p_cwd := Some ip, p_name := nm\<rparr>) s;
                             let pid = p_pid (procs s ! np);
                             s \<leftarrow> release (ProcLock np) s;
                             s \<leftarrow> acquire WaitLock s;
                             s \<leftarrow> release WaitLock (upd_proc np (\<lambda>x. x\<lparr>p_parent := Some p\<rparr>) s);
                             s \<leftarrow> acquire (ProcLock np) s;
                             s \<leftarrow> release (ProcLock np) (upd_proc np (\<lambda>x. x\<lparr>p_state := RUNNABLE\<rparr>) s);
                             Some (pid, s) } } }"

text \<open>
  \<^verbatim>\<open>kexit\<close> ends in the scheduler; the result is that of \<open>sched\<close>. No process sleeps on the null channel,
  so that \<^verbatim>\<open>wakeup\<close> of a null parent changes nothing.
\<close>

definition kexit :: "int \<Rightarrow> 'z kfile_scheme \<Rightarrow> (bool \<times> 'z kfile_scheme) option" where
  "kexit status s =
     do { p \<leftarrow> myproc s;
          if initproc s = Some p then None
          else do { s \<leftarrow> for_each [0..<NOFILE] (\<lambda>fd s.
                      case p_ofile (procs s ! p) ! fd of
                        None \<Rightarrow> Some s
                      | Some f \<Rightarrow> do { s \<leftarrow> fileclose f s; Some (clear_fd p (int fd) s) }) s;
                    s \<leftarrow> begin_op_now s;
                    cwd \<leftarrow> p_cwd (procs s ! p);
                    s \<leftarrow> iput cwd s;
                    s \<leftarrow> end_op s;
                    let s = upd_proc p (\<lambda>x. x\<lparr>p_cwd := None\<rparr>) s;
                    s \<leftarrow> acquire WaitLock s;
                    s \<leftarrow> reparent p s;
                    s \<leftarrow> (case p_parent (procs s ! p) of Some q \<Rightarrow> wakeup (ChProc q) s | None \<Rightarrow> Some s);
                    s \<leftarrow> acquire (ProcLock p) s;
                    s \<leftarrow> release WaitLock (upd_proc p (\<lambda>x. x\<lparr>p_xstate := status, p_state := ZOMBIE\<rparr>) s);
                    sched s } }"

definition sys_fork :: "'z kfile_scheme \<Rightarrow> (u64 \<times> 'z kfile_scheme) option" where
  "sys_fork s = do { (r, s) \<leftarrow> kfork s; Some (word_of_int r, s) }"

definition sys_exit :: "'z kfile_scheme \<Rightarrow> (bool \<times> 'z kfile_scheme) option" where
  "sys_exit s = do { n \<leftarrow> argint 0 s; kexit n s }"

end
