(* ===== verification/Exec.thy ===== *)
theory Exec
  imports Sysfile
begin

text \<open>
  \<^verbatim>\<open>kernel/exec.c\<close> with \<^verbatim>\<open>kernel/elf.h\<close>, and \<^verbatim>\<open>sys_exec\<close>: replacing the user image of the running process
  by the program of an ELF file.
\<close>

section \<open>The file format\<close>

definition get64 :: "u8 list \<Rightarrow> nat \<Rightarrow> u64" where
  "get64 d off = word_of_bytes (take 8 (drop off d))"

definition ELF_MAGIC :: u32 where "ELF_MAGIC = 0x464C457F"
definition ELF_PROG_LOAD :: u32 where "ELF_PROG_LOAD = 1"

text \<open>The fields the code uses, at their offsets in the 64 and 56 bytes of the two structures.\<close>

record elfhdr =
  elf_magic :: u32
  elf_entry :: u64
  elf_phoff :: u64
  elf_phnum :: u16

definition get_elfhdr :: "u8 list \<Rightarrow> elfhdr" where
  "get_elfhdr d = \<lparr>elf_magic = get32 d 0, elf_entry = get64 d 24, elf_phoff = get64 d 32, elf_phnum = get16 d 56\<rparr>"

record proghdr =
  ph_type :: u32
  ph_flags :: u32
  ph_off :: u64
  ph_vaddr :: u64
  ph_filesz :: u64
  ph_memsz :: u64

definition get_proghdr :: "u8 list \<Rightarrow> proghdr" where
  "get_proghdr d = \<lparr>ph_type = get32 d 0, ph_flags = get32 d 4, ph_off = get64 d 8, ph_vaddr = get64 d 16,
     ph_filesz = get64 d 32, ph_memsz = get64 d 40\<rparr>"

definition flags2perm :: "u32 \<Rightarrow> u64" where
  "flags2perm flags =
     (let perm = (if flags AND 1 \<noteq> 0 then PTE_X else 0)
      in if flags AND 2 \<noteq> 0 then perm OR PTE_W else perm)"

section \<open>Loading\<close>

definition loadseg :: "u64 \<Rightarrow> u64 \<Rightarrow> nat \<Rightarrow> u32 \<Rightarrow> u32 \<Rightarrow> 'z kfs_scheme \<Rightarrow> (int \<times> 'z kfs_scheme) option" where
  "loadseg pagetable va ip offset sz s =
     do { (r, s) \<leftarrow> for_find (map (\<lambda>k. 4096 * k) [0..<(unat sz + 4095) div 4096]) (\<lambda>i s.
            do { (pa, s) \<leftarrow> walkaddr pagetable (va + of_nat i) s;
                 if pa = 0 then None
                 else do { let n = min (unat sz - i) 4096;
                           ((r, _), s) \<leftarrow> readi ip (ToKernel pa) (offset + of_nat i) (of_nat n) s;
                           Some (if r \<noteq> int n then Some () else None, s) } }) s;
          Some (if r = None then 0 else - 1, s) }"

text \<open>The loop over the program headers; \<open>False\<close> is the jump to \<^verbatim>\<open>bad\<close>, with the \<^verbatim>\<open>sz\<close> reached.\<close>

fun exec_segs :: "u64 \<Rightarrow> nat \<Rightarrow> u32 \<Rightarrow> nat \<Rightarrow> u64 \<Rightarrow> 'z kfs_scheme \<Rightarrow> ((bool \<times> u64) \<times> 'z kfs_scheme) option" where
  "exec_segs pagetable ip off 0 sz s = Some ((True, sz), s)"
| "exec_segs pagetable ip off (Suc k) sz s =
     do { ((r, bs), s) \<leftarrow> readi ip ToLocal off 56 s;
          if r \<noteq> 56 then Some ((False, sz), s)
          else let ph = get_proghdr bs in
            if ph_type ph \<noteq> ELF_PROG_LOAD then exec_segs pagetable ip (off + 56) k sz s
            else if ph_memsz ph < ph_filesz ph then Some ((False, sz), s)
            else if ph_vaddr ph + ph_memsz ph < ph_vaddr ph then Some ((False, sz), s)
            else if ph_vaddr ph mod PGSIZE \<noteq> 0 then Some ((False, sz), s)
            else do { (sz1, s) \<leftarrow> uvmalloc pagetable sz (ph_vaddr ph + ph_memsz ph) (flags2perm (ph_flags ph)) s;
                      if sz1 = 0 then Some ((False, sz), s)
                      else do { (c, s) \<leftarrow> loadseg pagetable (ph_vaddr ph) ip (ucast (ph_off ph)) (ucast (ph_filesz ph)) s;
                                if c < 0 then Some ((False, sz1), s)
                                else exec_segs pagetable ip (off + 56) k sz1 s } } }"

definition MAXARG :: nat where "MAXARG = 32"
definition USERSTACK :: u64 where "USERSTACK = 1"

text \<open>
  Copying the argument strings to the new stack. \<open>argv\<close> is the list of the strings up to the null
  pointer, each with its NUL; the result is the stack pointer and \<^verbatim>\<open>ustack\<close>, or \<open>None\<close> for \<^verbatim>\<open>bad\<close>.
\<close>

fun exec_args :: "u64 \<Rightarrow> u64 \<Rightarrow> u8 list list \<Rightarrow> nat \<Rightarrow> u64 \<Rightarrow> u64 list \<Rightarrow> 'z kproc_scheme \<Rightarrow>
    ((u64 \<times> u64 list) option \<times> 'z kproc_scheme) option" where
  "exec_args pagetable stackbase [] argc sp ustack s = Some (Some (sp, ustack), s)"
| "exec_args pagetable stackbase (a # argv) argc sp ustack s =
     (if argc \<ge> MAXARG then Some (None, s)
      else do { n \<leftarrow> strlen a;
                let sp = sp - (of_nat n + 1);
                let sp = sp - sp mod 16;
                if sp < stackbase then Some (None, s)
                else do { (c, s) \<leftarrow> copyout pagetable sp (take (n + 1) a) s;
                          if c < 0 then Some (None, s)
                          else exec_args pagetable stackbase argv (argc + 1) sp (ustack @ [sp]) s } })"

text \<open>The part of the path after its last slash.\<close>

fun last_elem :: "u8 list \<Rightarrow> u8 list \<Rightarrow> u8 list" where
  "last_elem lst [] = lst"
| "last_elem lst (c # s) = (if c = 0 then lst else if c = 47 then last_elem s s else last_elem lst s)"

text \<open>The label \<^verbatim>\<open>bad\<close>, before and after the inode has been put.\<close>

definition exec_bad :: "u64 \<Rightarrow> u64 \<Rightarrow> nat option \<Rightarrow> 'z kfile_scheme \<Rightarrow> (int \<times> 'z kfile_scheme) option" where
  "exec_bad pagetable sz ip s =
     do { s \<leftarrow> (if pagetable \<noteq> 0 then proc_freepagetable pagetable sz s else Some s);
          s \<leftarrow> (case ip of None \<Rightarrow> Some s | Some ip \<Rightarrow> do { s \<leftarrow> iunlockput ip s; end_op s });
          Some (- 1, s) }"

text \<open>
  The second half: the stack, its contents, and the switch to the new image. With \<^verbatim>\<open>MAXARG\<close> strings the
  terminating zero would be stored past the end of \<^verbatim>\<open>ustack\<close>, which is \<open>None\<close> here.
\<close>

definition exec_stack :: "u8 list \<Rightarrow> u8 list list \<Rightarrow> elfhdr \<Rightarrow> u64 \<Rightarrow> u64 \<Rightarrow> 'z kfile_scheme \<Rightarrow> (int \<times> 'z kfile_scheme) option" where
  "exec_stack path argv elf pagetable sz s =
     do { p \<leftarrow> myproc s;
          let oldsz = p_sz (procs s ! p);
          let sz = PGROUNDUP sz;
          (sz1, s) \<leftarrow> uvmalloc pagetable sz (sz + (USERSTACK + 1) * PGSIZE) PTE_W s;
          if sz1 = 0 then exec_bad pagetable sz None s
          else do { let sz = sz1;
                    s \<leftarrow> uvmclear pagetable (sz - (USERSTACK + 1) * PGSIZE) s;
                    let stackbase = sz - USERSTACK * PGSIZE;
                    (r, s) \<leftarrow> exec_args pagetable stackbase argv 0 sz [] s;
                    case r of
                      None \<Rightarrow> exec_bad pagetable sz None s
                    | Some (sp, ustack) \<Rightarrow>
                        do { let argc = length ustack;
                             let sp = sp - (of_nat argc + 1) * 8;
                             let sp = sp - sp mod 16;
                             if argc \<ge> MAXARG then None
                             else if sp < stackbase then exec_bad pagetable sz None s
                             else do { (c, s) \<leftarrow> copyout pagetable sp (concat (map (bytes_of_word 8) (ustack @ [0]))) s;
                                       if c < 0 then exec_bad pagetable sz None s
                                       else do { let s = tf_set p 120 sp s;
                                                 nm \<leftarrow> safestrcpy (p_name (procs s ! p)) (last_elem path path) 16;
                                                 let oldpagetable = p_pagetable (procs s ! p);
                                                 let s = upd_proc p (\<lambda>x. x\<lparr>p_name := nm, p_pagetable := pagetable, p_sz := sz\<rparr>) s;
                                                 let s = tf_set p 48 sp (tf_set p 24 (elf_entry elf) s);
                                                 s \<leftarrow> proc_freepagetable oldpagetable oldsz s;
                                                 Some (int argc, s) } } } } }"

definition kexec :: "u8 list \<Rightarrow> u8 list list \<Rightarrow> 'z kfile_scheme \<Rightarrow> (int \<times> 'z kfile_scheme) option" where
  "kexec path argv s =
     do { p \<leftarrow> myproc s;
          s \<leftarrow> begin_op_now s;
          (r, s) \<leftarrow> namei path s;
          case r of
            None \<Rightarrow> do { s \<leftarrow> end_op s; Some (- 1, s) }
          | Some ip \<Rightarrow>
              do { s \<leftarrow> ilock ip s;
                   ((n, bs), s) \<leftarrow> readi ip ToLocal 0 64 s;
                   if n \<noteq> 64 then exec_bad 0 0 (Some ip) s
                   else let elf = get_elfhdr bs in
                     if elf_magic elf \<noteq> ELF_MAGIC then exec_bad 0 0 (Some ip) s
                     else do { (pagetable, s) \<leftarrow> proc_pagetable p s;
                               if pagetable = 0 then exec_bad 0 0 (Some ip) s
                               else do { ((ok, sz), s) \<leftarrow> exec_segs pagetable ip (ucast (elf_phoff elf)) (unat (elf_phnum elf)) 0 s;
                                         if \<not> ok then exec_bad pagetable sz (Some ip) s
                                         else do { s \<leftarrow> iunlockput ip s;
                                                   s \<leftarrow> end_op s;
                                                   exec_stack path argv elf pagetable sz s } } } } }"

section \<open>The system call\<close>

text \<open>
  The loop that fetches the arguments: the pages allocated and the strings in them, and whether the
  null pointer was reached.
\<close>

function fetch_argv :: "u64 \<Rightarrow> nat \<Rightarrow> (u64 \<times> u8 list) list \<Rightarrow> 'z kfile_scheme \<Rightarrow> ((bool \<times> (u64 \<times> u8 list) list) \<times> 'z kfile_scheme) option" where
  "fetch_argv uargv i acc s =
     (if i \<ge> MAXARG then Some ((False, acc), s)
      else do { ((c, uarg), s) \<leftarrow> fetchaddr (uargv + 8 * of_nat i) s;
                if c < 0 then Some ((False, acc), s)
                else if uarg = 0 then Some ((True, acc), s)
                else do { (pg, s) \<leftarrow> kalloc s;
                          if pg = 0 then Some ((False, acc), s)
                          else do { ((n, str), s) \<leftarrow> fetchstr uarg 4096 s;
                                    let s = s\<lparr>mem := write_bytes (mem s) pg str\<rparr>;
                                    if n < 0 then Some ((False, acc @ [(pg, str)]), s)
                                    else fetch_argv uargv (i + 1) (acc @ [(pg, str)]) s } } })"
  by pat_completeness auto
termination
  by (relation "measure (\<lambda>(uargv, i, acc, s). MAXARG - i)") auto

declare fetch_argv.simps [simp del]

definition sys_exec :: "'z kfile_scheme \<Rightarrow> (u64 \<times> 'z kfile_scheme) option" where
  "sys_exec s =
     do { uargv \<leftarrow> argaddr 1 s;
          ((n, path), s) \<leftarrow> argstr 0 MAXPATH s;
          if n < 0 then Some (- 1, s)
          else do { ((ok, argv), s) \<leftarrow> fetch_argv uargv 0 [] s;
                    (r, s) \<leftarrow> (if ok then kexec path (map snd argv) s else Some (- 1, s));
                    s \<leftarrow> for_each (map fst argv) kfree s;
                    Some (word_of_int r, s) } }"

end
