(* ===== verification/Trap.thy ===== *)
theory Trap
  imports Exec
begin

text \<open>
  \<^verbatim>\<open>kernel/trap.c\<close>, the dispatch of \<^verbatim>\<open>kernel/syscall.c\<close>, \<^verbatim>\<open>kernel/plic.c\<close>, the kernel page table of
  \<^verbatim>\<open>kernel/vm.c\<close>, \<^verbatim>\<open>forkret\<close> and \<^verbatim>\<open>kernel/main.c\<close>: how control enters and leaves the kernel, and how the
  parts are put together at boot.
\<close>

section \<open>State\<close>

text \<open>
  The control registers of the hart that runs, with the bits \<^verbatim>\<open>SPP\<close> and \<^verbatim>\<open>SPIE\<close> of \<^verbatim>\<open>sstatus\<close> (its \<^verbatim>\<open>SIE\<close> bit
  is part of the lock state); the clock; the registers of the interrupt controller that were written
  and the value its claim register reads; the globals of the modelled files; and the addresses the
  linker gives to code.
\<close>

record ktrap = kfile +
  stvec :: u64
  sepc :: u64
  scause :: u64
  stval :: u64
  satp :: u64
  spp :: bool
  spie :: bool
  mtime :: u64
  stimecmp :: u64
  plic_out :: "(u64 \<times> u32) list"
  plic_irq :: u32
  kernel_pagetable :: u64
  first :: bool
  started :: int
  etext :: u64
  kernelvec_addr :: u64
  usertrap_addr :: u64
  uservec_off :: u64
  userret_off :: u64

definition UART0 :: u64 where "UART0 = 0x10000000"
definition UART0_IRQ :: int where "UART0_IRQ = 10"
definition VIRTIO0 :: u64 where "VIRTIO0 = 0x10001000"
definition VIRTIO0_IRQ :: int where "VIRTIO0_IRQ = 1"
definition PLIC :: u64 where "PLIC = 0x0c000000"
definition PLIC_SENABLE :: "nat \<Rightarrow> u64" where "PLIC_SENABLE hart = PLIC + 0x2080 + of_nat hart * 0x100"
definition PLIC_SPRIORITY :: "nat \<Rightarrow> u64" where "PLIC_SPRIORITY hart = PLIC + 0x201000 + of_nat hart * 0x2000"
definition PLIC_SCLAIM :: "nat \<Rightarrow> u64" where "PLIC_SCLAIM hart = PLIC + 0x201004 + of_nat hart * 0x2000"

section \<open>The interrupt controller\<close>

definition plic_write :: "u64 \<Rightarrow> u32 \<Rightarrow> 'z ktrap_scheme \<Rightarrow> 'z ktrap_scheme" where
  "plic_write a v s = s\<lparr>plic_out := plic_out s @ [(a, v)]\<rparr>"

definition plicinit :: "'z ktrap_scheme \<Rightarrow> 'z ktrap_scheme" where
  "plicinit s = plic_write (PLIC + of_int VIRTIO0_IRQ * 4) 1 (plic_write (PLIC + of_int UART0_IRQ * 4) 1 s)"

definition plicinithart :: "'z ktrap_scheme \<Rightarrow> 'z ktrap_scheme" where
  "plicinithart s =
     (let hart = tp (lk s);
          s = plic_write (PLIC_SENABLE hart) (push_bit (nat UART0_IRQ) 1 OR push_bit (nat VIRTIO0_IRQ) 1) s
      in plic_write (PLIC_SPRIORITY hart) 0 s)"

definition plic_claim :: "'z ktrap_scheme \<Rightarrow> int" where
  "plic_claim s = sint (plic_irq s)"

definition plic_complete :: "int \<Rightarrow> 'z ktrap_scheme \<Rightarrow> 'z ktrap_scheme" where
  "plic_complete irq s = plic_write (PLIC_SCLAIM (tp (lk s))) (word_of_int irq) s"

section \<open>System calls\<close>

text \<open>
  What a system call comes to: a value for \<^verbatim>\<open>a0\<close>; the caller sleeps inside it, with the interrupt state
  \<^verbatim>\<open>sched\<close> saved and the locals it keeps; or the process is gone.
\<close>

datatype sysresult = Value u64 | Blocked bool suspended | Exited bool

definition value_call :: "(u64 \<times> 'z kfile_scheme) option \<Rightarrow> (sysresult \<times> 'z kfile_scheme) option" where
  "value_call x = do { (v, s) \<leftarrow> x; Some (Value v, s) }"

definition blocking_call :: "(u64 outcome \<times> 'z kfile_scheme) option \<Rightarrow> (sysresult \<times> 'z kfile_scheme) option" where
  "blocking_call x = do { (r, s) \<leftarrow> x; Some (case r of Done v \<Rightarrow> Value v | Asleep ie \<Rightarrow> Blocked ie NoLocals, s) }"

definition file_call :: "((u64 outcome \<times> suspended) \<times> 'z kfile_scheme) option \<Rightarrow> (sysresult \<times> 'z kfile_scheme) option" where
  "file_call x = do { ((r, l), s) \<leftarrow> x; Some (case r of Done v \<Rightarrow> Value v | Asleep ie \<Rightarrow> Blocked ie l, s) }"

definition exit_call :: "(bool \<times> 'z kfile_scheme) option \<Rightarrow> (sysresult \<times> 'z kfile_scheme) option" where
  "exit_call x = do { (ie, s) \<leftarrow> x; Some (Exited ie, s) }"

text \<open>
  The table, by the numbers of \<^verbatim>\<open>syscall.h\<close>. \<open>junk\<close> is what the padding of the structures that two of
  the calls copy out happens to hold.
\<close>

definition syscalls :: "u8 list \<Rightarrow> ('z kfile_scheme \<Rightarrow> (sysresult \<times> 'z kfile_scheme) option) list" where
  "syscalls junk =
     [\<lambda>s. None,
      \<lambda>s. value_call (sys_fork s), \<lambda>s. exit_call (sys_exit s), \<lambda>s. blocking_call (sys_wait s),
      \<lambda>s. value_call (sys_pipe s), \<lambda>s. file_call (sys_read s), \<lambda>s. value_call (sys_kill s),
      \<lambda>s. value_call (sys_exec s), \<lambda>s. value_call (sys_fstat junk s), \<lambda>s. value_call (sys_chdir s),
      \<lambda>s. value_call (sys_dup s), \<lambda>s. value_call (sys_getpid s), \<lambda>s. value_call (sys_sbrk s),
      \<lambda>s. blocking_call (sys_pause s), \<lambda>s. value_call (sys_uptime s), \<lambda>s. value_call (sys_open s),
      \<lambda>s. file_call (sys_write s), \<lambda>s. value_call (sys_mknod s), \<lambda>s. value_call (sys_unlink s),
      \<lambda>s. value_call (sys_link s), \<lambda>s. value_call (sys_mkdir s), \<lambda>s. value_call (sys_close s),
      \<lambda>s. value_call (sys_getreadcount s), \<lambda>s. value_call (sys_getprocinfo junk s),
      \<lambda>s. value_call (sys_setpriority s), \<lambda>s. value_call (sys_getpriority s),
      \<lambda>s. blocking_call (sys_wait_stat s), \<lambda>s. value_call (sys_shm_open s),
      \<lambda>s. value_call (sys_shm_close s), \<lambda>s. value_call (sys_mutex_init s),
      \<lambda>s. blocking_call (sys_mutex_lock s), \<lambda>s. value_call (sys_mutex_unlock s)]"

definition syscall :: "u8 list \<Rightarrow> 'z kfile_scheme \<Rightarrow> (sysresult \<times> 'z kfile_scheme) option" where
  "syscall junk s =
     do { p \<leftarrow> myproc s;
          let num = sint (ucast (read64 (mem s) (p_trapframe (procs s ! p) + 168)) :: u32);
          if 0 < num \<and> num < int (length (syscalls junk :: ('z kfile_scheme \<Rightarrow> (sysresult \<times> 'z kfile_scheme) option) list))
          then do { (r, s) \<leftarrow> (syscalls junk ! nat num) s;
                    Some (r, case r of Value v \<Rightarrow> tf_set p 112 v s | _ \<Rightarrow> s) }
          else do { s \<leftarrow> printf (chars ''%d %s: unknown sys call %d'' @ [10, 0])
                           [Word (word_of_int (p_pid (procs s ! p))), Pointer (Some (p_name (procs s ! p))), Word (word_of_int num)] s;
                    Some (Value (- 1), tf_set p 112 (- 1) s) } }"

section \<open>Traps\<close>

definition trapinit :: "'z ktrap_scheme \<Rightarrow> 'z ktrap_scheme" where
  "trapinit s = s\<lparr>lk := initlock TicksLock ''time'' (lk s)\<rparr>"

definition trapinithart :: "'z ktrap_scheme \<Rightarrow> 'z ktrap_scheme" where
  "trapinithart s = s\<lparr>stvec := kernelvec_addr s\<rparr>"

definition clockintr :: "'z ktrap_scheme \<Rightarrow> 'z ktrap_scheme option" where
  "clockintr s =
     do { s \<leftarrow> (if tp (lk s) = 0
                then do { s \<leftarrow> acquire TicksLock s;
                          s \<leftarrow> wakeup ChTicks (s\<lparr>ticks := ticks s + 1\<rparr>);
                          s \<leftarrow> release TicksLock s;
                          update_time_stats s }
                else Some s);
          Some (s\<lparr>stimecmp := mtime s + 1000000\<rparr>) }"

text \<open>
  A disk request is complete when the call that made it returns, so that a disk interrupt finds no
  finished request to hand to its waiter.
\<close>

definition devintr :: "'z ktrap_scheme \<Rightarrow> (int \<times> 'z ktrap_scheme) option" where
  "devintr s =
     (if scause s = 0x8000000000000009
      then do { let irq = plic_claim s;
                s \<leftarrow> (if irq = UART0_IRQ then uartintr s
                      else if irq = VIRTIO0_IRQ then Some s
                      else if irq \<noteq> 0 then printf (chars ''unexpected interrupt irq=%d'' @ [10, 0]) [Word (word_of_int irq)] s
                      else Some s);
                Some (1, if irq \<noteq> 0 then plic_complete irq s else s) }
      else if scause s = 0x8000000000000005 then do { s \<leftarrow> clockintr s; Some (2, s) }
      else Some (0, s))"

definition prepare_return :: "'z ktrap_scheme \<Rightarrow> 'z ktrap_scheme option" where
  "prepare_return s =
     do { p \<leftarrow> myproc s;
          let s = s\<lparr>lk := (lk s)\<lparr>sie := False\<rparr>\<rparr>;
          let s = s\<lparr>stvec := TRAMPOLINE + uservec_off s\<rparr>;
          let s = tf_set p 0 (satp s) s;
          let s = tf_set p 8 (p_kstack (procs s ! p) + PGSIZE) s;
          let s = tf_set p 16 (usertrap_addr s) s;
          let s = tf_set p 32 (of_nat (tp (lk s))) s;
          let s = s\<lparr>spp := False, spie := True\<rparr>;
          Some (s\<lparr>sepc := read64 (mem s) (p_trapframe (procs s ! p) + 24)\<rparr>) }"

text \<open>
  What a trap from user space comes to: a return to user space with the value for \<^verbatim>\<open>satp\<close>, a process
  that has exited, one that gave up the CPU, or one that sleeps inside a system call.
\<close>

datatype trapresult = Return u64 | Gone bool | Yielded bool | InSyscall bool suspended

definition usertrap_return :: "'z ktrap_scheme \<Rightarrow> (trapresult \<times> 'z ktrap_scheme) option" where
  "usertrap_return s =
     do { p \<leftarrow> myproc s;
          s \<leftarrow> prepare_return s;
          Some (Return (MAKE_SATP (p_pagetable (procs s ! p))), s) }"

text \<open>The code after the dispatch on the cause.\<close>

definition usertrap_tail :: "int \<Rightarrow> 'z ktrap_scheme \<Rightarrow> (trapresult \<times> 'z ktrap_scheme) option" where
  "usertrap_tail which_dev s =
     do { p \<leftarrow> myproc s;
          (k, s) \<leftarrow> killed p s;
          if k \<noteq> 0 then do { (ie, s) \<leftarrow> kexit (- 1) s; Some (Gone ie, s) }
          else if which_dev = 2 then do { (ie, s) \<leftarrow> yield_enter s; Some (Yielded ie, s) }
          else usertrap_return s }"

definition usertrap :: "u8 list \<Rightarrow> 'z ktrap_scheme \<Rightarrow> (trapresult \<times> 'z ktrap_scheme) option" where
  "usertrap junk s =
     (if spp s then None
      else do { let s = s\<lparr>stvec := kernelvec_addr s\<rparr>;
                p \<leftarrow> myproc s;
                let s = tf_set p 24 (sepc s) s;
                if scause s = 8
                then do { (k, s) \<leftarrow> killed p s;
                          if k \<noteq> 0 then do { (ie, s) \<leftarrow> kexit (- 1) s; Some (Gone ie, s) }
                          else do { let s = tf_set p 24 (read64 (mem s) (p_trapframe (procs s ! p) + 24) + 4) s;
                                    (r, s) \<leftarrow> syscall junk (s\<lparr>lk := (lk s)\<lparr>sie := True\<rparr>\<rparr>);
                                    case r of
                                      Value _ \<Rightarrow> usertrap_tail 0 s
                                    | Blocked ie l \<Rightarrow> Some (InSyscall ie l, s)
                                    | Exited ie \<Rightarrow> Some (Gone ie, s) } }
                else do { (which_dev, s) \<leftarrow> devintr s;
                          if which_dev \<noteq> 0 then usertrap_tail which_dev s
                          else do { (pa, s) \<leftarrow> (if scause s = 15 \<or> scause s = 13
                                      then vmfault (p_pagetable (procs s ! p)) (stval s) (scause s = 13) s
                                      else Some (0, s));
                                    if pa \<noteq> 0 then usertrap_tail 0 s
                                    else do { s \<leftarrow> printf (chars ''usertrap(): unexpected scause 0x%lx pid=%d'' @ [10, 0])
                                                     [Word (scause s), Word (word_of_int (p_pid (procs s ! p)))] s;
                                              s \<leftarrow> printf (chars ''            sepc=0x%lx stval=0x%lx'' @ [10, 0])
                                                     [Word (sepc s), Word (stval s)] s;
                                              s \<leftarrow> setkilled p s;
                                              usertrap_tail 0 s } } } })"

text \<open>
  Coming back: from the scheduler after giving up the CPU, and with the value of a system call that
  had slept.
\<close>

definition usertrap_yield_resume :: "bool \<Rightarrow> 'z ktrap_scheme \<Rightarrow> (trapresult \<times> 'z ktrap_scheme) option" where
  "usertrap_yield_resume ie s = do { s \<leftarrow> yield_resume ie s; usertrap_return s }"

definition usertrap_syscall_resume :: "u64 \<Rightarrow> 'z ktrap_scheme \<Rightarrow> (trapresult \<times> 'z ktrap_scheme) option" where
  "usertrap_syscall_resume v s = do { p \<leftarrow> myproc s; usertrap_tail 0 (tf_set p 112 v s) }"

text \<open>
  A trap taken in the kernel. When it gives up the CPU, \<^verbatim>\<open>sepc\<close> and \<^verbatim>\<open>sstatus\<close> are kept on the stack; the
  interrupt-enable bit they restore is clear.
\<close>

definition kerneltrap :: "'z ktrap_scheme \<Rightarrow> (bool option \<times> 'z ktrap_scheme) option" where
  "kerneltrap s0 =
     (if \<not> spp s0 then None
      else if sie (lk s0) then None
      else do { (which_dev, s) \<leftarrow> devintr s0;
                if which_dev = 0 then None
                else if which_dev = 2 \<and> myproc s \<noteq> None
                then do { (ie, s) \<leftarrow> yield_enter s; Some (Some ie, s) }
                else Some (None, s\<lparr>sepc := sepc s0, spp := spp s0, spie := spie s0, lk := (lk s)\<lparr>sie := False\<rparr>\<rparr>) })"

definition kerneltrap_resume :: "u64 \<Rightarrow> bool \<Rightarrow> bool \<Rightarrow> bool \<Rightarrow> 'z ktrap_scheme \<Rightarrow> 'z ktrap_scheme option" where
  "kerneltrap_resume epc pp pie ie s =
     do { s \<leftarrow> yield_resume ie s;
          Some (s\<lparr>sepc := epc, spp := pp, spie := pie, lk := (lk s)\<lparr>sie := False\<rparr>\<rparr>) }"

section \<open>The kernel page table\<close>

definition kvmmake :: "'z ktrap_scheme \<Rightarrow> (u64 \<times> 'z ktrap_scheme) option" where
  "kvmmake s =
     do { (kpgtbl, s) \<leftarrow> kalloc s;
          if kpgtbl = 0 then None
          else do { let s = s\<lparr>mem := memset (mem s) kpgtbl 0 4096\<rparr>;
                    s \<leftarrow> kvmmap kpgtbl UART0 UART0 PGSIZE (PTE_R OR PTE_W) s;
                    s \<leftarrow> kvmmap kpgtbl VIRTIO0 VIRTIO0 PGSIZE (PTE_R OR PTE_W) s;
                    s \<leftarrow> kvmmap kpgtbl PLIC PLIC 0x4000000 (PTE_R OR PTE_W) s;
                    s \<leftarrow> kvmmap kpgtbl KERNBASE KERNBASE (etext s - KERNBASE) (PTE_R OR PTE_X) s;
                    s \<leftarrow> kvmmap kpgtbl (etext s) (etext s) (PHYSTOP - etext s) (PTE_R OR PTE_W) s;
                    s \<leftarrow> kvmmap kpgtbl TRAMPOLINE (trampoline s) PGSIZE (PTE_R OR PTE_X) s;
                    s \<leftarrow> proc_mapstacks kpgtbl s;
                    Some (kpgtbl, s) } }"

definition kvminit :: "'z ktrap_scheme \<Rightarrow> 'z ktrap_scheme option" where
  "kvminit s = do { (t, s) \<leftarrow> kvmmake s; Some (s\<lparr>kernel_pagetable := t\<rparr>) }"

definition kvminithart :: "'z ktrap_scheme \<Rightarrow> 'z ktrap_scheme" where
  "kvminithart s = s\<lparr>satp := MAKE_SATP (kernel_pagetable s)\<rparr>"

section \<open>Boot\<close>

text \<open>
  \<^verbatim>\<open>main\<close> up to its call of \<^verbatim>\<open>scheduler\<close>. The disk needs no set-up in this model. A hart other than the
  first waits for \<^verbatim>\<open>started\<close>, which is \<open>None\<close> until it is set.
\<close>

definition main_boot :: "'z ktrap_scheme \<Rightarrow> 'z ktrap_scheme option" where
  "main_boot s =
     (if tp (lk s) = 0
      then do { let s = printfinit (consoleinit s);
                s \<leftarrow> printf [10, 0] [] s;
                s \<leftarrow> printf (chars ''xv6 kernel is booting'' @ [10, 0]) [] s;
                s \<leftarrow> printf [10, 0] [] s;
                s \<leftarrow> kinit s;
                s \<leftarrow> kvminit s;
                let s = mutexinit (shminit (procinit (kvminithart s)));
                let s = plicinithart (plicinit (trapinithart (trapinit s)));
                let s = fileinit (iinit (binit s));
                s \<leftarrow> userinit s;
                Some (s\<lparr>started := 1\<rparr>) }
      else if started s = 0 then None
      else do { s \<leftarrow> printf (chars ''hart %d starting'' @ [10, 0]) [Word (of_nat (tp (lk s)))] s;
                Some (plicinithart (trapinithart (kvminithart s))) })"

text \<open>
  \<^verbatim>\<open>forkret\<close>: the first run of a process, which in the first process starts the file system and
  the program \<^verbatim>\<open>/init\<close>. The result is the address jumped to and the value for \<^verbatim>\<open>satp\<close>.
\<close>

definition forkret :: "'z ktrap_scheme \<Rightarrow> ((u64 \<times> u64) \<times> 'z ktrap_scheme) option" where
  "forkret s =
     do { p \<leftarrow> myproc s;
          s \<leftarrow> release (ProcLock p) s;
          s \<leftarrow> (if first s
                then do { s \<leftarrow> fsinit (uint ROOTDEV) s;
                          let s = s\<lparr>first := False\<rparr>;
                          (r, s) \<leftarrow> kexec (cstring ''/init'') [cstring ''/init''] s;
                          let s = tf_set p 112 (word_of_int r) s;
                          if r = - 1 then None else Some s }
                else Some s);
          s \<leftarrow> prepare_return s;
          Some ((TRAMPOLINE + userret_off s, MAKE_SATP (p_pagetable (procs s ! p))), s) }"

end
