(* ===== verification/Fsdata.thy ===== *)
theory Fsdata
  imports Fs
begin

text \<open>
  Facts about the data formats of \<^verbatim>\<open>kernel/fs.c\<close>: the elements of a path name, and the inodes in a
  block.
\<close>

section \<open>Path names\<close>

fun split_at :: "'a \<Rightarrow> 'a list \<Rightarrow> 'a list list" where
  "split_at c [] = [[]]"
| "split_at c (x # xs) = (if x = c then [] # split_at c xs else (x # hd (split_at c xs)) # tl (split_at c xs))"

text \<open>The elements of a path: the non-empty parts between slashes.\<close>

definition components :: "u8 list \<Rightarrow> u8 list list" where
  "components p = filter (\<lambda>e. e \<noteq> []) (split_at 47 p)"

text \<open>The name that an array of \<^verbatim>\<open>DIRSIZ\<close> bytes holds, which need not end with a NUL.\<close>

definition array_name :: "u8 list \<Rightarrow> u8 list" where
  "array_name nm = takeWhile (\<lambda>c. c \<noteq> 0) (take DIRSIZ nm)"

lemma split_at_nonempty [simp]: "split_at c xs \<noteq> []"
  by (cases xs) simp_all

lemma components_slashes: "components (dropWhile (\<lambda>c. c = 47) p) = components p"
  by (induction p) (simp_all add: components_def)

lemma split_at_prefix: "c \<notin> set e \<Longrightarrow> split_at c (e @ u) = (e @ hd (split_at c u)) # tl (split_at c u)"
  by (induction e) auto

lemma components_element:
  assumes "47 \<notin> set e" and "e \<noteq> []" and "u = [] \<or> hd u = 47"
  shows "components (e @ u) = e # components u"
proof (cases u)
  case Nil
  then show ?thesis using assms(2) split_at_prefix [OF assms(1), of "[]"] by (simp add: components_def)
next
  case (Cons x xs)
  then show ?thesis using assms by (simp add: components_def split_at_prefix)
qed

lemma components_nil: "components p = [] \<longleftrightarrow> (\<forall>c \<in> set p. c = 47)"
proof (induction p)
  case (Cons c p)
  then show ?case by (cases "c = 47") (simp_all add: components_def)
qed (simp add: components_def)

lemma no_component: "dropWhile (\<lambda>c. c = 47) p = [] \<longleftrightarrow> components (dropWhile (\<lambda>c. c = 47) p) = []"
  unfolding components_slashes components_nil by simp

lemma dropWhile_NUL:
  assumes "\<not> P 0"
  shows "dropWhile P (p @ 0 # rest) = dropWhile P p @ 0 # rest"
  using assms by (induction p) simp_all

lemma takeWhile_NUL:
  assumes "0 \<notin> set p"
  shows "takeWhile (\<lambda>c. c \<noteq> 47 \<and> c \<noteq> 0) (p @ 0 # rest) = takeWhile (\<lambda>c. c \<noteq> 47) p"
    and "dropWhile (\<lambda>c. c \<noteq> 47 \<and> c \<noteq> 0) (p @ 0 # rest) = dropWhile (\<lambda>c. c \<noteq> 47) p @ 0 # rest"
  using assms by (induction p) auto

lemma array_name_long:
  assumes "DIRSIZ \<le> length e" and "0 \<notin> set e" and "length name = DIRSIZ"
  shows "array_name (put_bytes name 0 (take DIRSIZ e)) = take DIRSIZ e"
  using assms by (auto simp: array_name_def put_bytes_def takeWhile_eq_all_conv dest: in_set_takeD)

lemma array_name_short:
  assumes "length e < DIRSIZ" and "0 \<notin> set e"
  shows "array_name (put_bytes name 0 (e @ [0])) = e"
proof -
  have "takeWhile (\<lambda>c. c \<noteq> 0) (e @ 0 # x) = e" for x
    using assms(2) by (subst takeWhile_append2) auto
  then show ?thesis using assms(1) by (simp add: array_name_def put_bytes_def take_Cons')
qed

text \<open>
  C25: the repeated calls of \<^verbatim>\<open>skipelem\<close> on a path yield its elements one by one, as splitting at the
  slashes and dropping the empty parts would: the null pointer when there is none left, and otherwise
  the first element, cut to 14 bytes, with the rest of the path, which is empty exactly if this was
  the last element.
\<close>

theorem skipelem_splits_path:
  assumes "0 \<notin> set p" and "length name = DIRSIZ"
  shows "case components p of
      [] \<Rightarrow> skipelem (p @ 0 # rest) name = Some None
    | e # es \<Rightarrow> \<exists>p' name'. skipelem (p @ 0 # rest) name = Some (Some (p' @ 0 # rest, name')) \<and>
        array_name name' = take DIRSIZ e \<and> length name' = DIRSIZ \<and> components p' = es \<and> 0 \<notin> set p' \<and> (p' = [] \<longleftrightarrow> es = [])"
proof (cases "dropWhile (\<lambda>c. c = 47) p")
  case Nil
  then have "components p = []" using components_nil by simp
  then show ?thesis using Nil by (simp add: skipelem_def dropWhile_NUL)
next
  case (Cons c r)
  let ?q = "c # r" and ?e = "takeWhile (\<lambda>c. c \<noteq> 47) (c # r)" and ?u = "dropWhile (\<lambda>c. c \<noteq> 47) (c # r)"
  let ?p = "dropWhile (\<lambda>c. c = 47) ?u"
  let ?nm = "if length ?e \<ge> DIRSIZ then put_bytes name 0 (take DIRSIZ ?e) else put_bytes name 0 (?e @ [0])"
  have z: "0 \<notin> set ?q" using assms(1) Cons by (metis set_dropWhileD)
  have c: "c \<noteq> 47" "c \<noteq> 0" using hd_dropWhile [of "\<lambda>c. c = 47" p] Cons z by auto
  have ze: "0 \<notin> set ?e" using z by (auto dest: set_takeWhileD)
  have zp: "0 \<notin> set ?p" using z by (auto dest!: set_dropWhileD)
  have sk: "skipelem (p @ 0 # rest) name = Some (Some (?p @ 0 # rest, ?nm))"
    using c takeWhile_NUL [OF z, of rest] by (simp add: skipelem_def dropWhile_NUL Cons Let_def)
  have u: "?u = [] \<or> hd ?u = 47" using hd_dropWhile [of "\<lambda>c. c \<noteq> 47" ?q] by blast
  have "components p = components (?e @ ?u)"
    using components_slashes [of p] unfolding Cons takeWhile_dropWhile_id by (rule sym)
  also have "\<dots> = ?e # components ?u" using u c(1) by (intro components_element) (auto dest: set_takeWhileD)
  finally have k: "components p = ?e # components ?p" by (simp only: components_slashes)
  have "array_name ?nm = take DIRSIZ ?e" "length ?nm = DIRSIZ"
    using array_name_long [OF _ ze assms(2)] array_name_short [OF _ ze] assms(2) by (auto simp: put_bytes_def)
  then show ?thesis
    unfolding k list.case using sk zp no_component [of ?u] by (intro exI [of _ ?p] exI [of _ ?nm] conjI) simp_all
qed

text \<open>The path \<^verbatim>\<open>//ab/c/\<close>.\<close>

theorem skipelem_splits_path_witness:
  "components [47, 47, 97, 98, 47, 99, 47] = [[97, 98], [99]] \<and>
   (\<exists>p' name'. skipelem [47, 47, 97, 98, 47, 99, 47, 0] (replicate 14 1) = Some (Some (p' @ [0], name')) \<and>
      array_name name' = [97, 98] \<and> components p' = [[99]])"
proof -
  have k: "components [47, 47, 97, 98, 47, 99, 47] = [[97, 98], [99]]" by (simp add: components_def)
  show ?thesis
    using skipelem_splits_path [of "[47, 47, 97, 98, 47, 99, 47]" "replicate 14 1" "[]"] unfolding k
    by (auto simp: DIRSIZ_def)
qed

section \<open>Inodes on disk\<close>

lemma field_put_bytes:
  assumes "off \<le> length D" and "k + n \<le> length bs"
  shows "take n (drop (off + k) (put_bytes D off bs)) = take n (drop k bs)"
  using assms by (simp add: put_bytes_def)

lemma field_put_bytes_other:
  assumes "off + length bs \<le> length D" and "o' + n \<le> off \<or> off + length bs \<le> o'"
  shows "take n (drop o' (put_bytes D off bs)) = take n (drop o' D)"
proof (cases "o' + n \<le> off")
  case True
  then show ?thesis using assms(1) by (simp add: put_bytes_def drop_take)
next
  case False
  then have "off + length bs \<le> o'" using assms(2) by simp
  then show ?thesis using assms(1) by (simp add: put_bytes_def)
qed

lemma length_words: "length (concat (map (bytes_of_word n) ws)) = n * length ws"
  by (induction ws) simp_all

lemma nth_words: "i < length ws \<Longrightarrow> take n (drop (n * i) (concat (map (bytes_of_word n) ws))) = bytes_of_word n (ws ! i)"
proof (induction ws arbitrary: i)
  case (Cons w ws)
  then show ?case by (cases i) simp_all
qed simp

lemma word_bytes: "word_of_bytes (bytes_of_word 4 (w :: u32)) = w" "word_of_bytes (bytes_of_word 2 (v :: u16)) = v"
  by (simp_all add: word_of_bytes_of_word)

definition dinode_ok :: "dinode \<Rightarrow> bool" where
  "dinode_ok x \<longleftrightarrow> length (d_addrs x) = NDIRECT + 1"

lemma length_dinode_bytes: "dinode_ok x \<Longrightarrow> length (dinode_bytes x) = 64"
  by (simp add: dinode_ok_def dinode_bytes_def length_words NDIRECT_def)

lemma get_dinode_bytes:
  assumes "dinode_ok x"
  shows "get_dinode (dinode_bytes x) 0 = x"
proof -
  have "get32 (dinode_bytes x) (12 + 4 * i) = d_addrs x ! i" if "i < NDIRECT + 1" for i
  proof -
    have "drop (12 + 4 * i) (dinode_bytes x) = drop (4 * i) (concat (map (bytes_of_word 4) (d_addrs x)))"
      by (simp add: dinode_bytes_def)
    then show ?thesis using nth_words [of i "d_addrs x" 4] that assms by (simp add: get32_def dinode_ok_def word_bytes)
  qed
  then have "map (\<lambda>i. get32 (dinode_bytes x) (12 + 4 * i)) [0..<NDIRECT + 1] = d_addrs x"
    using assms by (intro nth_equalityI) (simp_all add: dinode_ok_def del: upt_Suc)
  then show ?thesis
    by (simp add: get_dinode_def del: upt_Suc) (simp add: get16_def get32_def dinode_bytes_def word_bytes)
qed

lemma get_fields_shift:
  assumes "take 64 (drop o' D) = take 64 (drop o'' D')" and "k + 4 \<le> 64"
  shows "get32 D (o' + k) = get32 D' (o'' + k)" and "get16 D (o' + k) = get16 D' (o'' + k)"
proof -
  have "take n (drop (o' + k) D) = take n (drop (o'' + k) D')" if "n \<le> 4" for n
  proof -
    have "take n (drop k (take 64 (drop o' D))) = take n (drop k (take 64 (drop o'' D')))" using assms(1) by simp
    moreover have "min n (64 - k) = n" using that assms(2) by simp
    ultimately show ?thesis by (simp add: drop_take take_take add.commute)
  qed
  then show "get32 D (o' + k) = get32 D' (o'' + k)" "get16 D (o' + k) = get16 D' (o'' + k)"
    by (simp_all add: get32_def get16_def)
qed

lemma get_dinode_shift:
  assumes "take 64 (drop o' D) = take 64 (drop o'' D')"
  shows "get_dinode D o' = get_dinode D' o''"
proof -
  have "get32 D (o' + (12 + 4 * i)) = get32 D' (o'' + (12 + 4 * i))" if "i < 13" for i
    by (rule get_fields_shift [OF assms]) (use that in simp)
  moreover note get_fields_shift [OF assms, of 8] get_fields_shift [OF assms, of 0] get_fields_shift [OF assms, of 2]
    get_fields_shift [OF assms, of 4] get_fields_shift [OF assms, of 6]
  ultimately show ?thesis by (simp add: get_dinode_def NDIRECT_def add.assoc)
qed


definition sample_dinode :: dinode where
  "sample_dinode = \<lparr>d_type = T_FILE, d_major = 0, d_minor = 0, d_nlink = 1, d_size = 700, d_addrs = 45 # replicate 12 0\<rparr>"


end
