(* ===== verification/Fsread.thy ===== *)
theory Fsread
  imports Fsdata Logcrash
begin

text \<open>
  Reading a file: \<^verbatim>\<open>bmap\<close> finds the blocks of a file without changing it, and \<^verbatim>\<open>readi\<close> returns the bytes
  of the file from the offset on, as far as the file goes.
\<close>

section \<open>Looking at a block\<close>

lemma peek_block:
  assumes c: "calm d s pr"
  shows "\<exists>i s1 s2. bread d x s = Some (i, s1) \<and> b_data (bufs s1 ! i) = content d s x \<and> bframe s s1 \<and>
    brelse i s1 = Some s2 \<and> bmoved pr d [] s s2"
proof -
  obtain i X s1 where p: "bread d x s = Some (i, s1)" "got pr i X s s1" "i < NBUF" "b_dev X = d" "b_blockno X = x" "b_valid X \<noteq> 0"
    "b_refcnt X = rc s i + 1" "b_data X = content d s x" "bc_inv d {i} s1 pr" "content d s1 = content d s"
    "rc s i = 0 \<longrightarrow> content d s x = disk s x" "cache_at d x s = Some i \<or> cache_at d x s = None \<and> rc s i = 0"
    using calm_bread [OF c] by blast
  have len: "length (bufs s) = NBUF" using c by (auto simp: calm_def bc_inv_def bc_shape_def)
  have b1: "bufs s1 = (bufs s)[i := X]" and fr: "bframe s s1" using p(2) by (simp_all add: got_def)
  have X: "bufs s1 ! i = X" using b1 p(3) len by simp
  have "b_data (bufs s1 ! i) = disk s1 (b_blockno (bufs s1 ! i))" if "rc s1 i = 1"
    using that p(2,5,7,8,11) X by (simp add: rc_def got_def)
  then obtain s2 where s2: "brelse i s1 = Some s2" "bc_inv d ({i} - {i}) s2 pr" "content d s2 = content d s1"
    "bufs s2 = (bufs s1)[i := (bufs s1 ! i)\<lparr>b_refcnt := rc s1 i - 1\<rparr>]" "disk s2 = disk s1" "dwrites s2 = dwrites s1"
    "lksame (lk s1) (lk s2)" "pwoken (procs s1) (procs s2)" "bframe s1 s2"
    using brelse_spec [OF p(9), of i] by auto
  have "rc s2 j = rc s j" for j using s2(4) b1 p(3,7) len by (cases "j = i") (simp_all add: rc_def)
  then have "calm d s2 pr" using calm_mono [OF c, of s2] s2(2) by simp
  moreover have "lksame (lk s) (lk s2)" using p(2) s2(7) lksame_trans by (auto simp: got_def)
  moreover have "bframe s s2" using bframe_trans [OF fr s2(9)] .
  ultimately have "bmoved pr d [] s s2" using s2(3,5,6,8) p(2,10) by (simp add: bmoved_def got_def)
  then show ?thesis using p(1,8) X fr s2(1) by blast
qed

lemma bframe_itable:
  fixes s s' :: "'z kfs_scheme"
  assumes "bframe s s'"
  shows "itable s' = itable s" and "sb s' = sb s"
proof -
  have e: "bstrip s' = bstrip s" using assms by (simp add: bframe_def)
  show "itable s' = itable s" using arg_cong [OF e, of itable] by (simp add: bstrip_def)
  show "sb s' = sb s" using arg_cong [OF e, of sb] by (simp add: bstrip_def)
qed

section \<open>The blocks of a file\<close>

definition file_addr :: "u32 \<Rightarrow> 'z kfs_scheme \<Rightarrow> nat \<Rightarrow> nat \<Rightarrow> u32" where
  "file_addr d s ip bn =
     (if bn < NDIRECT then i_addrs (itable s ! ip) ! bn
      else get32 (content d s (i_addrs (itable s ! ip) ! NDIRECT)) (4 * (bn - NDIRECT)))"

definition mapped :: "u32 \<Rightarrow> 'z kfs_scheme \<Rightarrow> nat \<Rightarrow> nat \<Rightarrow> bool" where
  "mapped d s ip bn \<longleftrightarrow> bn < MAXFILE \<and> file_addr d s ip bn \<noteq> 0 \<and> (NDIRECT \<le> bn \<longrightarrow> i_addrs (itable s ! ip) ! NDIRECT \<noteq> 0)"

definition file_bytes :: "u32 \<Rightarrow> 'z kfs_scheme \<Rightarrow> nat \<Rightarrow> nat \<Rightarrow> nat \<Rightarrow> u8 list" where
  "file_bytes d s ip off n = map (\<lambda>k. content d s (file_addr d s ip (k div BSIZE)) ! (k mod BSIZE)) [off..<off + n]"

lemma moved_file:
  fixes s s' :: "'z kfs_scheme"
  assumes "bmoved pr d [] s s'"
  shows "itable s' = itable s" "content d s' = content d s" "file_addr d s' ip = file_addr d s ip"
    "mapped d s' ip = mapped d s ip" "file_bytes d s' ip = file_bytes d s ip" "calm d s' pr"
proof -
  show i: "itable s' = itable s" and c: "content d s' = content d s" and "calm d s' pr"
    using assms bframe_itable [of s s'] by (auto simp: bmoved_def)
  show a: "file_addr d s' ip = file_addr d s ip" by (simp add: file_addr_def fun_eq_iff i c)
  show "mapped d s' ip = mapped d s ip" "file_bytes d s' ip = file_bytes d s ip"
    by (simp_all add: mapped_def file_bytes_def fun_eq_iff i c a)
qed

lemma bmoved_refl: "calm d s pr \<Longrightarrow> bmoved pr d [] s s"
  by (simp add: bmoved_def)

lemma bmap_mapped:
  fixes s :: "'z kfs_scheme"
  assumes c: "calm d s pr" and dev: "i_dev (itable s ! ip) = d" and m: "mapped d s ip bn"
  shows "\<exists>s'. bmap ip bn s = Some (file_addr d s ip bn, s') \<and> bmoved pr d [] s s'"
proof (cases "bn < NDIRECT")
  case True
  then show ?thesis using m bmoved_refl [OF c] by (simp add: bmap_def mapped_def file_addr_def)
next
  case False
  let ?x = "i_addrs (itable s ! ip) ! NDIRECT"
  obtain i s1 s2 where p: "bread d ?x s = Some (i, s1)" "b_data (bufs s1 ! i) = content d s ?x" "bframe s s1"
    "brelse i s1 = Some s2" "bmoved pr d [] s s2"
    using peek_block [OF c] by blast
  have "?x \<noteq> 0" "bn - NDIRECT < NINDIRECT" "get32 (content d s ?x) (4 * (bn - NDIRECT)) \<noteq> 0"
    using m False by (auto simp: mapped_def file_addr_def MAXFILE_def)
  then have "bmap ip bn s = Some (file_addr d s ip bn, s2)"
    using False dev p(1,2,4) by (simp add: bmap_def file_addr_def Let_def)
  then show ?thesis using p(5) by blast
qed

section \<open>Reading\<close>

lemma file_bytes_block:
  assumes "length (content d s (file_addr d s ip (off div BSIZE))) = BSIZE" and "m \<le> BSIZE - off mod BSIZE"
  shows "take m (drop (off mod BSIZE) (content d s (file_addr d s ip (off div BSIZE)))) = file_bytes d s ip off m"
proof -
  have "(off + j) div BSIZE = off div BSIZE \<and> (off + j) mod BSIZE = off mod BSIZE + j" if "j < m" for j
  proof -
    have l: "off mod BSIZE + j < BSIZE" using that assms(2) by (simp add: BSIZE_def)
    have "off + j = (off mod BSIZE + j) + off div BSIZE * BSIZE" by (simp add: algebra_simps)
    then show ?thesis using l by (metis add.commute add_cancel_right_right div_less div_mult_self1 gr_implies_not0 mod_less mod_mult_self1)
  qed
  then show ?thesis
    using assms by (intro nth_equalityI) (simp_all add: file_bytes_def)
qed

lemma file_bytes_append: "file_bytes d s ip off a @ file_bytes d s ip (off + a) b = file_bytes d s ip off (a + b)"
proof -
  have "[off..<off + (a + b)] = [off..<off + a] @ [off + a..<off + a + b]"
    using upt_add_eq_append [of off "off + a" b] by (simp add: add.assoc)
  then show ?thesis by (simp add: file_bytes_def)
qed

lemma readi_loop_local:
  fixes s :: "'z kfs_scheme"
  assumes "calm d s pr" and "i_dev (itable s ! ip) = d" and "\<And>bn. bn * BSIZE < off + n \<Longrightarrow> mapped d s ip bn"
    and "\<And>b. length (content d s b) = BSIZE" and "tot \<le> n"
  shows "\<exists>s'. readi_loop ip ToLocal off n tot acc s = Some ((i32 (int n), acc @ file_bytes d s ip (off + tot) (n - tot)), s') \<and> bmoved pr d [] s s'"
  using assms
proof (induction "n - tot" arbitrary: tot acc s rule: less_induct)
  case less
  show ?case
  proof (cases "tot < n")
    case False
    then have "tot = n" using less.prems(5) by simp
    then show ?thesis using bmoved_refl [OF less.prems(1)] by (simp add: readi_loop.simps [of ip _ off n] file_bytes_def)
  next
    case True
    let ?bn = "(off + tot) div BSIZE" and ?m = "min (n - tot) (BSIZE - (off + tot) mod BSIZE)"
    have mp: "mapped d s ip ?bn"
    proof (rule less.prems(3))
      have "?bn * BSIZE \<le> off + tot" by simp
      then show "?bn * BSIZE < off + n" using True by linarith
    qed
    obtain s1 where s1: "bmap ip ?bn s = Some (file_addr d s ip ?bn, s1)" "bmoved pr d [] s s1"
      using bmap_mapped [OF less.prems(1,2) mp] by blast
    note f1 = moved_file [OF s1(2)]
    obtain i s2 s3 where p: "bread d (file_addr d s ip ?bn) s1 = Some (i, s2)" "b_data (bufs s2 ! i) = content d s1 (file_addr d s ip ?bn)"
      "bframe s1 s2" "brelse i s2 = Some s3" "bmoved pr d [] s1 s3"
      using peek_block [OF f1(6)] by blast
    note f3 = moved_file [OF p(5)]
    let ?bs = "file_bytes d s ip (off + tot) ?m"
    have bs: "take ?m (drop ((off + tot) mod BSIZE) (b_data (bufs s2 ! i))) = ?bs"
      unfolding p(2) f1(2) by (rule file_bytes_block) (simp_all add: less.prems(4))
    have step: "readi_loop ip ToLocal off n tot acc s = readi_loop ip ToLocal off n (tot + ?m) (acc @ ?bs) s3"
      using True mp s1(1) p(1,4) less.prems(2) bs
      by (subst readi_loop.simps) (simp add: f1(1) copy_dst_def mapped_def Let_def)
    have pos: "0 < ?m" using True by (simp add: BSIZE_def)
    have eqs: "itable s3 = itable s" "content d s3 = content d s" "mapped d s3 ip = mapped d s ip" "file_bytes d s3 ip = file_bytes d s ip"
      using f1 f3 by simp_all
    have "\<exists>s'. readi_loop ip ToLocal off n (tot + ?m) (acc @ ?bs) s3 =
        Some ((i32 (int n), (acc @ ?bs) @ file_bytes d s3 ip (off + (tot + ?m)) (n - (tot + ?m))), s') \<and> bmoved pr d [] s3 s'"
    proof (rule less.hyps)
      show "n - (tot + ?m) < n - tot" using True pos by linarith
      show "tot + ?m \<le> n" using True by simp
    qed (use f3(6) eqs less.prems in simp_all)
    then obtain s' where r: "readi_loop ip ToLocal off n (tot + ?m) (acc @ ?bs) s3 =
        Some ((i32 (int n), (acc @ ?bs) @ file_bytes d s ip (off + (tot + ?m)) (n - (tot + ?m))), s')" "bmoved pr d [] s3 s'"
      unfolding eqs by blast
    have "?m + (n - (tot + ?m)) = n - tot" using True by simp
    then have "?bs @ file_bytes d s ip (off + (tot + ?m)) (n - (tot + ?m)) = file_bytes d s ip (off + tot) (n - tot)"
      using file_bytes_append [of d s ip "off + tot" ?m "n - (tot + ?m)"] by (simp add: add.assoc)
    moreover have "bmoved pr d [] s s'" using bmoved_trans [OF s1(2) bmoved_trans [OF p(5) r(2)]] by simp
    ultimately show ?thesis using step r(1) by simp
  qed
qed

text \<open>How many bytes there are to read; an offset past the end or a range that wraps around gives none.\<close>

definition clipped :: "u32 \<Rightarrow> u32 \<Rightarrow> u32 \<Rightarrow> nat" where
  "clipped sz off n = (if unat off + unat n < 2 ^ 32 then min (unat n) (unat sz - unat off) else 0)"

lemma wraps: "off + n < off \<longleftrightarrow> 2 ^ 32 \<le> unat off + unat (n :: u32)"
proof (cases "unat off + unat n < 2 ^ 32")
  case True
  then have "unat (off + n) = unat off + unat n" by (simp add: unat_word_ariths)
  then show ?thesis using True by (simp add: word_less_nat_alt)
next
  case False
  have "unat (off + n) = unat off + unat n - 2 ^ 32"
    using False unat32_bound [of off] unat32_bound [of n] by (simp add: unat_word_ariths mod_if)
  then show ?thesis using False unat32_bound [of n] by (simp add: word_less_nat_alt)
qed

lemma readi_start:
  "readi ip dst off n s = (if clipped (i_size (itable s ! ip)) off n = 0 then Some ((0, []), s)
     else readi_loop ip dst (unat off) (clipped (i_size (itable s ! ip)) off n) 0 [] s)"
proof -
  let ?size = "i_size (itable s ! ip)"
  have nil: "readi_loop ip dst (unat off) 0 0 [] s = Some ((0, []), s)" by (subst readi_loop.simps) (simp add: i32_def)
  show ?thesis
  proof (cases "off + n < off \<or> ?size < off")
    case True
    then have "clipped ?size off n = 0" using wraps [of off n] by (auto simp: clipped_def word_less_nat_alt)
    then show ?thesis using True by (auto simp: readi_def)
  next
    case False
    then have le: "unat off \<le> unat ?size" and nw: "unat off + unat n < 2 ^ 32" using wraps [of off n] by (auto simp: word_less_nat_alt)
    have "unat (off + n) = unat off + unat n" using nw by (simp add: unat_word_ariths)
    moreover have "unat (?size - off) = unat ?size - unat off" using le by (simp add: unat_sub word_le_nat_alt)
    ultimately have "unat (if off + n > ?size then ?size - off else n) = clipped ?size off n"
      using le nw by (auto simp: clipped_def word_less_nat_alt)
    then have "readi ip dst off n s = readi_loop ip dst (unat off) (clipped ?size off n) 0 [] s" using False by (simp add: readi_def Let_def)
    then show ?thesis using nil by simp
  qed
qed

text \<open>
  C7: \<^verbatim>\<open>readi\<close> into kernel memory returns exactly the bytes of the file from the offset on, as many as
  were asked for and as the file still has, whatever blocks they lie in and whether these blocks are
  cached or not; it changes no block and no inode. An offset past the end and a range that wraps
  around 32 bits give no bytes.
\<close>

theorem readi_returns_file_bytes:
  fixes s :: "'z kfs_scheme"
  assumes "calm d s pr" and "i_dev (itable s ! ip) = d" and "\<forall>bn. bn * BSIZE < unat (i_size (itable s ! ip)) \<longrightarrow> mapped d s ip bn"
    and "\<forall>b. length (content d s b) = BSIZE" and "m = clipped (i_size (itable s ! ip)) off n"
  shows "\<exists>s'. readi ip ToLocal off n s = Some ((int m, file_bytes d s ip (unat off) m), s') \<and>
    calm d s' pr \<and> content d s' = content d s \<and> itable s' = itable s \<and> disk s' = disk s"
proof (cases "m = 0")
  case True
  then show ?thesis using assms(1,5) by (simp add: readi_start file_bytes_def)
next
  case False
  have size: "unat off + m \<le> unat (i_size (itable s ! ip))" using False assms(5) by (auto simp: clipped_def split: if_splits)
  have mp: "mapped d s ip bn" if "bn * BSIZE < unat off + m" for bn
    using that size assms(3) by (meson less_le_trans)
  have "mapped d s ip ((unat off + m - 1) div BSIZE)"
  proof (rule mp)
    have "(unat off + m - 1) div BSIZE * BSIZE \<le> unat off + m - 1" by simp
    then show "(unat off + m - 1) div BSIZE * BSIZE < unat off + m" using False by linarith
  qed
  then have "(unat off + m - 1) div BSIZE < 268" by (simp add: mapped_def MAXFILE_def NDIRECT_def NINDIRECT_def BSIZE_def)
  then have "unat off + m \<le> 274432" by (simp add: BSIZE_def div_less_iff_less_mult)
  then have i: "i32 (int m) = int m" by (simp add: i32_def)
  obtain s' where r: "readi_loop ip ToLocal (unat off) m 0 [] s = Some ((i32 (int m), [] @ file_bytes d s ip (unat off + 0) (m - 0)), s')"
    and b: "bmoved pr d [] s s'"
    using readi_loop_local [of d s pr ip "unat off" m 0 "[]"] assms(1,2,4) mp by blast
  have "disk s' = disk s" using b by (simp add: bmoved_def)
  moreover have "readi ip ToLocal off n s = Some ((int m, file_bytes d s ip (unat off) m), s')"
    using r False unfolding readi_start assms(5) [symmetric] i by simp
  ultimately show ?thesis using moved_file(1,2,6) [OF b] by blast
qed

section \<open>A sample file\<close>

lemma calm_fields:
  fixes s :: "'a kbio_scheme" and t :: "'b kbio_scheme"
  assumes "lk t = lk s" "procs t = procs s" "sleeplocks t = sleeplocks s" "bufs t = bufs s" "lru t = lru s" "disk t = disk s"
  shows "calm d t pr \<longleftrightarrow> calm d s pr" and "content d t = content d s"
proof -
  show "calm d t pr \<longleftrightarrow> calm d s pr"
    by (simp add: calm_def bc_inv_def bio_ready_def bc_shape_def rc_def has_lock_def mypid_def procs_ready_def myproc_def mycpu_def assms)
  show "content d t = content d s" by (simp add: content_def cache_at_def fun_eq_iff assms split: option.split)
qed

definition fs_sample :: kfs where
  "fs_sample = klog.extend (log_sample unused_buf 0 (\<lambda>b. replicate 1024 (if b = 60 then 7 else 0)))
     (kfs.fields \<lparr>sb_magic = FSMAGIC, sb_size = 200, sb_nblocks = 100, sb_ninodes = 20, sb_nlog = 30, sb_logstart = 2, sb_inodestart = 33, sb_bmapstart = 40\<rparr>
       (replicate 50 \<lparr>i_dev = 1, i_inum = 5, i_ref = 1, i_valid = 1, i_type = T_FILE, i_major = 0, i_minor = 0, i_nlink = 1, i_size = 700,
          i_addrs = 60 # replicate 12 0\<rparr>))"

lemma fs_sample_fields:
  "calm 1 fs_sample 0" "content 1 fs_sample = (\<lambda>b. replicate 1024 (if b = 60 then 7 else 0))"
proof -
  let ?t = "log_sample unused_buf 0 (\<lambda>b. replicate 1024 (if b = 60 then 7 else 0))"
  have f: "lk fs_sample = lk ?t" "procs fs_sample = procs ?t" "sleeplocks fs_sample = sleeplocks ?t" "bufs fs_sample = bufs ?t"
    "lru fs_sample = lru ?t" "disk fs_sample = disk ?t"
    by (simp_all add: fs_sample_def klog.extend_def)
  show "calm 1 fs_sample 0" using calm_fields(1) [OF f] log_sample_calm by blast
  show "content 1 fs_sample = (\<lambda>b. replicate 1024 (if b = 60 then 7 else 0))" using calm_fields(2) [OF f] log_sample_content(2) by simp
qed

lemma fs_sample_lk: "lkwf (lk fs_sample)" "held (lk fs_sample) = {}" "length (procs fs_sample) = NPROC"
  by (auto simp: fs_sample_def klog.extend_def log_sample_def boot_lk_def lkwf_def held_def NPROC_def)

theorem readi_returns_file_bytes_witness:
  "\<exists>s'. readi 0 ToLocal 690 20 fs_sample = Some ((10, [7, 7, 7, 7, 7, 7, 7, 7, 7, 7]), s')"
proof -
  have i: "itable fs_sample ! 0 = \<lparr>i_dev = 1, i_inum = 5, i_ref = 1, i_valid = 1, i_type = T_FILE, i_major = 0, i_minor = 0, i_nlink = 1,
      i_size = 700, i_addrs = 60 # replicate 12 0\<rparr>"
    by (simp add: fs_sample_def klog.extend_def kfs.fields_def)
  have "mapped 1 fs_sample 0 bn" if "bn * BSIZE < 700" for bn
    using that by (cases bn) (simp_all add: mapped_def file_addr_def i BSIZE_def NDIRECT_def MAXFILE_def)
  then have "\<exists>s'. readi 0 ToLocal 690 20 fs_sample = Some ((int 10, file_bytes 1 fs_sample 0 (unat (690 :: u32)) 10), s') \<and>
      calm 1 s' 0 \<and> content 1 s' = content 1 fs_sample \<and> itable s' = itable fs_sample \<and> disk s' = disk fs_sample"
    by (intro readi_returns_file_bytes) (simp_all add: fs_sample_fields i BSIZE_def clipped_def)
  moreover have "file_bytes 1 fs_sample 0 690 10 = [7, 7, 7, 7, 7, 7, 7, 7, 7, 7]"
    by (simp add: file_bytes_def file_addr_def i fs_sample_fields BSIZE_def NDIRECT_def upt_rec)
  ultimately show ?thesis by auto
qed

end
