(* ===== verification/Lineedit.thy ===== *)
theory Lineedit
  imports Console Fsread
begin

text \<open>
  The console's line discipline, against its specification: a queue of finished input and the line
  being edited.
\<close>

section \<open>The specification\<close>

text \<open>
  What a key does to the finished input \<open>q\<close> and the line \<open>l\<close>: control-U erases the line, backspace and
  delete erase its last character, a return ends the line like a newline, a newline, control-D or the
  128th character makes the line available to readers. When 128 characters are waiting, others are
  dropped.
\<close>

definition edit_key :: "int \<Rightarrow> u8 list \<times> u8 list \<Rightarrow> u8 list \<times> u8 list" where
  "edit_key c = (\<lambda>(q, l).
     if c = 21 then (q, [])
     else if c = 8 \<or> c = 127 then (q, butlast l)
     else if c = 0 \<or> 128 \<le> length q + length l then (q, l)
     else let x = (if c = 13 then 10 else word_of_int c) in
       if x = 10 \<or> x = 4 \<or> length q + length l + 1 = 128 then (q @ l @ [x], []) else (q, l @ [x]))"

section \<open>The ring\<close>

definition ring :: "u8 list \<Rightarrow> u32 \<Rightarrow> nat \<Rightarrow> u8 list" where
  "ring buf r n = map (\<lambda>j. buf ! ((unat r + j) mod 128)) [0..<n]"

lemma length_ring [simp]: "length (ring buf r n) = n"
  by (simp add: ring_def)

lemma ring_butlast: "butlast (ring buf r n) = ring buf r (n - 1)"
  by (cases n) (simp_all add: ring_def)

lemma ring_pos: "unat (e :: u32) mod 128 = (unat r + unat (e - r)) mod 128"
proof -
  have "unat (r + (e - r)) = (unat r + unat (e - r)) mod 2 ^ 32" by (simp only: unat_word_ariths) simp
  then show ?thesis by (simp add: mod_mod_cancel)
qed

lemma ring_push:
  assumes "length buf = 128" and "unat (e - r) = n" and "n < 128"
  shows "ring (buf[unat e mod 128 := x]) r (n + 1) = ring buf r n @ [x]"
proof -
  have p: "unat e mod 128 = (unat r + n) mod 128" using ring_pos [of e r] assms(2) by simp
  have "(unat r + n) mod 128 \<noteq> (unat r + j) mod 128" if "j < n" for j
  proof
    assume "(unat r + n) mod 128 = (unat r + j) mod 128"
    then have "128 dvd (unat r + n) - (unat r + j)" using mod_eq_dvd_iff_nat [of "unat r + j" "unat r + n" 128] that by simp
    then show False using that assms(3) by (auto dest: dvd_imp_le)
  qed
  then show ?thesis using assms(1) by (auto simp: ring_def p nth_list_update)
qed

section \<open>The state of the console\<close>

definition count :: "'z kcons_scheme \<Rightarrow> nat" where "count s = unat (cons_e s - cons_r s)"
definition mark :: "'z kcons_scheme \<Rightarrow> nat" where "mark s = unat (cons_w s - cons_r s)"
definition typed :: "'z kcons_scheme \<Rightarrow> u8 list" where "typed s = ring (cons_buf s) (cons_r s) (count s)"

text \<open>The finished input, the line being edited, and the bounds between the three indices.\<close>

definition finished :: "'z kcons_scheme \<Rightarrow> u8 list" where "finished s = take (mark s) (typed s)"
definition editing :: "'z kcons_scheme \<Rightarrow> u8 list" where "editing s = drop (mark s) (typed s)"

definition cons_ok :: "'z kcons_scheme \<Rightarrow> bool" where
  "cons_ok s \<longleftrightarrow> length (cons_buf s) = 128 \<and> mark s \<le> count s \<and> count s \<le> 128 \<and> 10 \<notin> set (editing s)"

lemma length_typed [simp]: "length (typed s) = count s"
  by (simp add: typed_def)

lemma lengths: "cons_ok s \<Longrightarrow> length (finished s) = mark s" "length (editing s) = count s - mark s"
  by (simp_all add: finished_def editing_def cons_ok_def)

text \<open>Printing a character changes the output and the lock state of the hart only.\<close>

lemma uartputc_exact:
  assumes "lkwf (lk s)" and "panicked s = 0"
  shows "\<exists>l out. uartputc_sync c s = Some (s\<lparr>lk := l, uart_out := out\<rparr>) \<and> lksame (lk s) l"
proof (cases "panicking s = 0")
  case True
  have "0 \<le> noff (cpus (lk s) (tp (lk s)))" "0 < noff (cpus (lk s) (tp (lk s))) \<longrightarrow> \<not> sie (lk s)"
    using assms(1) by (auto simp: lkwf_def)
  then obtain l where l: "pop_off (push_off (lk s)) = Some l" "locks l = locks (lk s)" "tp l = tp (lk s)" "sie l = sie (lk s)"
    "noff (cpus l (tp (lk s))) = noff (cpus (lk s) (tp (lk s)))" "\<forall>h. c_proc (cpus l h) = c_proc (cpus (lk s) h)"
    using pop_off_push_off by blast
  have "held l = held (lk s)" using l(2) by (simp add: held_def)
  then have "lksame (lk s) l" using l by (simp add: lksame_def lkwf_def same_hart_def)
  then show ?thesis using True assms(2) l(1)
    by (intro exI [of _ l] exI [of _ "uart_out s @ [word_of_int c]"]) (simp add: uartputc_sync_def WriteTHR_def)
next
  case False
  then show ?thesis using assms(2) by (intro exI [of _ "lk s"] exI [of _ "uart_out s @ [word_of_int c]"]) (simp add: uartputc_sync_def WriteTHR_def)
qed

lemma consputc_exact:
  assumes "lkwf (lk s)" and "panicked s = 0"
  shows "\<exists>l out. consputc c s = Some (s\<lparr>lk := l, uart_out := out\<rparr>) \<and> lksame (lk s) l"
proof (cases "c = BACKSPACE")
  case False
  then show ?thesis using uartputc_exact [OF assms] by (simp add: consputc_def)
next
  case True
  obtain l1 o1 where 1: "uartputc_sync 8 s = Some (s\<lparr>lk := l1, uart_out := o1\<rparr>)" "lksame (lk s) l1"
    using uartputc_exact [OF assms] by blast
  have w1: "lkwf l1" using 1(2) assms(1) by (simp add: lksame_def)
  obtain l2 o2 where 2: "uartputc_sync 32 (s\<lparr>lk := l1, uart_out := o1\<rparr>) = Some (s\<lparr>lk := l2, uart_out := o2\<rparr>)" "lksame l1 l2"
    using uartputc_exact [of "s\<lparr>lk := l1, uart_out := o1\<rparr>" 32] w1 assms(2) by auto
  have w2: "lkwf l2" using 2(2) w1 by (simp add: lksame_def)
  obtain l3 o3 where 3: "uartputc_sync 8 (s\<lparr>lk := l2, uart_out := o2\<rparr>) = Some (s\<lparr>lk := l3, uart_out := o3\<rparr>)" "lksame l2 l3"
    using uartputc_exact [of "s\<lparr>lk := l2, uart_out := o2\<rparr>" 8] w2 assms(2) by auto
  have "lksame (lk s) l3" using 1(2) 2(2) 3(2) lksame_trans by blast
  then show ?thesis using True 1(1) 2(1) 3(1) by (intro exI [of _ l3] exI [of _ o3]) (simp add: consputc_def)
qed

lemma typed_cong:
  assumes "cons_buf t = cons_buf s" "cons_r t = cons_r s" "cons_w t = cons_w s" "cons_e t = cons_e s"
  shows "count t = count s" "mark t = mark s" "typed t = typed s" "finished t = finished s" "editing t = editing s" "cons_ok t = cons_ok s"
  by (simp_all add: count_def mark_def typed_def finished_def editing_def cons_ok_def assms)

text \<open>The last typed character.\<close>

lemma last_typed:
  assumes "mark s < count s"
  shows "cons_buf s ! (unat (cons_e s - 1) mod 128) = last (editing s)" and "editing s \<noteq> []" and "unat (cons_e s - 1 - cons_r s) = count s - 1"
proof -
  have pos: "0 < count s" using assms by simp
  then have "1 \<le> cons_e s - cons_r s" by (simp add: count_def word_le_nat_alt)
  then show n: "unat (cons_e s - 1 - cons_r s) = count s - 1"
    using unat_sub [of 1 "cons_e s - cons_r s"] by (simp add: count_def algebra_simps)
  show ne: "editing s \<noteq> []" using assms by (simp add: editing_def)
  have "last (editing s) = typed s ! (count s - 1)" using assms ne by (simp add: editing_def last_drop last_conv_nth)
  also have "\<dots> = cons_buf s ! ((unat (cons_r s) + (count s - 1)) mod 128)" using pos by (simp add: typed_def ring_def)
  also have "(unat (cons_r s) + (count s - 1)) mod 128 = unat (cons_e s - 1) mod 128" using ring_pos [of "cons_e s - 1" "cons_r s"] n by simp
  finally show "cons_buf s ! (unat (cons_e s - 1) mod 128) = last (editing s)" by simp
qed

lemma erase_one:
  assumes ok: "cons_ok s" and m: "mark s < count s" and t: "t = s\<lparr>cons_e := cons_e s - 1\<rparr>"
  shows "cons_ok t" "finished t = finished s" "editing t = butlast (editing s)" "count t = count s - 1" "mark t = mark s"
proof -
  show c: "count t = count s - 1" using last_typed(3) [OF m] t by (simp add: count_def)
  show k: "mark t = mark s" using t by (simp add: mark_def)
  have ty: "typed t = butlast (typed s)" using t c by (simp add: typed_def ring_butlast)
  show "finished t = finished s" using m by (simp add: finished_def ty k take_butlast)
  show e: "editing t = butlast (editing s)" by (simp add: editing_def ty k drop_butlast)
  show "cons_ok t" using ok m t c k e by (auto simp: cons_ok_def dest: in_set_butlastD)
qed

lemma kill_line_exact:
  assumes "cons_ok s" and "lkwf (lk s)" and "panicked s = 0"
  shows "\<exists>l out. kill_line s = Some (s\<lparr>cons_e := cons_w s, lk := l, uart_out := out\<rparr>) \<and> lksame (lk s) l"
  using assms
proof (induction "count s - mark s" arbitrary: s)
  case 0
  then have "count s = mark s" by (simp add: cons_ok_def)
  then have "cons_e s - cons_r s = cons_w s - cons_r s" by (simp only: count_def mark_def word_unat_eq_iff)
  then have e: "cons_e s = cons_w s" by simp
  then show ?case by (intro exI [of _ "lk s"] exI [of _ "uart_out s"]) (simp add: kill_line.simps [of s])
next
  case (Suc n)
  then have m: "mark s < count s" by simp
  then have ne: "cons_e s \<noteq> cons_w s" by (auto simp: count_def mark_def)
  have nl: "cons_buf s ! (unat (cons_e s - 1) mod INPUT_BUF_SIZE) \<noteq> 10"
    using last_typed(1,2) [OF m] Suc.prems(1) last_in_set by (fastforce simp: INPUT_BUF_SIZE_def cons_ok_def)
  note o = erase_one [OF Suc.prems(1) m refl]
  let ?t = "s\<lparr>cons_e := cons_e s - 1\<rparr>"
  obtain l1 o1 where p: "consputc BACKSPACE ?t = Some (?t\<lparr>lk := l1, uart_out := o1\<rparr>)" "lksame (lk s) l1"
    using consputc_exact [of ?t BACKSPACE] Suc.prems(2,3) by auto
  let ?u = "?t\<lparr>lk := l1, uart_out := o1\<rparr>"
  have u: "count ?u = count s - 1" "mark ?u = mark s" "cons_ok ?u" using o typed_cong [of ?u ?t] by simp_all
  have "\<exists>l out. kill_line ?u = Some (?u\<lparr>cons_e := cons_w ?u, lk := l, uart_out := out\<rparr>) \<and> lksame (lk ?u) l"
    using Suc.hyps(2) Suc.prems(2,3) p(2) u by (intro Suc.hyps(1)) (simp_all add: lksame_def)
  then obtain l2 o2 where k: "kill_line ?u = Some (s\<lparr>cons_e := cons_w s, lk := l2, uart_out := o2\<rparr>)" "lksame l1 l2" by auto
  have "lksame (lk s) l2" using p(2) k(2) lksame_trans by blast
  moreover have "kill_line s = kill_line ?u" using p(1) ne nl by (subst kill_line.simps) simp
  ultimately show ?case using k(1) by (intro exI [of _ l2] exI [of _ o2]) simp
qed

lemma store_one:
  assumes ok: "cons_ok s" and n: "count s < 128" and t: "t = s\<lparr>cons_buf := (cons_buf s)[unat (cons_e s) mod 128 := x], cons_e := cons_e s + 1\<rparr>"
  shows "count t = count s + 1" "mark t = mark s" "typed t = typed s @ [x]" "length (cons_buf t) = 128"
proof -
  have "unat ((cons_e s - cons_r s) + 1) = count s + 1" using n by (simp add: unat_word_ariths(1) count_def)
  then show c: "count t = count s + 1" using t by (simp add: count_def algebra_simps)
  show "mark t = mark s" "length (cons_buf t) = 128" using t ok by (simp_all add: mark_def cons_ok_def)
  show "typed t = typed s @ [x]"
    using ring_push [of "cons_buf s" "cons_e s" "cons_r s" "count s" x] ok n t c by (simp add: typed_def cons_ok_def count_def)
qed

lemma typed_parts: "finished s @ editing s = typed s"
  by (simp add: finished_def editing_def)

section \<open>The interrupt handler\<close>

text \<open>The part of \<^verbatim>\<open>consoleintr\<close> between taking and giving back the lock.\<close>

definition key_action :: "int \<Rightarrow> 'z kcons_scheme \<Rightarrow> 'z kcons_scheme option" where
  "key_action c s =
     (if c = ctrl 85 then kill_line s
      else if c = ctrl 72 \<or> c = 0x7F
      then if cons_e s \<noteq> cons_w s then consputc BACKSPACE (s\<lparr>cons_e := cons_e s - 1\<rparr>) else Some s
      else if c \<noteq> 0 \<and> unat (cons_e s - cons_r s) < INPUT_BUF_SIZE
      then do { let c = (if c = 13 then 10 else c);
                s \<leftarrow> consputc c s;
                let s = s\<lparr>cons_buf := (cons_buf s)[unat (cons_e s) mod INPUT_BUF_SIZE := word_of_int c], cons_e := cons_e s + 1\<rparr>;
                if c = 10 \<or> c = ctrl 68 \<or> unat (cons_e s - cons_r s) = INPUT_BUF_SIZE
                then wakeup ChConsR (s\<lparr>cons_w := cons_e s\<rparr>)
                else Some s }
      else Some s)"

lemma consoleintr_action:
  "c \<noteq> ctrl 80 \<Longrightarrow> consoleintr c s = do { s \<leftarrow> acquire ConsLock s; s \<leftarrow> key_action c s; release ConsLock s }"
  by (simp add: consoleintr_def key_action_def)

text \<open>What an action promises: the specified lines, and a wake-up of the readers if input was finished.\<close>

definition edited :: "int \<Rightarrow> 'z kcons_scheme \<Rightarrow> 'z kcons_scheme \<Rightarrow> bool" where
  "edited c s t \<longleftrightarrow> cons_ok t \<and> (finished t, editing t) = edit_key c (finished s, editing s) \<and> lksame (lk s) (lk t) \<and> panicked t = panicked s \<and>
     procs t = (if finished t = finished s then procs s else map (\<lambda>p. woken ChConsR (myproc s) p (procs s ! p)) [0..<NPROC])"

lemma erase_all:
  assumes ok: "cons_ok s" and t: "t = s\<lparr>cons_e := cons_w s, lk := l, uart_out := out\<rparr>"
  shows "cons_ok t" "finished t = finished s" "editing t = []"
proof -
  have c: "count t = mark s" "mark t = mark s" using t by (simp_all add: count_def mark_def)
  have "typed t = take (mark s) (typed s)"
    using ok c t by (simp add: typed_def ring_def take_map cons_ok_def min_def)
  then show f: "finished t = finished s" "editing t = []" using c ok by (simp_all add: finished_def editing_def cons_ok_def)
  then show "cons_ok t" using ok c t by (simp add: cons_ok_def)
qed

lemma key_kill:
  assumes "cons_ok s" and "lkwf (lk s)" and "panicked s = 0" and "c = 21"
  shows "\<exists>t. key_action c s = Some t \<and> edited c s t"
proof -
  obtain l out where k: "kill_line s = Some (s\<lparr>cons_e := cons_w s, lk := l, uart_out := out\<rparr>)" "lksame (lk s) l"
    using kill_line_exact [OF assms(1-3)] by blast
  then show ?thesis using erase_all [OF assms(1) refl] assms(4) by (simp add: key_action_def ctrl_def edited_def edit_key_def)
qed

lemma key_backspace:
  assumes ok: "cons_ok s" and lk: "lkwf (lk s)" "panicked s = 0" and c: "c = 8 \<or> c = 127"
  shows "\<exists>t. key_action c s = Some t \<and> edited c s t"
proof (cases "cons_e s = cons_w s")
  case True
  then have "count s = mark s" by (simp add: count_def mark_def)
  then have "editing s = []" by (simp add: editing_def)
  then show ?thesis using True c ok by (auto simp: key_action_def ctrl_def edited_def edit_key_def)
next
  case False
  have m: "mark s < count s"
  proof (rule ccontr)
    assume "\<not> mark s < count s"
    then have "count s = mark s" using ok by (simp add: cons_ok_def)
    then have "cons_e s - cons_r s = cons_w s - cons_r s" by (simp only: count_def mark_def word_unat_eq_iff)
    then show False using False by simp
  qed
  let ?t = "s\<lparr>cons_e := cons_e s - 1\<rparr>"
  obtain l out where p: "consputc BACKSPACE ?t = Some (?t\<lparr>lk := l, uart_out := out\<rparr>)" "lksame (lk s) l"
    using consputc_exact [of ?t BACKSPACE] lk by auto
  have "cons_ok (?t\<lparr>lk := l, uart_out := out\<rparr>)" "finished (?t\<lparr>lk := l, uart_out := out\<rparr>) = finished s" "editing (?t\<lparr>lk := l, uart_out := out\<rparr>) = butlast (editing s)"
    using erase_one [OF ok m refl] typed_cong [of "?t\<lparr>lk := l, uart_out := out\<rparr>" ?t] by simp_all
  then show ?thesis using False p c by (auto simp: key_action_def ctrl_def edited_def edit_key_def)
qed

lemma key_store:
  assumes ok: "cons_ok s" and pr: "procs_ready s" and pk: "panicked s = 0" and c: "0 < c" "c < 256" "c \<noteq> 21" "c \<noteq> 8" "c \<noteq> 127" and n: "count s < 128"
  shows "\<exists>t. key_action c s = Some t \<and> edited c s t"
proof -
  define k where "k = (if c = 13 then 10 else c)"
  define x :: u8 where "x = word_of_int k"
  have k: "0 < k" "k < 256" using c by (auto simp: k_def)
  have x: "x = 10 \<longleftrightarrow> k = 10" "x = 4 \<longleftrightarrow> k = 4"
    using k unfolding x_def by (auto simp: word_uint_eq_iff uint_word_of_int take_bit_int_eq_self)
  have xc: "x = (if c = 13 then 10 else word_of_int c)" by (simp add: x_def k_def)
  obtain l out where p: "consputc k s = Some (s\<lparr>lk := l, uart_out := out\<rparr>)" "lksame (lk s) l"
    using consputc_exact [OF procs_readyD(1) [OF pr] pk] by blast
  let ?s1 = "s\<lparr>lk := l, uart_out := out\<rparr>"
  define t where "t = ?s1\<lparr>cons_buf := (cons_buf s)[unat (cons_e s) mod 128 := x], cons_e := cons_e s + 1\<rparr>"
  have t: "count t = count s + 1" "mark t = mark s" "typed t = typed s @ [x]" "length (cons_buf t) = 128"
    using store_one [of ?s1 t x] typed_cong [of ?s1 s] ok n by (simp_all add: t_def)
  have act: "key_action c s = (if k = 10 \<or> k = 4 \<or> count t = 128 then wakeup ChConsR (t\<lparr>cons_w := cons_e t\<rparr>) else Some t)"
    using c n p(1) by (simp add: key_action_def ctrl_def INPUT_BUF_SIZE_def count_def t_def x_def flip: k_def)
  have len: "length (finished s) + length (editing s) = count s" using typed_parts [of s] by (metis length_append length_typed)
  have key: "edit_key c (finished s, editing s) =
      (if x = 10 \<or> x = 4 \<or> count t = 128 then (typed t, []) else (finished s, editing s @ [x]))"
    using c n len t(1) typed_parts [of s] by (simp add: edit_key_def Let_def t(3) flip: xc)
  show ?thesis
  proof (cases "k = 10 \<or> k = 4 \<or> count t = 128")
    case False
    have "finished t = finished s" "editing t = editing s @ [x]" using ok t by (simp_all add: finished_def editing_def cons_ok_def)
    moreover have "cons_ok t" using ok n t False calculation(2) x(1) by (auto simp: cons_ok_def)
    moreover have "procs t = procs s" "lk t = l" "panicked t = panicked s" by (simp_all add: t_def)
    ultimately show ?thesis using False act key p(2) x by (simp add: edited_def)
  next
    case True
    let ?u = "t\<lparr>cons_w := cons_e t\<rparr>"
    have pu: "procs_ready ?u" using pr p(2) by (simp add: procs_ready_def t_def lksame_def)
    have me: "myproc ?u = myproc s" using lksame_myproc [of s ?u] p(2) by (simp add: t_def)
    obtain l2 where w: "wakeup ChConsR ?u = Some (?u\<lparr>lk := l2, procs := map (\<lambda>p. woken ChConsR (myproc ?u) p (procs ?u ! p)) [0..<NPROC]\<rparr>)" "lksame (lk ?u) l2"
      using wakeup_exact [OF pu] by blast
    let ?v = "?u\<lparr>lk := l2, procs := map (\<lambda>p. woken ChConsR (myproc ?u) p (procs ?u ! p)) [0..<NPROC]\<rparr>"
    have v: "count ?v = count t" "mark ?v = count t" "typed ?v = typed t" by (simp_all add: count_def mark_def typed_def)
    then have f: "finished ?v = typed t" "editing ?v = []" using length_typed [of t] by (simp_all add: finished_def editing_def)
    then have "cons_ok ?v" using v t n by (simp add: cons_ok_def)
    moreover have "length (finished ?v) \<noteq> length (finished s)" using f(1) t(1) lengths(1) [OF ok] ok by (simp add: cons_ok_def)
    then have "finished ?v \<noteq> finished s" by (rule contrapos_nn) (rule arg_cong)
    moreover note this
    moreover have "lksame (lk s) l2" using w(2) p(2) lksame_trans by (auto simp: t_def)
    moreover have "panicked ?v = panicked s" by (simp add: t_def)
    moreover have "procs ?v = map (\<lambda>p. woken ChConsR (myproc s) p (procs s ! p)) [0..<NPROC]" using me by (simp add: t_def)
    ultimately show ?thesis using True act key w(1) x f by (simp add: edited_def)
  qed
qed

lemma key_ignored:
  assumes "cons_ok s" and "c = 0 \<or> 128 \<le> count s" and "c \<noteq> 21" "c \<noteq> 8" "c \<noteq> 127"
  shows "key_action c s = Some s \<and> edited c s s"
proof -
  have "length (finished s) + length (editing s) = count s" using typed_parts [of s] by (metis length_append length_typed)
  then show ?thesis using assms by (auto simp: key_action_def ctrl_def INPUT_BUF_SIZE_def count_def edited_def edit_key_def)
qed

definition key_ready :: "'z kcons_scheme \<Rightarrow> bool" where
  "key_ready s \<longleftrightarrow> cons_ok s \<and> procs_ready s \<and> ConsLock \<notin> held (lk s) \<and> panicked s = 0"

definition a_key :: "int \<Rightarrow> bool" where
  "a_key c \<longleftrightarrow> 0 \<le> c \<and> c < 256 \<and> c \<noteq> 16"

lemma key_edits:
  assumes "cons_ok s" and "procs_ready s" and "panicked s = 0" and "a_key c"
  shows "\<exists>t. key_action c s = Some t \<and> edited c s t"
proof -
  note lk = procs_readyD(1) [OF assms(2)]
  consider "c = 21" | "c = 8 \<or> c = 127" | "c \<noteq> 21" "c \<noteq> 8" "c \<noteq> 127" "c = 0 \<or> 128 \<le> count s"
    | "c \<noteq> 21" "c \<noteq> 8" "c \<noteq> 127" "0 < c" "count s < 128"
    using assms(4) unfolding a_key_def by linarith
  then show ?thesis
  proof cases
    case 1
    then show ?thesis using key_kill [OF assms(1) lk assms(3)] by blast
  next
    case 2
    then show ?thesis using key_backspace [OF assms(1) lk assms(3)] by blast
  next
    case 3
    then show ?thesis using key_ignored [OF assms(1)] by blast
  next
    case 4
    then show ?thesis using key_store [OF assms(1-3)] assms(4) by (simp add: a_key_def)
  qed
qed

lemma consoleintr_edits:
  assumes r: "key_ready s" and c: "a_key c"
  shows "\<exists>s'. consoleintr c s = Some s' \<and> key_ready s' \<and> (finished s', editing s') = edit_key c (finished s, editing s)"
proof -
  let ?a = "s\<lparr>lk := acq ConsLock (lk s)\<rparr>"
  have lk: "lkwf (lk s)" "ConsLock \<notin> held (lk s)" using r by (simp_all add: key_ready_def procs_ready_def)
  have a: "cons_ok ?a" "procs_ready ?a" "panicked ?a = 0" "finished ?a = finished s" "editing ?a = editing s"
    using r lk typed_cong [of ?a s] by (auto simp: key_ready_def procs_ready_def)
  obtain t where t: "key_action c ?a = Some t" "edited c ?a t" using key_edits [OF a(1-3) c] by blast
  have l: "lksame (acq ConsLock (lk s)) (lk t)" using t(2) by (simp add: edited_def)
  then have tl: "lkwf (lk t)" "ConsLock \<in> held (lk t)" using lk by (simp_all add: lksame_def)
  let ?s' = "t\<lparr>lk := rel ConsLock (lk t)\<rparr>"
  have "lksame (lk s) (rel ConsLock (lk t))" using lksame_release [OF lk l] .
  then have "procs_ready ?s'" "ConsLock \<notin> held (lk ?s')"
    using r t(2) by (auto simp: key_ready_def procs_ready_def lksame_def edited_def)
  moreover have "cons_ok ?s'" "finished ?s' = finished t" "editing ?s' = editing t" using typed_cong [of ?s' t] t(2) by (simp_all add: edited_def)
  moreover have "panicked ?s' = 0" using t(2) a(3) by (simp add: edited_def)
  moreover have "consoleintr c s = Some ?s'" using c t(1) tl lk by (simp add: consoleintr_action a_key_def ctrl_def)
  ultimately show ?thesis using t(2) a(4,5) by (auto simp: key_ready_def edited_def)
qed

text \<open>
  C5: the console's interrupt handler is the specified line editor: after any sequence of typed
  characters (other than control-P, which prints the process list), the characters that readers may
  take and the line still being edited are those that the specification computes key by key. At most
  128 characters are ever held, whatever the values of the 32-bit indices, and no reader sees a line
  before it is finished.
\<close>

theorem console_line_editor:
  assumes "key_ready s" and "\<forall>c \<in> set cs. a_key c"
  shows "\<exists>s'. for_each cs consoleintr s = Some s' \<and> (finished s', editing s') = fold edit_key cs (finished s, editing s) \<and>
    length (finished s') + length (editing s') \<le> 128 \<and> key_ready s'"
  using assms
proof (induction cs arbitrary: s)
  case Nil
  have "length (finished s) + length (editing s) = count s" using typed_parts [of s] by (metis length_append length_typed)
  then show ?case using Nil by (simp add: key_ready_def cons_ok_def)
next
  case (Cons c cs)
  obtain s1 where s1: "consoleintr c s = Some s1" "key_ready s1" "(finished s1, editing s1) = edit_key c (finished s, editing s)"
    using consoleintr_edits [OF Cons.prems(1)] Cons.prems(2) by auto
  then show ?case using Cons.IH [OF s1(2)] Cons.prems(2) by auto
qed

text \<open>An empty console whose indices are about to wrap around.\<close>

definition cons_sample :: kcons where
  "cons_sample = kfs.extend fs_sample (kcons.fields 0 0 0 [] [] [] True (replicate 128 0) 0xFFFFFFFE 0xFFFFFFFE 0xFFFFFFFE)"

lemma cons_sample_ready: "key_ready cons_sample" "finished cons_sample = []" "editing cons_sample = []"
proof -
  have f: "lk cons_sample = lk fs_sample" "procs cons_sample = procs fs_sample"
    by (simp_all add: cons_sample_def kfs.extend_def)
  have z: "count cons_sample = 0" "mark cons_sample = 0" by (simp_all add: count_def mark_def cons_sample_def kfs.extend_def kcons.fields_def)
  then show e: "finished cons_sample = []" "editing cons_sample = []"
    by (simp_all add: finished_def editing_def typed_def ring_def)
  have "cons_ok cons_sample" using z e by (simp add: cons_ok_def) (simp add: cons_sample_def kfs.extend_def kcons.fields_def)
  moreover have "procs_ready cons_sample" using fs_sample_lk by (simp add: procs_ready_def f)
  moreover have "panicked cons_sample = 0" by (simp add: cons_sample_def kfs.extend_def kcons.fields_def)
  ultimately show "key_ready cons_sample" using fs_sample_lk by (simp add: key_ready_def f)
qed

text \<open>The keys \<^verbatim>\<open>a\<close>, \<^verbatim>\<open>b\<close>, delete, \<^verbatim>\<open>c\<close>, return, \<^verbatim>\<open>d\<close>.\<close>

theorem console_line_editor_witness:
  "\<exists>s'. for_each [97, 98, 127, 99, 13, 100] consoleintr cons_sample = Some s' \<and> finished s' = [97, 99, 10] \<and> editing s' = [100]"
proof -
  have "fold edit_key [97, 98, 127, 99, 13, 100] ([], []) = ([97, 99, 10], [100])" by (simp add: edit_key_def)
  then show ?thesis
    using console_line_editor [OF cons_sample_ready(1), of "[97, 98, 127, 99, 13, 100]"]
    unfolding cons_sample_ready(2,3) by (auto simp: a_key_def)
qed

end
