(* ===== verification/Refs.thy ===== *)
theory Refs
  imports Sysfile Lineedit
begin

text \<open>
  The tables whose entries are shared by reference counts: the inode table of \<^verbatim>\<open>kernel/fs.c\<close> and the file
  table of \<^verbatim>\<open>kernel/file.c\<close>. A locale states what both promise to their users.
\<close>

section \<open>Shared entries\<close>

text \<open>A sequence of operations on a table: \<open>(True, i)\<close> takes another reference to entry \<open>i\<close>, \<open>(False, i)\<close> gives one back.\<close>

fun share_ops :: "(nat \<Rightarrow> 's \<Rightarrow> 's option) \<Rightarrow> (nat \<Rightarrow> 's \<Rightarrow> 's option) \<Rightarrow> (bool \<times> nat) list \<Rightarrow> 's \<Rightarrow> 's option" where
  "share_ops dup put [] s = Some s"
| "share_ops dup put ((up, i) # ops) s = do { s \<leftarrow> (if up then dup i s else put i s); share_ops dup put ops s }"

definition balance :: "(bool \<times> nat) list \<Rightarrow> nat \<Rightarrow> int" where
  "balance ops i = int (length (filter (\<lambda>x. x = (True, i)) ops)) - int (length (filter (\<lambda>x. x = (False, i)) ops))"

lemma balance_simps [simp]:
  "balance [] i = 0" "balance ((up, j) # ops) i = (if j = i then if up then 1 else - 1 else 0) + balance ops i"
  by (auto simp: balance_def)

text \<open>No entry loses its last reference on the way.\<close>

fun stays_shared :: "(nat \<Rightarrow> int) \<Rightarrow> (bool \<times> nat) list \<Rightarrow> bool" where
  "stays_shared r [] = True"
| "stays_shared r ((up, i) # ops) = (if up then 0 < r i \<and> stays_shared (r(i := r i + 1)) ops else 1 < r i \<and> stays_shared (r(i := r i - 1)) ops)"

locale refcounted =
  fixes ok :: "'s \<Rightarrow> bool" and ref :: "'s \<Rightarrow> nat \<Rightarrow> int" and dup :: "nat \<Rightarrow> 's \<Rightarrow> 's option" and put :: "nat \<Rightarrow> 's \<Rightarrow> 's option"
  assumes dup_law: "ok s \<Longrightarrow> 0 < ref s i \<Longrightarrow> \<exists>s'. dup i s = Some s' \<and> ok s' \<and> ref s' = (ref s)(i := ref s i + 1)"
    and put_law: "ok s \<Longrightarrow> 1 < ref s i \<Longrightarrow> \<exists>s'. put i s = Some s' \<and> ok s' \<and> ref s' = (ref s)(i := ref s i - 1)"
begin

lemma ops_count:
  assumes "ok s" and "stays_shared (ref s) ops"
  shows "\<exists>s'. share_ops dup put ops s = Some s' \<and> ok s' \<and> (\<forall>i. ref s' i = ref s i + balance ops i)"
  using assms
proof (induction ops arbitrary: s)
  case (Cons x ops)
  obtain up i where x: "x = (up, i)" by (cases x)
  obtain s1 where s1: "(if up then dup i s else put i s) = Some s1" "ok s1" "ref s1 = (ref s)(i := ref s i + (if up then 1 else - 1))"
    "stays_shared (ref s1) ops"
    using dup_law [OF Cons.prems(1), of i] put_law [OF Cons.prems(1), of i] Cons.prems(2) x by (cases up) auto
  obtain s' where "share_ops dup put ops s1 = Some s'" "ok s'" "\<forall>i. ref s' i = ref s1 i + balance ops i"
    using Cons.IH [OF s1(2,4)] by blast
  then show ?case using s1(1,3) x by auto
qed simp

end

section \<open>The file table\<close>

definition files_ok :: "'z kfile_scheme \<Rightarrow> bool" where
  "files_ok s \<longleftrightarrow> lkwf (lk s) \<and> FtableLock \<notin> held (lk s) \<and> length (ftable s) = NFILE"

definition file_ref :: "'z kfile_scheme \<Rightarrow> nat \<Rightarrow> int" where
  "file_ref s i = (if i < NFILE then f_ref (ftable s ! i) else 0)"

lemma filedup_law:
  assumes "files_ok s" and "0 < file_ref s i"
  shows "\<exists>s'. filedup i s = Some s' \<and> files_ok s' \<and> file_ref s' = (file_ref s)(i := file_ref s i + 1)"
  using assms by (auto simp: filedup_def files_ok_def file_ref_def upd_file_def fun_eq_iff nth_list_update split: if_splits)

lemma fileclose_law:
  assumes "files_ok s" and "1 < file_ref s i"
  shows "\<exists>s'. fileclose i s = Some s' \<and> files_ok s' \<and> file_ref s' = (file_ref s)(i := file_ref s i - 1)"
  using assms by (auto simp: fileclose_def files_ok_def file_ref_def upd_file_def fun_eq_iff nth_list_update split: if_splits)

interpretation files: refcounted "files_ok :: 'z kfile_scheme \<Rightarrow> bool" file_ref filedup fileclose
  by unfold_locales (rule filedup_law, assumption+, rule fileclose_law)

section \<open>The inode table\<close>

definition inodes_ok :: "'z kfs_scheme \<Rightarrow> bool" where
  "inodes_ok s \<longleftrightarrow> lkwf (lk s) \<and> ItableLock \<notin> held (lk s) \<and> length (itable s) = NINODE"

definition inode_ref :: "'z kfs_scheme \<Rightarrow> nat \<Rightarrow> int" where
  "inode_ref s i = (if i < NINODE then i_ref (itable s ! i) else 0)"

definition idup_state :: "nat \<Rightarrow> 'z kfs_scheme \<Rightarrow> 'z kfs_scheme option" where
  "idup_state i s = map_option snd (idup i s)"

lemma idup_law:
  assumes "inodes_ok s" and "0 < inode_ref s i"
  shows "\<exists>s'. idup_state i s = Some s' \<and> inodes_ok s' \<and> inode_ref s' = (inode_ref s)(i := inode_ref s i + 1)"
  using assms by (auto simp: idup_state_def idup_def inodes_ok_def inode_ref_def upd_inode_def fun_eq_iff nth_list_update split: if_splits)

lemma iput_law:
  assumes "inodes_ok s" and "1 < inode_ref s i"
  shows "\<exists>s'. iput i s = Some s' \<and> inodes_ok s' \<and> inode_ref s' = (inode_ref s)(i := inode_ref s i - 1)"
  using assms by (auto simp: iput_def Let_def inodes_ok_def inode_ref_def upd_inode_def fun_eq_iff nth_list_update split: if_splits)

interpretation inodes: refcounted "inodes_ok :: 'z kfs_scheme \<Rightarrow> bool" inode_ref idup_state iput
  by unfold_locales (rule idup_law, assumption+, rule iput_law)

section \<open>Allocation\<close>

lemma find_upt:
  assumes "i < n" and "P i"
  obtains j where "find P [0..<n] = Some j" "j < n" "P j" "\<forall>k < j. \<not> P k"
proof -
  obtain j where j: "find P [0..<n] = Some j" using assms by (cases "find P [0..<n]") (auto simp: find_None_iff)
  then have "j < n \<and> P j \<and> (\<forall>k < j. \<not> P k)" by (auto simp: find_Some_iff)
  then show thesis using j that by blast
qed


text \<open>Two references to an inode are references to the same entry of the table.\<close>

definition itable_ok :: "'z kfs_scheme \<Rightarrow> bool" where
  "itable_ok s \<longleftrightarrow> inodes_ok s \<and> (\<forall>i < NINODE. 0 \<le> i_ref (itable s ! i)) \<and>
     (\<forall>i < NINODE. \<forall>j < NINODE. 0 < i_ref (itable s ! i) \<and> 0 < i_ref (itable s ! j) \<and>
        i_dev (itable s ! i) = i_dev (itable s ! j) \<and> i_inum (itable s ! i) = i_inum (itable s ! j) \<longrightarrow> i = j)"

definition refers :: "'z kfs_scheme \<Rightarrow> u32 \<Rightarrow> u32 \<Rightarrow> nat \<Rightarrow> bool" where
  "refers s dev inum i \<longleftrightarrow> i < NINODE \<and> i_ref (itable s ! i) > 0 \<and> i_dev (itable s ! i) = dev \<and> i_inum (itable s ! i) = inum"

lemma iget_hit:
  assumes ok: "itable_ok s" and r: "refers s dev inum i"
  shows "iget dev inum s = Some (i, upd_inode i (\<lambda>x. x\<lparr>i_ref := i_ref x + 1\<rparr>) s\<lparr>lk := rel ItableLock (acq ItableLock (lk s))\<rparr>)"
proof -
  let ?P = "\<lambda>i. i_ref (itable s ! i) > 0 \<and> i_dev (itable s ! i) = dev \<and> i_inum (itable s ! i) = inum"
  have "i < NINODE" "?P i" using r by (auto simp: refers_def)
  then obtain j where j: "find ?P [0..<NINODE] = Some j" "j < NINODE" "?P j" by (rule find_upt)
  then have "j = i" using ok r unfolding itable_ok_def refers_def by metis
  then show ?thesis using j(1) ok by (simp add: iget_def itable_ok_def inodes_ok_def upd_inode_def)
qed

lemma iget_miss:
  assumes ok: "itable_ok s" and none: "\<And>i. \<not> refers s dev inum i" and k: "k < NINODE" "i_ref (itable s ! k) = 0"
  obtains i where "iget dev inum s = Some (i, upd_inode i (\<lambda>x. x\<lparr>i_dev := dev, i_inum := inum, i_ref := 1, i_valid := 0\<rparr>) s
      \<lparr>lk := rel ItableLock (acq ItableLock (lk s))\<rparr>)" "i < NINODE" "i_ref (itable s ! i) = 0"
proof -
  have "find (\<lambda>i. i_ref (itable s ! i) > 0 \<and> i_dev (itable s ! i) = dev \<and> i_inum (itable s ! i) = inum) [0..<NINODE] = None"
    using none by (auto simp: find_None_iff refers_def)
  moreover obtain i where i: "find (\<lambda>i. i_ref (itable s ! i) = 0) [0..<NINODE] = Some i" "i < NINODE" "i_ref (itable s ! i) = 0"
    using find_upt [of k NINODE "\<lambda>i. i_ref (itable s ! i) = 0"] k by blast
  ultimately have "iget dev inum s = Some (i, upd_inode i (\<lambda>x. x\<lparr>i_dev := dev, i_inum := inum, i_ref := 1, i_valid := 0\<rparr>) s
      \<lparr>lk := rel ItableLock (acq ItableLock (lk s))\<rparr>)"
    using ok by (simp add: iget_def itable_ok_def inodes_ok_def upd_inode_def)
  then show thesis using that i(2,3) by blast
qed

lemma itable_ok_update:
  assumes ok: "itable_ok s" and i: "i < NINODE" "refers s (i_dev x) (i_inum x) i \<or> (\<forall>j. \<not> refers s (i_dev x) (i_inum x) j)" and x: "0 < i_ref x"
    and lk: "lkwf l" "ItableLock \<notin> held l" and t: "t = s\<lparr>itable := (itable s)[i := x], lk := l\<rparr>"
  shows "itable_ok t"
proof -
  have at: "itable t ! j = (if j = i then x else itable s ! j)" if "j < NINODE" for j
    using that i ok t by (simp add: itable_ok_def inodes_ok_def nth_list_update)
  have one: "j = i" if "j < NINODE" "0 < i_ref (itable s ! j)" "i_dev (itable s ! j) = i_dev x" "i_inum (itable s ! j) = i_inum x" for j
  proof -
    have "refers s (i_dev x) (i_inum x) j" using that by (simp add: refers_def)
    then have "refers s (i_dev x) (i_inum x) i" using i(2) by blast
    then show ?thesis using ok that unfolding itable_ok_def refers_def by metis
  qed
  have key: "c = i" if "c < NINODE" "0 < i_ref (itable t ! c)" "i_dev (itable t ! c) = i_dev x" "i_inum (itable t ! c) = i_inum x" for c
  proof (rule ccontr)
    assume "c \<noteq> i"
    then have "itable t ! c = itable s ! c" using at [OF that(1)] by simp
    then show False using one [OF that(1)] that(2-4) \<open>c \<noteq> i\<close> by simp
  qed
  have ti: "itable t ! i = x" using at [OF i(1)] by simp
  have "a = b" if a: "a < NINODE" and b: "b < NINODE" and r: "0 < i_ref (itable t ! a)" "0 < i_ref (itable t ! b)"
    and e: "i_dev (itable t ! a) = i_dev (itable t ! b)" "i_inum (itable t ! a) = i_inum (itable t ! b)" for a b
  proof -
    consider "a = i" | "b = i" | "a \<noteq> i" "b \<noteq> i" by blast
    then show ?thesis
    proof cases
      case 1
      then have "i_dev (itable t ! b) = i_dev x" "i_inum (itable t ! b) = i_inum x" using e ti by simp_all
      then show ?thesis using key [OF b r(2)] 1 by blast
    next
      case 2
      then have "i_dev (itable t ! a) = i_dev x" "i_inum (itable t ! a) = i_inum x" using e ti by simp_all
      then show ?thesis using key [OF a r(1)] 2 by blast
    next
      case 3
      then have "itable t ! a = itable s ! a" "itable t ! b = itable s ! b" using at [OF a] at [OF b] by simp_all
      then have "0 < i_ref (itable s ! a) \<and> 0 < i_ref (itable s ! b) \<and> i_dev (itable s ! a) = i_dev (itable s ! b) \<and> i_inum (itable s ! a) = i_inum (itable s ! b)"
        using r e by simp
      then show ?thesis using ok a b unfolding itable_ok_def by blast
    qed
  qed
  moreover have "0 \<le> i_ref (itable t ! j)" if "j < NINODE" for j using ok x that at [OF that] unfolding itable_ok_def by simp
  moreover have "inodes_ok t" using ok lk t by (simp add: itable_ok_def inodes_ok_def)
  ultimately show ?thesis unfolding itable_ok_def by blast
qed

text \<open>
  C14: \<^verbatim>\<open>iget\<close> keeps the inode table well formed: counts are never negative and no two entries in use are
  for the same inode of the same device. It returns the entry for the inode it was asked for, with one
  more reference than before, changes no other entry, and a second call returns the same entry. It
  needs an entry for this inode or a free one.
\<close>

theorem iget_one_entry_per_inode:
  assumes "itable_ok s" and "\<exists>k < NINODE. refers s dev inum k \<or> i_ref (itable s ! k) = 0"
  shows "\<exists>i s'. iget dev inum s = Some (i, s') \<and> itable_ok s' \<and> refers s' dev inum i \<and>
    i_ref (itable s' ! i) = i_ref (itable s ! i) + 1 \<and> (\<forall>j < NINODE. j \<noteq> i \<longrightarrow> itable s' ! j = itable s ! j) \<and>
    (\<exists>s''. iget dev inum s' = Some (i, s'') \<and> itable_ok s'')"
proof -
  define up where "up = (\<lambda>x :: inode. x\<lparr>i_ref := i_ref x + 1\<rparr>)"
  let ?l = "\<lambda>s :: 'a kfs_scheme. rel ItableLock (acq ItableLock (lk s))"
  have lk: "lkwf (?l t)" "ItableLock \<notin> held (?l t)" "length (itable t) = NINODE" if "itable_ok t" for t :: "'a kfs_scheme"
    using that by (simp_all add: itable_ok_def inodes_ok_def)
  have again: "\<exists>t'. iget dev inum t = Some (i, t') \<and> itable_ok t' \<and> refers t' dev inum i \<and>
      i_ref (itable t' ! i) = i_ref (itable t ! i) + 1 \<and> (\<forall>j < NINODE. j \<noteq> i \<longrightarrow> itable t' ! j = itable t ! j)"
    if ok: "itable_ok t" and r: "refers t dev inum i" for t :: "'a kfs_scheme" and i
  proof -
    have "itable_ok (t\<lparr>itable := (itable t)[i := up (itable t ! i)], lk := ?l t\<rparr>)"
      by (rule itable_ok_update [OF ok _ _ _ lk(1,2) [OF ok] refl]) (use r in \<open>auto simp: refers_def up_def\<close>)
    then show ?thesis using iget_hit [OF ok r] r lk(3) [OF ok] by (auto simp: upd_inode_def up_def refers_def nth_list_update)
  qed
  show ?thesis
  proof (cases "\<exists>i. refers s dev inum i")
    case True
    then show ?thesis using again [OF assms(1)] again by meson
  next
    case False
    then obtain k where "k < NINODE" "i_ref (itable s ! k) = 0" using assms(2) by blast
    then obtain i where i: "iget dev inum s = Some (i, upd_inode i (\<lambda>x. x\<lparr>i_dev := dev, i_inum := inum, i_ref := 1, i_valid := 0\<rparr>) s\<lparr>lk := ?l s\<rparr>)"
      "i < NINODE" "i_ref (itable s ! i) = 0"
      using iget_miss [OF assms(1)] False by blast
    let ?t = "s\<lparr>itable := (itable s)[i := (itable s ! i)\<lparr>i_dev := dev, i_inum := inum, i_ref := 1, i_valid := 0\<rparr>], lk := ?l s\<rparr>"
    have ok: "itable_ok ?t"
      by (rule itable_ok_update [OF assms(1) i(2) _ _ lk(1,2) [OF assms(1)] refl]) (use False in auto)
    moreover have "refers ?t dev inum i" using i(2) lk(3) [OF assms(1)] by (simp add: refers_def)
    ultimately show ?thesis using again [of ?t i] i lk(3) [OF assms(1)]
      by (intro exI [of _ i] exI [of _ ?t]) (auto simp: upd_inode_def)
  qed
qed

text \<open>The same holds of the references to an inode once it is in the table.\<close>

lemma inode_references_counted:
  assumes "inodes_ok s" and "stays_shared (inode_ref s) ops"
  shows "\<exists>s'. share_ops idup_state iput ops s = Some s' \<and> inodes_ok s' \<and> (\<forall>i. inode_ref s' i = inode_ref s i + balance ops i)"
  using assms by (rule inodes.ops_count)

section \<open>Samples\<close>

definition unused_inode :: inode where
  "unused_inode = \<lparr>i_dev = 0, i_inum = 0, i_ref = 0, i_valid = 0, i_type = 0, i_major = 0, i_minor = 0, i_nlink = 0, i_size = 0, i_addrs = replicate 13 0\<rparr>"

definition inode_sample :: kfs where
  "inode_sample = fs_sample\<lparr>itable := itable fs_sample ! 0 # replicate 49 unused_inode\<rparr>"

lemma inode_sample_lk: "lkwf (lk inode_sample)" "held (lk inode_sample) = {}"
  using fs_sample_lk by (simp_all add: inode_sample_def)

lemma inode_sample_at:
  "i < NINODE \<Longrightarrow> itable inode_sample ! i = (if i = 0 then \<lparr>i_dev = 1, i_inum = 5, i_ref = 1, i_valid = 1, i_type = T_FILE, i_major = 0,
     i_minor = 0, i_nlink = 1, i_size = 700, i_addrs = 60 # replicate 12 0\<rparr> else unused_inode)"
  by (cases i) (simp_all add: inode_sample_def fs_sample_def klog.extend_def kfs.fields_def NINODE_def)

theorem iget_one_entry_per_inode_witness:
  "\<exists>i s' s''. iget 1 7 inode_sample = Some (i, s') \<and> refers s' 1 7 i \<and> itable_ok s' \<and> iget 1 7 s' = Some (i, s'')"
proof -
  have "length (itable inode_sample) = NINODE" by (simp add: inode_sample_def NINODE_def)
  then have ok: "itable_ok inode_sample"
    using inode_sample_lk by (auto simp: itable_ok_def inodes_ok_def inode_sample_at unused_inode_def)
  have k: "(1 :: nat) < NINODE" by (simp add: NINODE_def)
  then have "\<exists>k < NINODE. refers inode_sample 1 7 k \<or> i_ref (itable inode_sample ! k) = 0"
    by (intro exI [of _ 1]) (simp add: inode_sample_at unused_inode_def)
  then show ?thesis using iget_one_entry_per_inode [OF ok, of 1 7] by blast
qed

definition unused_file :: filerec where
  "unused_file = \<lparr>f_type = FD_NONE, f_ref = 0, f_readable = 0, f_writable = 0, f_pipe = 0, f_ip = None, f_off = 0, f_major = 0\<rparr>"

definition file_sample :: kfile where
  "file_sample = kcons.extend cons_sample (kfile.fields (unused_file\<lparr>f_ref := 1\<rparr> # replicate 99 unused_file) (replicate 10 NoDevice))"


end
