(* ===== verification/Trapprops.thy ===== *)
theory Trapprops
  imports Trap Refs
begin

text \<open>
  A system call from the trap to the return to user space: which registers of the process change.
\<close>

section \<open>The trap frame\<close>

text \<open>The 36 words of \<^verbatim>\<open>struct trapframe\<close>: 3 is \<^verbatim>\<open>epc\<close>, 14 is \<^verbatim>\<open>a0\<close>, 21 is \<^verbatim>\<open>a7\<close>.\<close>

definition tfreg :: "'z kproc_scheme \<Rightarrow> nat \<Rightarrow> nat \<Rightarrow> u64" where
  "tfreg s p k = read64 (mem s) (p_trapframe (procs s ! p) + of_nat (8 * k))"

lemma apart:
  assumes "j < 36" "k < 36" "j \<noteq> k" "i < 8"
  shows "8 \<le> unat ((of_nat (8 * k) :: u64) + of_nat i - of_nat (8 * j))"
proof -
  define d where "d = (if j < k then 8 * k + i - 8 * j else 2 ^ 64 + (8 * k + i) - 8 * j)"
  have "(of_nat d :: u64) = of_nat (8 * k) + of_nat i - of_nat (8 * j)"
    using assms by (auto simp: d_def of_nat_diff)
  moreover have "d < 2 ^ 64" "8 \<le> d" using assms by (auto simp: d_def)
  ultimately show ?thesis by (metis unat_of_nat64)
qed

lemma read64_word:
  assumes "j < 36" "k < 36"
  shows "read64 (write64 m (a + of_nat (8 * j)) v) (a + of_nat (8 * k)) = (if k = j then v else read64 m (a + of_nat (8 * k)))"
proof (cases "k = j")
  case False
  have "write64 m (a + of_nat (8 * j)) v (a + of_nat (8 * k) + of_nat i) = m (a + of_nat (8 * k) + of_nat i)" if "i < 8" for i
  proof -
    have "(a + of_nat (8 * k) + of_nat i) - (a + of_nat (8 * j)) = of_nat (8 * k) + of_nat i - of_nat (8 * j)" by (simp add: algebra_simps)
    then have "8 \<le> unat ((a + of_nat (8 * k) + of_nat i) - (a + of_nat (8 * j)))"
      using apart [OF assms _ that] False by metis
    then show ?thesis unfolding write64_def write_bytes_def by (simp only: length_bytes_of_word not_less [symmetric] if_False)
  qed
  then have "read_bytes (write64 m (a + of_nat (8 * j)) v) (a + of_nat (8 * k)) 8 = read_bytes m (a + of_nat (8 * k)) 8"
    by (rule read_bytes_cong)
  then show ?thesis using False by (simp add: read64_def)
qed simp

lemma tfreg_set:
  assumes "j < 36" "k < 36" and "off = of_nat (8 * j)"
  shows "tfreg (tf_set p off v s) p k = (if k = j then v else tfreg s p k)"
  using read64_word [OF assms(1,2)] assms(3) by (simp add: tfreg_def tf_set_def)

lemma tf_set_fields [simp]:
  fixes s :: "'z ktrap_scheme"
  shows "lk (tf_set p off v s) = lk s" "procs (tf_set p off v s) = procs s" "satp (tf_set p off v s) = satp s"
    "sepc (tf_set p off v s) = sepc s" "scause (tf_set p off v s) = scause s" "uservec_off (tf_set p off v s) = uservec_off s"
    "usertrap_addr (tf_set p off v s) = usertrap_addr s" "kernelvec_addr (tf_set p off v s) = kernelvec_addr s" "stvec (tf_set p off v s) = stvec s"
    "spp (tf_set p off v s) = spp s" "spie (tf_set p off v s) = spie s"
  by (simp_all add: tf_set_def)

lemma tfreg_lk [simp]: "tfreg (s\<lparr>lk := l\<rparr>) p k = tfreg s p k" "myproc (tf_set p off v s) = myproc s"
  by (simp_all add: tfreg_def tf_set_def myproc_def mycpu_def)

text \<open>What the code at the end of a trap leaves for the return to user space.\<close>

definition returns_to_user :: "nat \<Rightarrow> 'z ktrap_scheme \<Rightarrow> 'z ktrap_scheme \<Rightarrow> bool" where
  "returns_to_user p s s' \<longleftrightarrow> sepc s' = tfreg s p 3 \<and> \<not> spp s' \<and> spie s' \<and> \<not> sie (lk s') \<and> stvec s' = TRAMPOLINE + uservec_off s \<and>
     procs s' = procs s \<and> (\<forall>k < 36. tfreg s' p k =
       (if k = 0 then satp s else if k = 1 then p_kstack (procs s ! p) + PGSIZE else if k = 2 then usertrap_addr s
        else if k = 4 then of_nat (tp (lk s)) else tfreg s p k))"

lemma prepare_return_spec:
  assumes "myproc s = Some p"
  shows "\<exists>s'. prepare_return s = Some s' \<and> returns_to_user p s s'"
proof -
  define t where "t = s\<lparr>lk := (lk s)\<lparr>sie := False\<rparr>, stvec := TRAMPOLINE + uservec_off s\<rparr>"
  define u where "u = tf_set p 32 (of_nat (tp (lk s))) (tf_set p 16 (usertrap_addr s) (tf_set p 8 (p_kstack (procs s ! p) + PGSIZE) (tf_set p 0 (satp s) t)))"
  have r: "tfreg u p k = (if k = 0 then satp s else if k = 1 then p_kstack (procs s ! p) + PGSIZE else if k = 2 then usertrap_addr s
        else if k = 4 then of_nat (tp (lk s)) else tfreg s p k)" if "k < 36" for k
  proof -
    have "tfreg t p k = tfreg s p k" by (simp add: t_def tfreg_def)
    then show ?thesis using that unfolding u_def
      by (simp add: tfreg_set [of 4 _ 32] tfreg_set [of 2 _ 16] tfreg_set [of 1 _ 8] tfreg_set [of 0 _ 0])
  qed
  have f: "lk u = (lk s)\<lparr>sie := False\<rparr>" "procs u = procs s" "stvec u = TRAMPOLINE + uservec_off s" by (simp_all add: u_def t_def)
  have "prepare_return s = Some (u\<lparr>spp := False, spie := True, sepc := tfreg u p 3\<rparr>)"
    using assms by (simp add: prepare_return_def u_def t_def tfreg_def Let_def)
  moreover have "returns_to_user p s (u\<lparr>spp := False, spie := True, sepc := tfreg u p 3\<rparr>)"
  proof -
    have "tfreg (u\<lparr>spp := False, spie := True, sepc := x\<rparr>) p k = tfreg u p k" for k x by (simp add: tfreg_def)
    then show ?thesis using r f by (simp add: returns_to_user_def)
  qed
  ultimately show ?thesis by blast
qed

lemma killed_alive:
  assumes "lkwf (lk s)" "ProcLock p \<notin> held (lk s)" "p_killed (procs s ! p) = 0"
  shows "killed p s = Some (0, s\<lparr>lk := rel (ProcLock p) (acq (ProcLock p) (lk s))\<rparr>)"
  using assms by (simp add: killed_def)

section \<open>A system call that returns a value\<close>

text \<open>The state in which \<^verbatim>\<open>usertrap\<close> calls \<^verbatim>\<open>syscall\<close>: the saved pc is after the ecall, and interrupts are on.\<close>

definition syscall_entry :: "nat \<Rightarrow> 'z ktrap_scheme \<Rightarrow> 'z ktrap_scheme" where
  "syscall_entry p s =
     (let t = tf_set p 24 (sepc s) (s\<lparr>stvec := kernelvec_addr s\<rparr>);
          t = tf_set p 24 (sepc s + 4) (t\<lparr>lk := rel (ProcLock p) (acq (ProcLock p) (lk s))\<rparr>)
      in t\<lparr>lk := (lk t)\<lparr>sie := True\<rparr>\<rparr>)"

lemma syscall_entry_regs:
  "k < 36 \<Longrightarrow> tfreg (syscall_entry p s) p k = (if k = 3 then sepc s + 4 else tfreg s p k)"
proof -
  assume "k < 36"
  moreover have "tfreg (s\<lparr>stvec := x\<rparr>) p k = tfreg s p k" for x by (simp add: tfreg_def)
  ultimately show ?thesis by (simp add: syscall_entry_def Let_def tfreg_set [of 3 _ 24])
qed

lemma syscall_entry_fields:
  "procs (syscall_entry p s) = procs s" "lk (syscall_entry p s) = (rel (ProcLock p) (acq (ProcLock p) (lk s)))\<lparr>sie := True\<rparr>"
  "uservec_off (syscall_entry p s) = uservec_off s"
  by (simp_all add: syscall_entry_def Let_def)

lemma sie_on:
  assumes "lkwf l" "noff (cpus l (tp l)) = 0"
  shows "lkwf (l\<lparr>sie := True\<rparr>)" "held (l\<lparr>sie := True\<rparr>) = held l"
  using assms by (simp_all add: lkwf_def held_def)

lemma usertrap_calls:
  assumes "\<not> spp s" "scause s = 8" "myproc s = Some p" "lkwf (lk s)" "ProcLock p \<notin> held (lk s)" "p_killed (procs s ! p) = 0"
    and "syscall junk (syscall_entry p s) = Some (Value v, t)"
  shows "usertrap junk s = usertrap_tail 0 t"
proof -
  define s1 where "s1 = tf_set p 24 (sepc s) (s\<lparr>stvec := kernelvec_addr s\<rparr>)"
  define s2 where "s2 = s1\<lparr>lk := rel (ProcLock p) (acq (ProcLock p) (lk s))\<rparr>"
  have k: "killed p s1 = Some (0, s2)" using assms killed_alive [of s1 p] by (simp add: s1_def s2_def)
  have r: "read64 (mem s2) (p_trapframe (procs s2 ! p) + 24) = sepc s" by (simp add: s2_def s1_def tf_set_def)
  have e: "(tf_set p 24 (sepc s + 4) s2)\<lparr>lk := (lk s2)\<lparr>sie := True\<rparr>\<rparr> = syscall_entry p s"
    by (simp add: syscall_entry_def Let_def s2_def s1_def)
  have "myproc (s\<lparr>stvec := kernelvec_addr s\<rparr>) = Some p" using assms by (simp add: myproc_def mycpu_def)
  then show ?thesis using assms k r e by (simp add: usertrap_def Let_def s1_def [symmetric])
qed

lemma usertrap_tail_returns:
  assumes "myproc t = Some p" "lkwf (lk t)" "ProcLock p \<notin> held (lk t)" "p_killed (procs t ! p) = 0"
  shows "\<exists>u s'. usertrap_tail 0 t = Some (Return (MAKE_SATP (p_pagetable (procs t ! p))), s') \<and>
    u = t\<lparr>lk := rel (ProcLock p) (acq (ProcLock p) (lk t))\<rparr> \<and> returns_to_user p u s'"
proof -
  define u where "u = t\<lparr>lk := rel (ProcLock p) (acq (ProcLock p) (lk t))\<rparr>"
  have "lksame (lk t) (lk u)" using assms by (simp add: u_def)
  then have m: "myproc u = Some p" using lksame_myproc assms by metis
  obtain s' where "prepare_return u = Some s'" "returns_to_user p u s'" using prepare_return_spec [OF m] by blast
  then show ?thesis using m assms killed_alive [of t p]
    by (intro exI [of _ u] exI [of _ s']) (simp add: usertrap_tail_def usertrap_return_def u_def [symmetric] returns_to_user_def, simp add: u_def)
qed

text \<open>
  C8: the system call \<^verbatim>\<open>getpid\<close> from the ecall to the return to user space. A process that is not killed traps
  from user mode with cause 8 and the number 11 in \<^verbatim>\<open>a7\<close>. \<^verbatim>\<open>usertrap\<close> returns the satp value of its own
  page table. The pc to return to is the one after the ecall, in user mode with interrupts on after the return, and
  the next trap goes to \<^verbatim>\<open>uservec\<close> in the trampoline. \<^verbatim>\<open>a0\<close> holds the process id and every other user
  register has the value it had at the trap.
\<close>

theorem getpid_round_trip:
  assumes "\<not> spp s" "scause s = 8" "myproc s = Some p" "lkwf (lk s)" "ProcLock p \<notin> held (lk s)" "noff (mycpu s) = 0"
    and "p_killed (procs s ! p) = 0" "ucast (tfreg s p 21) = (11 :: u32)"
  shows "\<exists>s'. usertrap junk s = Some (Return (MAKE_SATP (p_pagetable (procs s ! p))), s') \<and>
    sepc s' = sepc s + 4 \<and> \<not> spp s' \<and> spie s' \<and> \<not> sie (lk s') \<and> stvec s' = TRAMPOLINE + uservec_off s \<and> procs s' = procs s \<and>
    (\<forall>k. 5 \<le> k \<and> k < 36 \<longrightarrow> tfreg s' p k = (if k = 14 then word_of_int (p_pid (procs s ! p)) else tfreg s p k))"
proof -
  define e where "e = syscall_entry p s"
  define t where "t = tf_set p 112 (word_of_int (p_pid (procs s ! p))) e"
  define l where "l = rel (ProcLock p) (acq (ProcLock p) (lk s))"
  have same: "lksame (lk s) l" using assms by (simp add: l_def)
  then have l: "lkwf l" "held l = held (lk s)" "noff (cpus l (tp l)) = 0" "c_proc (cpus l (tp l)) = Some p"
    using assms by (auto simp: lksame_def same_hart_def mycpu_def myproc_def)
  have e: "procs e = procs s" "lk e = l\<lparr>sie := True\<rparr>" "uservec_off e = uservec_off s"
    by (simp_all add: e_def l_def syscall_entry_fields)
  have t: "procs t = procs s" "lk t = l\<lparr>sie := True\<rparr>" "uservec_off t = uservec_off s" by (simp_all add: t_def e)
  have m: "myproc e = Some p" "myproc t = Some p" using l by (simp_all add: myproc_def mycpu_def e t)
  have "read64 (mem e) (p_trapframe (procs e ! p) + 168) = tfreg s p 21"
    using syscall_entry_regs [of 21 p s] by (simp add: e_def tfreg_def)
  then have "syscall junk e = Some (Value (word_of_int (p_pid (procs s ! p))), t)"
    using assms m by (simp add: syscall_def syscalls_def value_call_def sys_getpid_def e t_def)
  then have "usertrap junk s = usertrap_tail 0 t" using usertrap_calls assms unfolding e_def by blast
  moreover obtain s' where "usertrap_tail 0 t = Some (Return (MAKE_SATP (p_pagetable (procs t ! p))), s')"
    and u: "returns_to_user p (t\<lparr>lk := rel (ProcLock p) (acq (ProcLock p) (lk t))\<rparr>) s'"
    using usertrap_tail_returns [OF m(2)] sie_on [OF l(1,3)] assms by (auto simp: t l)
  moreover have "tfreg t p k = (if k = 14 then word_of_int (p_pid (procs s ! p)) else if k = 3 then sepc s + 4 else tfreg s p k)" if "k < 36" for k
    using that syscall_entry_regs [OF that, of p s] by (simp add: t_def e_def tfreg_set [of 14 _ 112])
  ultimately show ?thesis using u by (intro exI [of _ s']) (simp add: returns_to_user_def t)
qed

definition trap_sample :: ktrap where
  "trap_sample = kfile.extend
     (file_sample\<lparr>lk := (lk file_sample)\<lparr>cpus := (\<lambda>_. \<lparr>c_proc = Some 0, noff = 0, intena = False\<rparr>)\<rparr>,
        procs := (procs file_sample)[0 := (procs file_sample ! 0)\<lparr>p_pid := 3, p_killed := 0\<rparr>],
        mem := write64 (mem file_sample) (p_trapframe (procs file_sample ! 0) + 168) 11\<rparr>)
     (ktrap.fields 0 0x40 8 0 0 False False 0 0 [] 0 0 False 1 0 0 0 0 0)"

theorem getpid_round_trip_witness:
  "\<exists>s'. usertrap [] trap_sample = Some (Return (MAKE_SATP (p_pagetable (procs trap_sample ! 0))), s') \<and> sepc s' = 0x44 \<and> tfreg s' 0 14 = 3"
proof -
  have f: "lk file_sample = lk fs_sample" "procs file_sample = procs fs_sample"
    by (simp_all add: file_sample_def cons_sample_def kcons.extend_def kfs.extend_def)
  have p: "procs trap_sample ! 0 = (procs fs_sample ! 0)\<lparr>p_pid := 3, p_killed := 0\<rparr>"
    using fs_sample_lk(3) by (simp add: trap_sample_def kfile.extend_def f NPROC_def)
  have g: "\<not> spp trap_sample" "scause trap_sample = 8" "sepc trap_sample = 0x40" by (simp_all add: trap_sample_def kfile.extend_def ktrap.fields_def)
  have m: "myproc trap_sample = Some 0" "noff (mycpu trap_sample) = 0" by (simp_all add: trap_sample_def kfile.extend_def myproc_def mycpu_def)
  have "held (lk trap_sample) = {}" "lkwf (lk trap_sample)"
    using fs_sample_lk(1,2) by (auto simp: trap_sample_def kfile.extend_def f held_def lkwf_def)
  moreover have "tfreg trap_sample 0 21 = 11"
    using p by (simp add: tfreg_def) (simp add: trap_sample_def kfile.extend_def f)
  ultimately show ?thesis
    using getpid_round_trip [of trap_sample 0 "[]"] g m by (auto simp: p)
qed

end
