(* ===== verification/Grep.thy ===== *)
theory Grep
  imports Prelude
begin

text \<open>
  \<^verbatim>\<open>user/grep.c\<close>: the regular-expression matcher and the loop that reads, splits and filters lines. A C
  string is the list of the bytes before its NUL; \<open>char_at\<close> reads the byte at an index up to that NUL.
\<close>

section \<open>The matcher\<close>

definition char_at :: "u8 list \<Rightarrow> nat \<Rightarrow> u8" where
  "char_at str i = (if i < length str then str ! i else 0)"

lemma char_at_simps [simp]:
  "char_at [] i = 0" "char_at (c # cs) 0 = c" "char_at (c # cs) (Suc i) = char_at cs i"
  by (simp_all add: char_at_def)

function matchhere :: "u8 list \<Rightarrow> u8 list \<Rightarrow> bool" and matchstar :: "u8 \<Rightarrow> u8 list \<Rightarrow> u8 list \<Rightarrow> bool" where
  "matchhere re tx =
     (if re = [] then True
      else if char_at re 1 = 42 then matchstar (char_at re 0) (drop 2 re) tx
      else if char_at re 0 = 36 \<and> length re = 1 then tx = []
      else if tx \<noteq> [] \<and> (char_at re 0 = 46 \<or> char_at re 0 = char_at tx 0) then matchhere (drop 1 re) (drop 1 tx)
      else False)"
| "matchstar c re tx =
     (if matchhere re tx then True
      else if tx \<noteq> [] \<and> (char_at tx 0 = c \<or> c = 46) then matchstar c re (drop 1 tx)
      else False)"
  by pat_completeness auto
termination
  by (relation "inv_image (less_than <*lex*> less_than)
       (\<lambda>x. case x of Inl (re, tx) \<Rightarrow> (length re, length tx) | Inr (c, re, tx) \<Rightarrow> (length re + 1, length tx))")
     (auto simp: char_at_def split: if_splits)

declare matchhere.simps [simp del] matchstar.simps [simp del]

fun match_from :: "u8 list \<Rightarrow> u8 list \<Rightarrow> bool" where
  "match_from re [] = matchhere re []"
| "match_from re (c # tx) = (if matchhere re (c # tx) then True else match_from re tx)"

definition match :: "u8 list \<Rightarrow> u8 list \<Rightarrow> bool" where
  "match re tx = (if char_at re 0 = 94 then matchhere (drop 1 re) tx else match_from re tx)"

section \<open>The filter\<close>

text \<open>
  The loop over the lines in the buffer: the bytes written and the bytes left, which is the part after
  the last newline. \<^verbatim>\<open>strchr\<close> does not look past a NUL.
\<close>

definition strchr :: "u8 list \<Rightarrow> u8 \<Rightarrow> nat option" where
  "strchr p c = (let q = length (takeWhile (\<lambda>x. x \<noteq> 0 \<and> x \<noteq> c) p) in if q < length p \<and> p ! q = c \<and> c \<noteq> 0 then Some q else None)"

lemma strchr_bound: "strchr p c = Some q \<Longrightarrow> q < length p"
  by (simp add: strchr_def Let_def split: if_splits)

function grep_lines :: "u8 list \<Rightarrow> u8 list \<Rightarrow> u8 list \<times> u8 list" where
  "grep_lines pattern p =
     (case strchr p 10 of
        None \<Rightarrow> ([], p)
      | Some q \<Rightarrow>
          let out = (if match pattern (take q p) then take (q + 1) p else []);
              (outs, rest) = grep_lines pattern (drop (q + 1) p)
          in (out @ outs, rest))"
  by pat_completeness auto
termination
  by (relation "measure (\<lambda>(pattern, p). length p)") (auto dest: strchr_bound)

declare grep_lines.simps [simp del]

text \<open>
  The outer loop. \<open>input\<close> is what is still to be read and \<open>avail\<close> how many bytes each call of \<^verbatim>\<open>read\<close>
  could deliver if the buffer were large enough; \<open>buf\<close> holds the \<^verbatim>\<open>m\<close> bytes kept from the last round.
\<close>

fun grep_loop :: "u8 list \<Rightarrow> u8 list \<Rightarrow> u8 list \<Rightarrow> nat list \<Rightarrow> u8 list" where
  "grep_loop pattern buf input [] = []"
| "grep_loop pattern buf input (a # avail) =
     (let n = min (min a (length input)) (1024 - length buf - 1) in
      if n = 0 then []
      else let (outs, rest) = grep_lines pattern (buf @ take n input)
           in outs @ grep_loop pattern rest (drop n input) avail)"

definition grep :: "u8 list \<Rightarrow> u8 list \<Rightarrow> nat list \<Rightarrow> u8 list" where
  "grep pattern input avail = grep_loop pattern [] input avail"

section \<open>What a pattern denotes\<close>

text \<open>
  A pattern is a sequence of items, each a character with or without a star, and possibly an anchor
  at its end.
\<close>

fun parse_re :: "u8 list \<Rightarrow> (u8 \<times> bool) list \<times> bool" where
  "parse_re [] = ([], False)"
| "parse_re [c] = (if c = 36 then ([], True) else ([(c, False)], False))"
| "parse_re (c # d # re) =
     (if d = 42 then ((c, True) # fst (parse_re re), snd (parse_re re))
      else ((c, False) # fst (parse_re (d # re)), snd (parse_re (d # re))))"

definition accepts :: "u8 \<Rightarrow> u8 \<Rightarrow> bool" where
  "accepts c x \<longleftrightarrow> c = 46 \<or> x = c"

fun lang :: "(u8 \<times> bool) list \<Rightarrow> u8 list set" where
  "lang [] = {[]}"
| "lang ((c, False) # its) = {x # w | x w. accepts c x \<and> w \<in> lang its}"
| "lang ((c, True) # its) = {u @ w | u w. (\<forall>x \<in> set u. accepts c x) \<and> w \<in> lang its}"

text \<open>A prefix of the text is in the language, the whole text if the pattern is anchored at the end.\<close>

definition at_start :: "(u8 \<times> bool) list \<times> bool \<Rightarrow> u8 list \<Rightarrow> bool" where
  "at_start pat tx \<longleftrightarrow> (\<exists>u v. tx = u @ v \<and> u \<in> lang (fst pat) \<and> (snd pat \<longrightarrow> v = []))"

definition somewhere :: "(u8 \<times> bool) list \<times> bool \<Rightarrow> u8 list \<Rightarrow> bool" where
  "somewhere pat tx \<longleftrightarrow> (\<exists>w x. tx = w @ x \<and> at_start pat x)"

lemma at_start_end: "at_start ([], True) tx \<longleftrightarrow> tx = []"
  by (auto simp: at_start_def)

lemma at_start_nil: "at_start ([], False) tx"
  by (auto simp: at_start_def)

lemma at_start_one:
  "at_start ((c, False) # its, e) tx \<longleftrightarrow> tx \<noteq> [] \<and> accepts c (hd tx) \<and> at_start (its, e) (tl tx)"
proof
  assume "at_start ((c, False) # its, e) tx"
  then obtain a v where "tx = a @ v" and a: "a \<in> lang ((c, False) # its)" and e: "e \<longrightarrow> v = []" by (auto simp: at_start_def)
  moreover obtain x w where "a = x # w" "accepts c x" "w \<in> lang its" using a by auto
  ultimately show "tx \<noteq> [] \<and> accepts c (hd tx) \<and> at_start (its, e) (tl tx)" by (auto simp: at_start_def)
next
  assume n: "tx \<noteq> [] \<and> accepts c (hd tx) \<and> at_start (its, e) (tl tx)"
  then obtain w v where w: "tl tx = w @ v" "w \<in> lang its" "e \<longrightarrow> v = []" by (auto simp: at_start_def)
  then have "tx = (hd tx # w) @ v" using n by (metis append_Cons list.collapse)
  moreover have "hd tx # w \<in> lang ((c, False) # its)" using n w(2) by simp
  ultimately show "at_start ((c, False) # its, e) tx" unfolding at_start_def fst_conv snd_conv using w(3) by blast
qed

lemma at_start_star_iff:
  "at_start ((c, True) # its, e) tx \<longleftrightarrow> (\<exists>u v. tx = u @ v \<and> (\<forall>x \<in> set u. accepts c x) \<and> at_start (its, e) v)"
proof
  assume "at_start ((c, True) # its, e) tx"
  then obtain a v where "tx = a @ v" and a: "a \<in> lang ((c, True) # its)" and e: "e \<longrightarrow> v = []" by (auto simp: at_start_def)
  moreover obtain u w where "a = u @ w" "\<forall>x \<in> set u. accepts c x" "w \<in> lang its" using a by auto
  ultimately have "tx = u @ w @ v" "\<forall>x \<in> set u. accepts c x" "at_start (its, e) (w @ v)" by (auto simp: at_start_def)
  then show "\<exists>u v. tx = u @ v \<and> (\<forall>x \<in> set u. accepts c x) \<and> at_start (its, e) v" by blast
next
  assume "\<exists>u v. tx = u @ v \<and> (\<forall>x \<in> set u. accepts c x) \<and> at_start (its, e) v"
  then obtain u w v where t: "tx = u @ w @ v" "\<forall>x \<in> set u. accepts c x" "w \<in> lang its" "e \<longrightarrow> v = []"
    unfolding at_start_def fst_conv snd_conv by blast
  then have "u @ w \<in> lang ((c, True) # its)" by auto
  moreover have "tx = (u @ w) @ v" using t(1) by simp
  ultimately show "at_start ((c, True) # its, e) tx" unfolding at_start_def fst_conv snd_conv using t(4) by blast
qed

lemma at_start_star:
  "at_start ((c, True) # its, e) tx \<longleftrightarrow>
     at_start (its, e) tx \<or> tx \<noteq> [] \<and> accepts c (hd tx) \<and> at_start ((c, True) # its, e) (tl tx)" (is "?l \<longleftrightarrow> ?r")
proof
  assume ?l
  then obtain u v where t: "tx = u @ v" "\<forall>x \<in> set u. accepts c x" "at_start (its, e) v" unfolding at_start_star_iff by blast
  show ?r
  proof (cases u)
    case Nil
    then show ?thesis using t by simp
  next
    case (Cons x xs)
    then have "at_start ((c, True) # its, e) (xs @ v)" unfolding at_start_star_iff using t by auto
    then show ?thesis using Cons t by simp
  qed
next
  assume r: ?r
  show ?l
  proof (cases "at_start (its, e) tx")
    case True
    have "tx = [] @ tx" "\<forall>x \<in> set []. accepts c x" by simp_all
    then show ?thesis unfolding at_start_star_iff using True by blast
  next
    case False
    then have n: "tx \<noteq> []" "accepts c (hd tx)" and "at_start ((c, True) # its, e) (tl tx)" using r by auto
    then obtain u v where "tl tx = u @ v" "\<forall>x \<in> set u. accepts c x" "at_start (its, e) v" unfolding at_start_star_iff by blast
    moreover from this(1) have "tx = (hd tx # u) @ v" using n(1) by (metis append_Cons list.collapse)
    moreover have "\<forall>x \<in> set (hd tx # u). accepts c x" using n(2) calculation(2) by simp
    ultimately show ?thesis unfolding at_start_star_iff by blast
  qed
qed

lemma match_at_start:
  "matchhere re tx \<longleftrightarrow> at_start (parse_re re) tx"
  "matchstar c re tx \<longleftrightarrow> at_start ((c, True) # fst (parse_re re), snd (parse_re re)) tx"
proof (induction re tx and c re tx rule: matchhere_matchstar.induct)
  case (1 re tx)
  consider "re = []" | c where "re = [c]" | c r where "re = c # 42 # r" | c d r where "re = c # d # r" "d \<noteq> 42"
    by (metis neq_Nil_conv)
  then show ?case
  proof cases
    case 1
    then show ?thesis by (simp add: matchhere.simps at_start_nil)
  next
    case 2
    then show ?thesis using "1.IH"(2)
      by (cases tx) (auto simp: matchhere.simps [of "[c]"] at_start_end at_start_one at_start_nil accepts_def)
  next
    case 3
    then show ?thesis using "1.IH"(1) by (simp add: matchhere.simps [of "c # 42 # r"])
  next
    case 4
    then show ?thesis using "1.IH"(2)
      by (cases tx) (auto simp: matchhere.simps [of "c # d # r"] at_start_one accepts_def)
  qed
next
  case (2 c re tx)
  then show ?case
    unfolding matchstar.simps [of c re tx] at_start_star [of c _ _ tx]
    by (cases tx) (auto simp: accepts_def)
qed

lemma match_from_somewhere: "match_from re tx \<longleftrightarrow> somewhere (parse_re re) tx"
proof (induction tx)
  case Nil
  then show ?case by (simp add: somewhere_def match_at_start)
next
  case (Cons c tx)
  have "somewhere pat (c # tx) \<longleftrightarrow> at_start pat (c # tx) \<or> somewhere pat tx" for pat
    by (auto simp: somewhere_def Cons_eq_append_conv)
  with Cons show ?case by (simp add: match_at_start)
qed

text \<open>
  C12: the matcher of \<^verbatim>\<open>grep\<close> decides the language of its pattern: \<open>match\<close> holds exactly if some part of
  the text is in the language of the pattern's items, where a leading caret asks for a prefix, a final
  dollar for a suffix, a dot stands for any character and a starred character for any number of them.
\<close>

theorem match_decides_language:
  "match re tx \<longleftrightarrow>
     (if re \<noteq> [] \<and> hd re = 94 then at_start (parse_re (tl re)) tx else somewhere (parse_re re) tx)"
  by (cases re) (simp_all add: match_def match_at_start(1) match_from_somewhere)

section \<open>Filtering lines\<close>

definition clean :: "u8 list \<Rightarrow> bool" where
  "clean l \<longleftrightarrow> 0 \<notin> set l \<and> 10 \<notin> set l"

definition unlines :: "u8 list list \<Rightarrow> u8 list" where
  "unlines ls = concat (map (\<lambda>l. l @ [10]) ls)"

definition matching :: "u8 list \<Rightarrow> u8 list list \<Rightarrow> u8 list list" where
  "matching pattern ls = filter (match pattern) ls"

lemma unlines_simps [simp]:
  "unlines [] = []" "unlines (l # ls) = l @ 10 # unlines ls" "unlines (ls @ ks) = unlines ls @ unlines ks"
  by (simp_all add: unlines_def)

lemma takeWhile_clean: "clean l \<Longrightarrow> takeWhile (\<lambda>x. x \<noteq> 0 \<and> x \<noteq> 10) (l @ 10 # p) = l"
  unfolding clean_def by (subst takeWhile_append2) auto

lemma grep_lines_line:
  assumes "clean l"
  shows "grep_lines pattern (l @ 10 # p) =
    (unlines (matching pattern [l]) @ fst (grep_lines pattern p), snd (grep_lines pattern p))"
proof -
  have "strchr (l @ 10 # p) 10 = Some (length l)" by (simp add: strchr_def takeWhile_clean [OF assms])
  then show ?thesis by (simp add: grep_lines.simps [of pattern "l @ 10 # p"] matching_def case_prod_unfold Let_def)
qed

lemma grep_lines_rest:
  assumes "clean p"
  shows "grep_lines pattern p = ([], p)"
proof -
  have "takeWhile (\<lambda>x. x \<noteq> 0 \<and> x \<noteq> 10) p = p" using assms by (auto simp: clean_def takeWhile_eq_all_conv)
  then have "strchr p 10 = None" by (simp add: strchr_def del: takeWhile_eq_all_conv)
  then show ?thesis by (simp add: grep_lines.simps [of pattern p])
qed

lemma clean_append: "clean (a @ b) \<longleftrightarrow> clean a \<and> clean b"
  by (auto simp: clean_def)

text \<open>The lines that are complete in the buffer are dealt with; the rest is the start of the next line.\<close>

lemma grep_lines_split:
  assumes "b @ more = unlines ls @ rest" and "\<forall>l \<in> set ls. clean l" and "clean rest"
  shows "\<exists>ks ms r. ls = ks @ ms \<and> grep_lines pattern b = (unlines (matching pattern ks), r) \<and> clean r \<and> r @ more = unlines ms @ rest"
  using assms
proof (induction ls arbitrary: b)
  case Nil
  then have "clean b" using clean_append [of b more] by simp
  then have "grep_lines pattern b = (unlines (matching pattern []), b)" using grep_lines_rest by (simp add: matching_def)
  then show ?case using Nil \<open>clean b\<close> by auto
next
  case (Cons l ls)
  have l: "clean l" using Cons.prems(2) by simp
  have eq: "b @ more = l @ 10 # unlines ls @ rest" using Cons.prems(1) by simp
  then consider u where "l = b @ u" | p where "b = l @ 10 # p" "p @ more = unlines ls @ rest"
    by (auto simp: append_eq_append_conv2 Cons_eq_append_conv append_eq_Cons_conv)
  then show ?case
  proof cases
    case 1
    then have "clean b" using l clean_append by simp
    then have "grep_lines pattern b = (unlines (matching pattern []), b)" using grep_lines_rest by (simp add: matching_def)
    moreover have "b @ more = unlines (l # ls) @ rest" using Cons.prems(1) .
    ultimately show ?thesis using \<open>clean b\<close> by (intro exI [of _ "[]"] exI [of _ "l # ls"] exI [of _ b]) simp
  next
    case 2
    obtain ks ms r where "ls = ks @ ms" "grep_lines pattern p = (unlines (matching pattern ks), r)" "clean r" "r @ more = unlines ms @ rest"
      using Cons.IH [OF 2(2)] Cons.prems(2,3) by auto
    then show ?thesis using 2(1) grep_lines_line [OF l, of pattern p] 
      by (intro exI [of _ "l # ks"] exI [of _ ms] exI [of _ r]) (auto simp: matching_def)
  qed
qed

lemma no_line:
  assumes "buf @ input = unlines ls @ rest" and "clean buf" and "\<forall>l \<in> set ls. length l < 1023" and "input = [] \<or> 1023 \<le> length buf"
  shows "ls = []"
proof (cases ls)
  case (Cons l ks)
  have "length buf \<le> length l"
  proof (rule ccontr)
    assume "\<not> length buf \<le> length l"
    then have "buf ! length l = (buf @ input) ! length l" "length l < length buf" by (simp_all add: nth_append)
    then have "buf ! length l = 10" using assms(1) Cons by simp
    then show False using assms(2) \<open>length l < length buf\<close> nth_mem [of "length l" buf] by (auto simp: clean_def)
  qed
  moreover have "length l < length (buf @ input)" unfolding assms(1) using Cons by simp
  ultimately show ?thesis using assms(3,4) Cons by auto
qed simp

lemma grep_loop_lines:
  assumes "buf @ input = unlines ls @ rest" and "clean buf" and "\<forall>l \<in> set ls. clean l \<and> length l < 1023" and "clean rest"
    and "\<forall>a \<in> set avail. a > 0" and "length input \<le> length avail"
  shows "grep_loop pattern buf input avail = unlines (matching pattern ls)"
  using assms
proof (induction avail arbitrary: buf input ls)
  case Nil
  then show ?case using no_line [of buf input ls rest] by (simp add: matching_def)
next
  case (Cons a avail)
  let ?n = "min (min a (length input)) (1024 - length buf - 1)"
  show ?case
  proof (cases "?n = 0")
    case True
    then have "input = [] \<or> 1023 \<le> length buf" using Cons.prems(5) by (auto simp: min_def split: if_splits)
    then have "ls = []" using no_line [of buf input ls rest] Cons.prems(1-3) by simp
    then show ?thesis using True by (simp add: matching_def)
  next
    case False
    have "(buf @ take ?n input) @ drop ?n input = unlines ls @ rest" using Cons.prems(1) by simp
    then obtain ks ms r where s: "ls = ks @ ms" "grep_lines pattern (buf @ take ?n input) = (unlines (matching pattern ks), r)"
      "clean r" "r @ drop ?n input = unlines ms @ rest"
      using grep_lines_split [of "buf @ take ?n input" "drop ?n input" ls rest pattern] Cons.prems(3,4) by auto
    have "grep_loop pattern r (drop ?n input) avail = unlines (matching pattern ms)"
      using Cons.IH [OF s(4) s(3)] Cons.prems(3-6) False s(1) by auto
    moreover have "grep_loop pattern buf input (a # avail) = unlines (matching pattern ks) @ grep_loop pattern r (drop ?n input) avail"
      unfolding grep_loop.simps Let_def if_not_P [OF False] s(2) prod.case ..
    ultimately show ?thesis using s(1) by (simp add: matching_def)
  qed
qed



end
