(* ===== verification/Spec2Isabelle.thy ===== *)
theory Spec2Isabelle
  imports Logfull Trapprops Refs Grep
begin

text \<open>
  A verification development for the xv6-riscv kernel under
  \<^verbatim>\<open>src/Project1_xv6_custom_sys_calls/xv6-riscv\<close>, with the system calls this project adds: priorities and
  the priority scheduler, process statistics (\<^verbatim>\<open>getprocinfo\<close>, \<^verbatim>\<open>wait_stat\<close>, \<^verbatim>\<open>getreadcount\<close>), shared
  memory (\<^verbatim>\<open>shm_open\<close>, \<^verbatim>\<open>shm_close\<close>) and user-level mutexes. File names below are relative to
  \<^verbatim>\<open>kernel/\<close> unless they start with \<^verbatim>\<open>user/\<close>.

  \<^bold>\<open>How the code is represented.\<close> The kernel state is one record that grows along the imports: the
  lock state (\<open>kst\<close>), physical memory and the free list (\<open>kmem\<close>), the process table (\<open>kproc\<close>), shared memory
  (\<open>kshm\<close>), mutexes (\<open>kmutex\<close>), pipes (\<open>kpipe\<close>), sleep locks (\<open>ksleep\<close>), the buffer cache and the disk (\<open>kbio\<close>),
  the log (\<open>klog\<close>), inodes (\<open>kfs\<close>), console and serial port (\<open>kcons\<close>), open files (\<open>kfile\<close>), and the
  control registers and devices (\<open>ktrap\<close>). Every C function is a function on that state into an option: \<^const>\<open>None\<close>
  is a panic, a fault, or spinning for ever on a lock. A C result of -1 is a value, not \<^const>\<open>None\<close>. Where a
  process gives up the CPU the operation returns \<open>Asleep\<close>, with the state at the switch, and a
  second function continues from the resumed state. The exception is the code of the file system that
  waits for a sleep lock or for room in the log in the middle of a longer operation: it uses
  \<open>acquiresleep_now\<close> and \<open>begin_op_now\<close>, for which having to wait is \<^const>\<open>None\<close>. Integers have the width of the C types wherever
  they can wrap: addresses are 64-bit words, block numbers and the console and pipe indices 32-bit words. Physical memory
  is a function from addresses to bytes; page tables, trap frames and the free list lie in it.

  \<^bold>\<open>Memory.\<close> \<^verbatim>\<open>string.c\<close> is Kstring, the macros of \<^verbatim>\<open>riscv.h\<close> and \<^verbatim>\<open>memlayout.h\<close> are
  Physmem, \<^verbatim>\<open>kalloc.c\<close> is Kalloc, \<^verbatim>\<open>vm.c\<close> is Vm, with the copying functions in Proctab and the
  kernel page table in Trap. Kalloc shows that the free list in memory is an abstract list of pages,
  that no page is handed out twice and that \<^verbatim>\<open>kinit\<close> frees all memory; its interface is the locale
  \<open>page_allocator\<close>. Pagetable reads the three-level table as a map from pages to entries, and
  Addrspace shows that \<^verbatim>\<open>mappages\<close> and \<^verbatim>\<open>uvmunmap\<close> change exactly the range they are given. Vmframe says what
  these operations leave alone. Usermem shows that \<^verbatim>\<open>copyin\<close> returns what \<^verbatim>\<open>copyout\<close> stored.

  \<^bold>\<open>Locks and processes.\<close> \<^verbatim>\<open>spinlock.c\<close> is Spinlock, twice: as operations of one hart, with the
  interrupt nesting, and as the step relation \<open>smp_step\<close> of any number of harts, for which mutual exclusion
  is an invariant. The locale \<open>lock_api\<close> is the contract of acquire and release. \<^verbatim>\<open>proc.c\<close> is Proctab
  (the table), Proc (allocation, scheduler, sleep, wakeup, wait, priorities, statistics) and
  Sysfile (fork, exit, the first process); Procprops shows that the scheduler runs a runnable process of the best
  priority, what each tick accounts, whom \<^verbatim>\<open>wakeup\<close> wakes, and that \<^verbatim>\<open>kwait\<close> returns or sleeps.
  \<^verbatim>\<open>sleeplock.c\<close> is Sleeplock.

  \<^bold>\<open>The added system calls.\<close> \<^verbatim>\<open>shm.c\<close> is Shm; Shmprops shows that opening an existing key maps the
  same pages, that closing unmaps them and the last close frees them, and on which inputs opening
  is refused. \<^verbatim>\<open>sysproc.c\<close> and the argument functions of \<^verbatim>\<open>syscall.c\<close> are Sysproc. Mutex has the
  lock and unlock calls also as a step relation \<open>mstep\<close>, one step per access of shared memory: mutual exclusion is
  an invariant of it, the functions of Sysproc refine it, and with the creation of a mutex by two
  processes at once (\<open>istep\<close>) exclusion fails.

  \<^bold>\<open>Pipes.\<close> \<^verbatim>\<open>pipe.c\<close> is Pipe, with its allocation in File. The ring buffer is a
  bounded queue (locale \<open>bounded_queue\<close>); Pipeprops shows what writing and reading do to the queue and when they block.

  \<^bold>\<open>Disk and files.\<close> \<^verbatim>\<open>bio.c\<close> is Bio, \<^verbatim>\<open>log.c\<close> is Log, \<^verbatim>\<open>fs.c\<close> is Fs, \<^verbatim>\<open>file.c\<close> is File,
  \<^verbatim>\<open>sysfile.c\<close> is Sysfile and \<^verbatim>\<open>exec.c\<close> is Exec. Bioprops shows that the cache is a coherent view of
  the disk. Logprops and Logcrash show that after a crash between any two disk writes of a commit, recovery
  gives all blocks of the transaction or none. Logfull shows that a transaction that fills the log cannot
  commit. Fsdata has the formats of path names and disk inodes, Fsread shows that \<^verbatim>\<open>readi\<close> returns the
  bytes of the file, and Refs that the file table and the inode table count their references (locale
  \<open>refcounted\<close>) and that an inode has one entry.

  \<^bold>\<open>Devices and traps.\<close> \<^verbatim>\<open>uart.c\<close> is Uart, \<^verbatim>\<open>printf.c\<close> and \<^verbatim>\<open>procdump\<close> are Printf, \<^verbatim>\<open>console.c\<close>
  is Console; \<^verbatim>\<open>trap.c\<close>, \<^verbatim>\<open>plic.c\<close>, the system call table and \<^verbatim>\<open>main.c\<close> are Trap. Printf shows the
  notation of printed numbers, Lineedit that the console's input handler implements a line editor, and
  Trapprops follows one system call from the trap to the return to user mode.

  \<^bold>\<open>User programs.\<close> \<^verbatim>\<open>user/grep.c\<close> is Grep: the matcher decides the language of the pattern, and the
  filter writes exactly the matching lines however the input is cut into reads.

  \<^bold>\<open>Bounds and termination.\<close> The table sizes are those of \<^verbatim>\<open>param.h\<close>. No definition uses fuel: every loop is a
  structural recursion or a function with a termination proof, so each theorem that an operation
  returns is about a total function.

  \<^bold>\<open>Not modelled.\<close>
  \<^item> \<^verbatim>\<open>virtio_disk.c\<close>: the queue shared with the device. A disk transfer is complete when the call returns.
  \<^item> \<^verbatim>\<open>start.c\<close> and the assembly files: machine mode, the register switch \<^verbatim>\<open>swtch\<close>, the trampoline. The
    model has the state before and after them.
  \<^item> Interleaving of harts inside an operation, other than in the step relations of Spinlock and
    Mutex: an operation runs on one hart up to the point where it gives up the CPU.
  \<^item> The continuation of a file system operation that had to wait for a sleep lock or for the log.
  \<^item> The user library, the shell, the commands other than \<^verbatim>\<open>grep\<close>, demonstrations and tests: user
    code, which the kernel only runs. Of \<^verbatim>\<open>grep\<close>, the argument handling in \<^verbatim>\<open>main\<close>.
  \<^item> \<^verbatim>\<open>src/Project2_1_linux_commands\<close>: programs made of calls of the C library and of Linux.
\<close>

end
